(* ===== verification/Prelude.thy ===== *)
theory Prelude
  imports Main "HOL-Library.Word" "HOL-Library.Monad_Syntax" "HOL-Library.Sublist"
begin

unbundle bit_operations_syntax

text \<open>
  What every component of the development shares: the machine types of \<open>lib/factype.h\<close>,
  C byte arrays, the byte-level functions of the C library the server calls, and the lemmas
  about them that carry the proofs of the components.

  A computation that may leave the defined behaviour of C (an access outside the array it
  belongs to) has type \<open>'a option\<close>: \<open>None\<close> says that the C program has undefined behaviour
  there, never that the program reports an error.  Errors the program reports are values, the
  integer codes of the source.
\<close>

section \<open>Machine types\<close>

type_synonym u8 = "8 word"
type_synonym u16 = "16 word"
type_synonym u32 = "32 word"
type_synonym s32 = int
type_synonym s64 = int

abbreviation NUL :: char where "NUL \<equiv> CHR 0x00"
abbreviation LF :: char where "LF \<equiv> CHR 0x0A"
abbreviation CR :: char where "CR \<equiv> CHR 0x0D"
abbreviation DQ :: char where "DQ \<equiv> CHR 0x22"
abbreviation crlf :: string where "crlf \<equiv> [CR, LF]"

named_theorems eval_simps \<open>rules that compute the memory model on concrete arrays\<close>
named_theorems holds_simps \<open>facts about the text an array holds\<close>
named_theorems pred_rules \<open>partial correctness of a computation, branch by branch\<close>

text \<open>The cast of a \<open>char\<close> to an unsigned byte.\<close>

lemma unat_of_char [simp]: "unat (of_char c :: u8) = of_char c"
proof -
  have "(of_char c :: u8) = of_nat (of_char c)" by (rule of_nat_of_char [symmetric])
  then show ?thesis by (simp add: unat_of_nat)
qed

text \<open>Characters given by a number compute to their bits.\<close>

lemma char_of_numeral [eval_simps]:
  "char_of (numeral v :: nat) =
     Char (odd (numeral v :: nat)) (bit (numeral v :: nat) 1) (bit (numeral v :: nat) 2)
       (bit (numeral v :: nat) 3) (bit (numeral v :: nat) 4) (bit (numeral v :: nat) 5)
       (bit (numeral v :: nat) 6) (bit (numeral v :: nat) 7)"
  by (simp add: char_of_def bit_0)

declare bit_0 [eval_simps] numeral_2_eq_2 [symmetric, eval_simps]

lemma if_Some_eq [simp]: "(if b then Some x else None) = Some r \<longleftrightarrow> b \<and> x = r"
  by simp

lemma takeWhile_upto [simp]: "c \<notin> set x \<Longrightarrow> takeWhile (\<lambda>d. d \<noteq> c) (x @ c # y) = x"
  by (induction x) auto

lemma prefix_pad_iff: "NUL \<notin> set x \<Longrightarrow> prefix x (y @ replicate k NUL) \<longleftrightarrow> prefix x y"
proof
  assume n: "NUL \<notin> set x" and p: "prefix x (y @ replicate k NUL)"
  from p consider "prefix x y" | z where "x = y @ z" "prefix z (replicate k NUL)"
    by (auto simp: prefix_append)
  then show "prefix x y"
  proof cases
    case 2
    then have "set z \<subseteq> {NUL}" by (auto dest!: set_mono_prefix split: if_splits)
    with n 2(1) have "z = []" by (cases z) auto
    with 2(1) show ?thesis by simp
  qed
qed (simp add: prefix_append)

lemma prefix_term_iff:
  assumes "NUL \<notin> set x" "NUL \<notin> set y" "0 < k"
  shows "prefix (x @ [NUL]) (y @ replicate k NUL) \<longleftrightarrow> x = y"
proof
  assume "prefix (x @ [NUL]) (y @ replicate k NUL)"
  then obtain z where z: "y @ replicate k NUL = x @ NUL # z" by (auto simp: prefix_def)
  have "takeWhile (\<lambda>c. c \<noteq> NUL) (y @ replicate k NUL) = y"
    using assms(2,3) by (cases k) (auto simp: takeWhile_append)
  moreover have "takeWhile (\<lambda>c. c \<noteq> NUL) (x @ NUL # z) = x"
    using assms(1) by (auto simp: takeWhile_append)
  ultimately show "x = y" using z by simp
next
  assume "x = y"
  with assms(3) show "prefix (x @ [NUL]) (y @ replicate k NUL)"
    by (cases k) (auto simp: prefix_def)
qed

section \<open>Partial correctness\<close>

text \<open>
  \<open>pred_option P m\<close>: if \<open>m\<close> stays within defined behaviour, its result satisfies \<open>P\<close>.  One rule
  per construct the models are written with, so that \<open>intro pred_rules\<close> walks through the
  branches of a function.
\<close>

lemma pred_bind [pred_rules]:
  "(\<And>y. m = Some y \<Longrightarrow> pred_option P (g y)) \<Longrightarrow> pred_option P (Option.bind m g)"
  by (cases m) auto

lemma pred_if [pred_rules]:
  "(b \<Longrightarrow> pred_option P x) \<Longrightarrow> (\<not> b \<Longrightarrow> pred_option P y) \<Longrightarrow> pred_option P (if b then x else y)"
  by simp

lemma pred_case [pred_rules]:
  "(r = None \<Longrightarrow> pred_option P x) \<Longrightarrow> (\<And>a. r = Some a \<Longrightarrow> pred_option P (y a)) \<Longrightarrow>
     pred_option P (case r of None \<Rightarrow> x | Some a \<Rightarrow> y a)"
  by (cases r) auto

lemma pred_prod [pred_rules]:
  "(\<And>a b. r = (a, b) \<Longrightarrow> pred_option P (y a b)) \<Longrightarrow> pred_option P (case r of (a, b) \<Rightarrow> y a b)"
  by (cases r) auto

lemma pred_SomeI [pred_rules]: "P x \<Longrightarrow> pred_option P (Some x)"
  by simp

lemma pred_bindI:
  "pred_option Q m \<Longrightarrow> (\<And>y. Q y \<Longrightarrow> pred_option P (g y)) \<Longrightarrow> pred_option P (Option.bind m g)"
  by (cases m) auto

lemma pred_SomeD: "pred_option P m \<Longrightarrow> m = Some x \<Longrightarrow> P x"
  by simp

section \<open>C byte arrays\<close>

text \<open>
  An array of \<open>cap\<close> bytes.  All arrays of the program start zeroed (\<open>= {0}\<close>, \<open>memset\<close>,
  \<open>calloc\<close>), so only the written front part is stored; every byte behind it, up to the
  capacity, is zero.
\<close>

record cbuf =
  bytes :: "char list"
  cap :: nat

definition zbuf :: "nat \<Rightarrow> cbuf" where
  "zbuf n = \<lparr>bytes = [], cap = n\<rparr>"

definition wf_buf :: "cbuf \<Rightarrow> bool" where
  "wf_buf b \<longleftrightarrow> length (bytes b) \<le> cap b"

definition byte_at :: "cbuf \<Rightarrow> nat \<Rightarrow> char" where
  "byte_at b i = (if i < length (bytes b) then bytes b ! i else NUL)"

definition rd :: "cbuf \<Rightarrow> nat \<Rightarrow> char option" where
  "rd b i = (if i < cap b then Some (byte_at b i) else None)"

declare byte_at_def [eval_simps] rd_def [eval_simps]

definition blk :: "cbuf \<Rightarrow> nat \<Rightarrow> nat \<Rightarrow> char list" where
  "blk b p n = map (byte_at b) [p..<p + n]"

text \<open>Reading \<open>n\<close> bytes at \<open>p\<close> (the source side of a \<open>memcpy\<close>).\<close>

definition rd_n :: "cbuf \<Rightarrow> nat \<Rightarrow> nat \<Rightarrow> char list option" where
  "rd_n b p n = (if p + n \<le> cap b then Some (blk b p n) else None)"

text \<open>Writing bytes at \<open>p\<close> (the target side of a \<open>memcpy\<close>, or a single assignment).\<close>

definition wr :: "cbuf \<Rightarrow> nat \<Rightarrow> char list \<Rightarrow> cbuf option" where
  "wr b p xs =
     (if p + length xs \<le> cap b
      then Some (b\<lparr>bytes := take p (bytes b @ replicate (p - length (bytes b)) NUL) @ xs
                              @ drop (p + length xs) (bytes b)\<rparr>)
      else None)"

text \<open>\<open>holds b p xs\<close>: the array has the bytes \<open>xs\<close> from position \<open>p\<close> on.\<close>

definition holds :: "cbuf \<Rightarrow> nat \<Rightarrow> char list \<Rightarrow> bool" where
  "holds b p xs \<longleftrightarrow> (\<forall>i < length xs. rd b (p + i) = Some (xs ! i))"

text \<open>The C string at \<open>p\<close>: \<open>None\<close> if no byte from \<open>p\<close> to the end of the array is zero.\<close>

definition cstr :: "cbuf \<Rightarrow> nat \<Rightarrow> string option" where
  "cstr b p =
     (let s = takeWhile (\<lambda>c. c \<noteq> NUL) (drop p (bytes b))
      in if p + length s < cap b then Some s else None)"

lemma rd_eq_Some: "rd b i = Some x \<longleftrightarrow> i < cap b \<and> byte_at b i = x"
  by (auto simp: rd_def)

lemma rd_eq_None: "rd b i = None \<longleftrightarrow> cap b \<le> i"
  by (auto simp: rd_def)

lemma cap_zbuf [simp]: "cap (zbuf n) = n" and wf_zbuf [simp]: "wf_buf (zbuf n)"
  by (simp_all add: zbuf_def wf_buf_def)

lemma byte_at_zbuf [simp]: "byte_at (zbuf n) i = NUL"
  by (simp add: byte_at_def zbuf_def)

lemma blk_zbuf [simp]: "blk (zbuf n) p k = replicate k NUL"
  by (rule nth_equalityI) (simp_all add: blk_def)

lemma length_blk [simp]: "length (blk b p n) = n"
  by (simp add: blk_def)

lemma nth_blk [simp]: "i < n \<Longrightarrow> blk b p n ! i = byte_at b (p + i)"
  by (simp add: blk_def)

lemma blk_0 [simp]: "blk b p 0 = []"
  by (simp add: blk_def)

lemma blk_Suc: "blk b p (Suc n) = byte_at b p # blk b (Suc p) n"
  by (simp add: blk_def upt_conv_Cons del: upt_Suc)

lemma blk_numeral [eval_simps]:
  "blk b p (numeral v) = byte_at b p # blk b (Suc p) (pred_numeral v)"
  by (simp add: numeral_eq_Suc blk_Suc)

lemma blk_1 [eval_simps]: "blk b p (Suc 0) = [byte_at b p]"
  by (simp add: blk_Suc)

lemma blk_add: "blk b p (m + n) = blk b p m @ blk b (p + m) n"
  by (rule nth_equalityI) (auto simp: nth_append add.assoc)

lemma wr_SomeD:
  assumes "wr b p xs = Some b'"
  shows "p + length xs \<le> cap b" and "cap b' = cap b"
    and "byte_at b' i = (if p \<le> i \<and> i < p + length xs then xs ! (i - p) else byte_at b i)"
  using assms
  by (auto simp: wr_def byte_at_def nth_append min_def less_diff_conv split: if_splits)

lemma wr_wf: "wr b p xs = Some b' \<Longrightarrow> wf_buf b \<Longrightarrow> wf_buf b'"
  by (auto simp: wr_def wf_buf_def min_def split: if_splits)

lemma wr_defined: "(\<exists>b'. wr b p xs = Some b') \<longleftrightarrow> p + length xs \<le> cap b"
  by (simp add: wr_def)

lemma wr_eq_None: "wr b p xs = None \<longleftrightarrow> cap b < p + length xs"
  by (auto simp: wr_def)

text \<open>
  Two adjacent writes are one: the \<open>memcpy\<close> of a string followed by the store of its
  terminator, everywhere in the program, is one write of the terminated string.
\<close>

lemma wr_append:
  "Option.bind (wr b p xs) (\<lambda>b'. wr b' (p + length xs) ys) = wr b p (xs @ ys)"
  by (auto simp: wr_def min_def drop_drop add_ac intro!: arg_cong [where f = "\<lambda>l. b\<lparr>bytes := l\<rparr>"])

lemma wr_append_Some:
  "wr b p xs = Some b' \<Longrightarrow> wr b' (p + length xs) ys = wr b p (xs @ ys)"
  using wr_append [of b p xs ys] by simp

lemma wr_bind_append:
  "q = p + length xs \<Longrightarrow>
     Option.bind (wr b p xs) (\<lambda>b'. Option.bind (wr b' q ys) f) = Option.bind (wr b p (xs @ ys)) f"
  using wr_append [of b p xs ys] by (simp flip: Option.bind_assoc)

lemma wr_Cons: "Option.bind (wr b p [c]) (\<lambda>b'. wr b' (Suc p) t) = wr b p (c # t)"
  using wr_append [of b p "[c]" t] by simp

text \<open>A write hides an earlier, shorter one at the same place.\<close>

lemma wr_overwrite:
  assumes "length xs \<le> length ys"
  shows "Option.bind (wr b p xs) (\<lambda>b'. wr b' p ys) = wr b p ys"
proof (cases "p + length ys \<le> cap b")
  case True
  with assms have "p + length xs \<le> cap b" by simp
  with True assms show ?thesis by (simp add: wr_def min_def drop_drop add_ac)
next
  case False
  then show ?thesis by (auto simp: wr_def)
qed

subsection \<open>The text an array holds\<close>

lemma holds_Nil [simp]: "holds b p []"
  by (simp add: holds_def)

lemma holds_append: "holds b p (xs @ ys) \<longleftrightarrow> holds b p xs \<and> holds b (p + length xs) ys"
proof
  assume h: "holds b p (xs @ ys)"
  have "rd b (p + i) = Some (xs ! i)" if "i < length xs" for i
    using h that by (simp add: holds_def nth_append)
  moreover have "rd b (p + length xs + i) = Some (ys ! i)" if "i < length ys" for i
    using h that unfolding holds_def by (auto dest: spec [of _ "length xs + i"] simp: add.assoc)
  ultimately show "holds b p xs \<and> holds b (p + length xs) ys"
    by (simp add: holds_def)
next
  assume h: "holds b p xs \<and> holds b (p + length xs) ys"
  have "rd b (p + i) = Some ((xs @ ys) ! i)" if "i < length (xs @ ys)" for i
  proof (cases "i < length xs")
    case True
    with h show ?thesis by (simp add: holds_def nth_append)
  next
    case False
    with that have "i - length xs < length ys" by simp
    with h have "rd b (p + length xs + (i - length xs)) = Some (ys ! (i - length xs))"
      by (simp add: holds_def)
    with False show ?thesis by (simp add: nth_append)
  qed
  then show "holds b p (xs @ ys)" by (simp add: holds_def)
qed

lemma holds_Cons: "holds b p (x # xs) \<longleftrightarrow> rd b p = Some x \<and> holds b (Suc p) xs"
  using holds_append [of b p "[x]" xs] by (simp add: holds_def)

lemma holds_drop: "holds b p xs \<Longrightarrow> i \<le> length xs \<Longrightarrow> holds b (p + i) (drop i xs)"
  using holds_append [of b p "take i xs" "drop i xs"] by simp

lemma holds_le_cap: "holds b p xs \<Longrightarrow> xs \<noteq> [] \<Longrightarrow> p + length xs \<le> cap b"
  by (cases xs rule: rev_cases) (auto simp: holds_append holds_Cons rd_eq_Some)

lemma holds_blk: "holds b p xs \<Longrightarrow> n \<le> length xs \<Longrightarrow> blk b p n = take n xs"
  by (rule nth_equalityI) (auto simp: holds_def rd_eq_Some)

lemma holds_rd_n: "holds b p xs \<Longrightarrow> xs \<noteq> [] \<Longrightarrow> n \<le> length xs \<Longrightarrow> rd_n b p n = Some (take n xs)"
  using holds_le_cap [of b p xs] by (simp add: rd_n_def holds_blk)

lemma holds_of_blk: "p + n \<le> cap b \<Longrightarrow> holds b p (blk b p n)"
  by (simp add: holds_def rd_def)

lemma holds_wr: "wr b p xs = Some b' \<Longrightarrow> holds b' p xs"
  using wr_SomeD [of b p xs b'] by (auto simp: holds_def rd_def)

lemma holds_wr_other:
  assumes w: "wr b p xs = Some b'" and h: "holds b q ys"
    and d: "q + length ys \<le> p \<or> p + length xs \<le> q"
  shows "holds b' q ys"
proof -
  have "rd b' (q + i) = Some (ys ! i)" if "i < length ys" for i
  proof -
    have "\<not> (p \<le> q + i \<and> q + i < p + length xs)" using d that by linarith
    moreover have "rd b (q + i) = Some (ys ! i)" using h that by (simp add: holds_def)
    ultimately show ?thesis
      using wr_SomeD(2,3) [OF w] by (auto simp: rd_eq_Some)
  qed
  then show ?thesis by (simp add: holds_def)
qed

lemma holds_bytes: "wf_buf b \<Longrightarrow> holds b 0 (bytes b)"
  by (simp add: holds_def rd_def wf_buf_def byte_at_def)

lemma holds_pad: "length xs + k \<le> n \<Longrightarrow> holds \<lparr>bytes = xs, cap = n\<rparr> 0 (xs @ replicate k NUL)"
  by (auto simp: holds_def rd_def byte_at_def nth_append)

lemma cstr_iff:
  assumes "wf_buf b"
  shows "cstr b p = Some s \<longleftrightarrow> NUL \<notin> set s \<and> holds b p (s @ [NUL])"
proof
  let ?t = "takeWhile (\<lambda>c. c \<noteq> NUL) (drop p (bytes b))"
  assume "cstr b p = Some s"
  then have s: "s = ?t" and lt: "p + length s < cap b"
    by (auto simp: cstr_def Let_def split: if_splits)
  have "NUL \<notin> set s" using s by (auto dest: set_takeWhileD)
  moreover have rds: "rd b (p + i) = Some (s ! i)" if "i < length s" for i
  proof -
    have i: "i < length ?t" using that s by simp
    then have "i < length (drop p (bytes b))"
      using length_takeWhile_le [of "\<lambda>c. c \<noteq> NUL" "drop p (bytes b)"] by linarith
    moreover from this i have "?t ! i = bytes b ! (p + i)"
      by (simp add: takeWhile_nth)
    ultimately show ?thesis using s lt that by (simp add: rd_def byte_at_def less_diff_conv add.commute)
  qed
  moreover have "byte_at b (p + length s) = NUL"
  proof (cases "length ?t < length (drop p (bytes b))")
    case True
    then have "drop p (bytes b) ! length ?t = NUL"
      using nth_length_takeWhile by fastforce
    with True s show ?thesis by (simp add: byte_at_def)
  next
    case False
    with s show ?thesis by (auto simp: byte_at_def)
  qed
  moreover have "holds b p s" using rds by (simp add: holds_def)
  ultimately show "NUL \<notin> set s \<and> holds b p (s @ [NUL])"
    using lt by (simp add: holds_append holds_Cons rd_def)
next
  let ?t = "takeWhile (\<lambda>c. c \<noteq> NUL) (drop p (bytes b))"
  assume h: "NUL \<notin> set s \<and> holds b p (s @ [NUL])"
  then have lt: "p + length s < cap b" and z: "byte_at b (p + length s) = NUL"
    and hs: "holds b p s"
    by (simp_all add: holds_append holds_Cons rd_eq_Some)
  from hs have c: "\<And>i. i < length s \<Longrightarrow> byte_at b (p + i) = s ! i"
    by (simp add: holds_def rd_eq_Some)
  have nz: "byte_at b (p + i) \<noteq> NUL" if "i < length s" for i
    using h c [OF that] nth_mem [OF that] by metis
  have le: "length s \<le> length (bytes b) - p"
  proof (rule ccontr)
    assume "\<not> ?thesis"
    then have "length (bytes b) - p < length s" by simp
    from nz [OF this] show False by (simp add: byte_at_def split: if_splits)
  qed
  have "bytes b ! (p + i) = s ! i" if "i < length s" for i
  proof -
    have "p + i < length (bytes b)" using le that by linarith
    with c [OF that] show ?thesis by (simp add: byte_at_def)
  qed
  then have tk: "take (length s) (drop p (bytes b)) = s"
    using le by (intro nth_equalityI) auto
  have "takeWhile (\<lambda>c. c \<noteq> NUL) (drop (length s) (drop p (bytes b))) = []"
  proof (cases "p + length s < length (bytes b)")
    case True
    with z have "hd (drop (p + length s) (bytes b)) = NUL"
      by (simp add: byte_at_def hd_drop_conv_nth)
    with True show ?thesis
      by (cases "drop (p + length s) (bytes b)") (auto simp: add.commute)
  qed simp
  moreover have "takeWhile (\<lambda>c. c \<noteq> NUL) s = s" using h by (auto simp: takeWhile_eq_all_conv)
  ultimately have "?t = s"
    using takeWhile_append2 [of s "\<lambda>c. c \<noteq> NUL" "drop (length s) (drop p (bytes b))"] h
      append_take_drop_id [of "length s" "drop p (bytes b)"] tk
    by (metis append_Nil2)
  with lt show "cstr b p = Some s" by (simp add: cstr_def)
qed

lemma cstr_wr:
  assumes "wf_buf b" "wr b p (s @ [NUL]) = Some b'" "NUL \<notin> set s"
  shows "cstr b' p = Some s"
  using assms holds_wr [of b p "s @ [NUL]" b'] wr_wf [of b p "s @ [NUL]" b']
  by (simp add: cstr_iff)

lemma cstr_bytes:
  assumes "NUL \<notin> set s" "length s < n" shows "cstr \<lparr>bytes = s, cap = n\<rparr> 0 = Some s"
proof -
  have "takeWhile (\<lambda>c. c \<noteq> NUL) s = s"
    by (rule takeWhile_eq_all_conv [THEN iffD2]) (use assms(1) in auto)
  then have "cstr \<lparr>bytes = s, cap = n\<rparr> 0 = (if 0 + length s < n then Some s else None)"
    unfolding cstr_def Let_def by (simp only: drop_0 cbuf.simps)
  with assms(2) show ?thesis by simp
qed

lemma cstr_zbuf [simp]: "0 < n \<Longrightarrow> cstr (zbuf n) p = (if p < n then Some [] else None)"
  by (simp add: cstr_def zbuf_def)

text \<open>A zeroed array after one write at its start.\<close>

lemma holds_zbuf_wr:
  assumes "wr (zbuf n) 0 xs = Some b"
  shows "holds b 0 (xs @ replicate (n - length xs) NUL)" and "wf_buf b" and "cap b = n"
proof -
  note w = wr_SomeD [OF assms]
  have "rd b i = Some ((xs @ replicate (n - length xs) NUL) ! i)" if "i < n" for i
    using that w(1,2) w(3) [of i] by (auto simp: rd_def nth_append)
  then show "holds b 0 (xs @ replicate (n - length xs) NUL)"
    using w(1) by (simp add: holds_def)
  show "cap b = n" using w(2) by simp
  show "wf_buf b" using wr_wf [OF assms] by simp
qed

end
