(* ===== verification/CLib.thy ===== *)
theory CLib
  imports Prelude
begin

text \<open>
  The functions of the C library the server calls on byte arrays: \<open>memchr\<close>, \<open>memrchr\<close>,
  \<open>memcmp\<close>, \<open>memmem\<close>, \<open>strnlen\<close>, \<open>strncasecmp\<close>, \<open>tolower\<close>, \<open>strtol\<close>.  \<open>memchr\<close> and \<open>strnlen\<close>
  read one byte after the other and stop at the one they look for; \<open>memcmp\<close> and \<open>memmem\<close>
  require their whole range to lie inside the array.  Reading past the array is \<open>None\<close>.
\<close>

section \<open>Scanning for a byte\<close>

primrec memchr :: "cbuf \<Rightarrow> nat \<Rightarrow> char \<Rightarrow> nat \<Rightarrow> nat option option" where
  "memchr b p c 0 = Some None"
| "memchr b p c (Suc n) =
     do { x \<leftarrow> rd b p; if x = c then Some (Some p) else memchr b (Suc p) c n }"

primrec memrchr :: "cbuf \<Rightarrow> nat \<Rightarrow> char \<Rightarrow> nat \<Rightarrow> nat option option" where
  "memrchr b p c 0 = Some None"
| "memrchr b p c (Suc n) =
     do { x \<leftarrow> rd b (p + n); if x = c then Some (Some (p + n)) else memrchr b p c n }"

primrec strnlen :: "cbuf \<Rightarrow> nat \<Rightarrow> nat \<Rightarrow> nat option" where
  "strnlen b p 0 = Some 0"
| "strnlen b p (Suc n) =
     do { x \<leftarrow> rd b p; if x = NUL then Some 0 else map_option Suc (strnlen b (Suc p) n) }"

lemma memchr_numeral [eval_simps]:
  "memchr b p c (numeral v) =
     do { x \<leftarrow> rd b p; if x = c then Some (Some p) else memchr b (Suc p) c (pred_numeral v) }"
  by (simp add: numeral_eq_Suc)

lemma memrchr_numeral [eval_simps]:
  "memrchr b p c (numeral v) =
     do { x \<leftarrow> rd b (p + pred_numeral v);
          if x = c then Some (Some (p + pred_numeral v)) else memrchr b p c (pred_numeral v) }"
  by (simp add: numeral_eq_Suc)

lemma strnlen_numeral [eval_simps]:
  "strnlen b p (numeral v) =
     do { x \<leftarrow> rd b p;
          if x = NUL then Some 0 else map_option Suc (strnlen b (Suc p) (pred_numeral v)) }"
  by (simp add: numeral_eq_Suc)

lemma memchr_SomeD:
  assumes "memchr b p c n = Some (Some q)"
  shows "p \<le> q" and "q < p + n" and "q < cap b" and "byte_at b q = c"
    and "p \<le> i \<Longrightarrow> i < q \<Longrightarrow> byte_at b i \<noteq> c"
proof -
  have "p \<le> q \<and> q < p + n \<and> rd b q = Some c \<and> (\<forall>i. p \<le> i \<and> i < q \<longrightarrow> byte_at b i \<noteq> c)"
    using assms
  proof (induction n arbitrary: p)
    case (Suc n)
    then obtain x where x: "rd b p = Some x" by (auto simp: Option.bind_eq_Some_conv)
    show ?case
    proof (cases "x = c")
      case True
      with Suc.prems x show ?thesis by auto
    next
      case False
      with Suc.prems x have "memchr b (Suc p) c n = Some (Some q)" by simp
      from Suc.IH [OF this] x False show ?thesis
        by (auto simp: rd_eq_Some) (metis le_eq_less_or_eq Suc_leI)
    qed
  qed simp
  then show "p \<le> q" "q < p + n" "q < cap b" "byte_at b q = c"
    "p \<le> i \<Longrightarrow> i < q \<Longrightarrow> byte_at b i \<noteq> c"
    by (auto simp: rd_eq_Some)
qed

lemma memchr_NoneD:
  "memchr b p c n = Some None \<Longrightarrow> p \<le> i \<Longrightarrow> i < p + n \<Longrightarrow> i < cap b \<and> byte_at b i \<noteq> c"
proof (induction n arbitrary: p)
  case (Suc n)
  then obtain x where x: "rd b p = Some x" "x \<noteq> c" "memchr b (Suc p) c n = Some None"
    by (auto simp: Option.bind_eq_Some_conv split: if_splits)
  then show ?case
    using Suc.IH [OF x(3)] Suc.prems(2,3) by (cases "i = p") (auto simp: rd_eq_Some)
qed simp

text \<open>The first occurrence decides: this is how a scan over known text is computed.\<close>

lemma memchr_holds [holds_simps]:
  "holds b p (xs @ c # ys) \<Longrightarrow> c \<notin> set xs \<Longrightarrow> length xs < n \<Longrightarrow>
     memchr b p c n = Some (Some (p + length xs))"
proof (induction xs arbitrary: p n)
  case Nil
  then show ?case by (cases n) (simp_all add: holds_Cons)
next
  case (Cons x xs)
  then show ?case by (cases n) (auto simp: holds_Cons)
qed

lemma memchr_holds_None:
  "holds b p xs \<Longrightarrow> c \<notin> set xs \<Longrightarrow> n \<le> length xs \<Longrightarrow> memchr b p c n = Some None"
proof (induction xs arbitrary: p n)
  case (Cons x xs)
  then show ?case by (cases n) (auto simp: holds_Cons)
qed simp

lemma memchr_defined: "p + n \<le> cap b \<Longrightarrow> \<exists>r. memchr b p c n = Some r"
  by (induction n arbitrary: p) (auto simp: rd_def)

lemma memchr_at_blk:
  assumes "memchr b p c n = Some (Some q)"
  shows "holds b p (blk b p (q - p) @ [c])" and "c \<notin> set (blk b p (q - p))"
proof -
  note m = memchr_SomeD [OF assms]
  show "holds b p (blk b p (q - p) @ [c])"
    using m(1,3,4) by (simp add: holds_append holds_Cons holds_of_blk rd_def)
  show "c \<notin> set (blk b p (q - p))"
    using m(5) by (force simp: blk_def)
qed

lemma memrchr_holds:
  "holds b p (xs @ c # ys) \<Longrightarrow> c \<notin> set ys \<Longrightarrow> n = length xs + Suc (length ys) \<Longrightarrow>
     memrchr b p c n = Some (Some (p + length xs))"
proof (induction ys arbitrary: n rule: rev_induct)
  case Nil
  then show ?case by (simp add: holds_append holds_Cons)
next
  case (snoc y ys)
  then show ?case
    using holds_append [of b p "xs @ c # ys" "[y]"] by (auto simp: holds_Cons)
qed

lemma memrchr_holds_None:
  "holds b p xs \<Longrightarrow> c \<notin> set xs \<Longrightarrow> memrchr b p c (length xs) = Some None"
  by (induction xs rule: rev_induct) (auto simp: holds_append holds_Cons)

lemma strnlen_holds:
  "holds b p (s @ [NUL]) \<Longrightarrow> NUL \<notin> set s \<Longrightarrow> strnlen b p n = Some (min n (length s))"
proof (induction s arbitrary: p n)
  case Nil
  then show ?case by (cases n) (simp_all add: holds_Cons)
next
  case (Cons x s)
  then show ?case by (cases n) (auto simp: holds_Cons)
qed

lemma strnlen_cstr: "wf_buf b \<Longrightarrow> cstr b p = Some s \<Longrightarrow> strnlen b p n = Some (min n (length s))"
  by (simp add: cstr_iff strnlen_holds)

section \<open>Comparing and searching blocks\<close>

text \<open>\<open>memcmp(b + p, ys, |ys|) == 0\<close>.\<close>

definition mem_eq :: "cbuf \<Rightarrow> nat \<Rightarrow> char list \<Rightarrow> bool option" where
  "mem_eq b p ys = map_option (\<lambda>xs. xs = ys) (rd_n b p (length ys))"

lemma mem_eq_True: "mem_eq b p ys = Some True \<longleftrightarrow> p + length ys \<le> cap b \<and> blk b p (length ys) = ys"
  by (auto simp: mem_eq_def rd_n_def)

lemma mem_eq_holds:
  assumes "holds b p xs" "xs \<noteq> []" "length ys \<le> length xs"
  shows "mem_eq b p ys = Some (prefix ys xs)"
proof -
  have "(take (length ys) xs = ys) = prefix ys xs"
    by (metis append_eq_conv_conj prefix_def)
  with holds_rd_n [OF assms] show ?thesis by (simp add: mem_eq_def)
qed

lemma mem_eq_defined: "p + length ys \<le> cap b \<Longrightarrow> \<exists>r. mem_eq b p ys = Some r"
  by (simp add: mem_eq_def rd_n_def)

text \<open>\<open>memmem\<close>: the first of the \<open>k\<close> positions from \<open>p\<close> on where the needle stands.\<close>

primrec scan_mem :: "cbuf \<Rightarrow> nat \<Rightarrow> char list \<Rightarrow> nat \<Rightarrow> nat option" where
  "scan_mem b p nd 0 = None"
| "scan_mem b p nd (Suc k) =
     (if blk b p (length nd) = nd then Some p else scan_mem b (Suc p) nd k)"

definition memmem :: "cbuf \<Rightarrow> nat \<Rightarrow> nat \<Rightarrow> char list \<Rightarrow> nat option option" where
  "memmem b p n nd =
     (if p + n \<le> cap b
      then Some (if n < length nd then None else scan_mem b p nd (Suc (n - length nd)))
      else None)"

lemma scan_mem_numeral [eval_simps]:
  "scan_mem b p nd (numeral v) =
     (if blk b p (length nd) = nd then Some p else scan_mem b (Suc p) nd (pred_numeral v))"
  by (simp add: numeral_eq_Suc)

lemma scan_mem_SomeD:
  "scan_mem b p nd k = Some q \<Longrightarrow>
     p \<le> q \<and> q < p + k \<and> blk b q (length nd) = nd \<and>
     (\<forall>i. p \<le> i \<and> i < q \<longrightarrow> blk b i (length nd) \<noteq> nd)"
proof (induction k arbitrary: p)
  case (Suc k)
  show ?case
  proof (cases "blk b p (length nd) = nd")
    case True
    with Suc.prems show ?thesis by auto
  next
    case False
    with Suc.prems have "scan_mem b (Suc p) nd k = Some q" by simp
    from Suc.IH [OF this] False show ?thesis
      by auto (metis le_eq_less_or_eq Suc_leI)
  qed
qed simp

lemma scan_mem_NoneD:
  "scan_mem b p nd k = None \<Longrightarrow> p \<le> i \<Longrightarrow> i < p + k \<Longrightarrow> blk b i (length nd) \<noteq> nd"
proof (induction k arbitrary: p)
  case (Suc k)
  then show ?case by (cases "i = p") (auto split: if_splits)
qed simp

lemma memmem_SomeD:
  assumes "memmem b p n nd = Some (Some q)"
  shows "p \<le> q" and "q + length nd \<le> p + n" and "p + n \<le> cap b"
    and "blk b q (length nd) = nd"
    and "p \<le> i \<Longrightarrow> i < q \<Longrightarrow> blk b i (length nd) \<noteq> nd"
proof -
  from assms have c: "p + n \<le> cap b" "length nd \<le> n"
    and s: "scan_mem b p nd (Suc (n - length nd)) = Some q"
    by (simp_all add: memmem_def split: if_split_asm)
  note f = scan_mem_SomeD [OF s]
  show "p \<le> q" "p + n \<le> cap b" using f c by blast+
  show "q + length nd \<le> p + n" using f c by linarith
  show "blk b q (length nd) = nd" using f by blast
  show "blk b i (length nd) \<noteq> nd" if "p \<le> i" "i < q" using f that by blast
qed

text \<open>The first occurrence of a text in a text: what \<open>memmem\<close> finds in an array that holds it.\<close>

fun find_sub :: "string \<Rightarrow> string \<Rightarrow> nat option" where
  "find_sub x [] = (if x = [] then Some 0 else None)"
| "find_sub x (c # s) = (if prefix x (c # s) then Some 0 else map_option Suc (find_sub x s))"

lemma find_sub_SomeD: "find_sub x s = Some i \<Longrightarrow> \<exists>y z. s = y @ x @ z \<and> length y = i"
proof (induction s arbitrary: i)
  case (Cons c s)
  show ?case
  proof (cases "prefix x (c # s)")
    case True
    with Cons.prems show ?thesis by (auto simp: prefix_def)
  next
    case False
    with Cons.prems obtain j where "find_sub x s = Some j" "i = Suc j" by auto
    with Cons.IH obtain y z where "s = y @ x @ z" "length y = j" by blast
    with \<open>i = Suc j\<close> show ?thesis by (intro exI [of _ "c # y"] exI [of _ z]) simp
  qed
qed (auto split: if_splits)

lemma find_sub_0: "find_sub x s = Some 0 \<longleftrightarrow> prefix x s"
  by (cases s) auto

lemma scan_mem_is:
  assumes "nd \<noteq> []" "NUL \<notin> set nd"
  shows "holds b p (t @ replicate z NUL) \<Longrightarrow> k + length nd = Suc (length t + z) \<Longrightarrow>
     scan_mem b p nd k = map_option ((+) p) (find_sub nd t)"
proof (induction k arbitrary: p t z)
  case 0
  then have "length t < length nd" by simp
  then have "find_sub nd t = None"
    by (cases "find_sub nd t") (auto dest!: find_sub_SomeD)
  then show ?case by simp
next
  case (Suc k)
  have "length nd \<le> length (t @ replicate z NUL)" using Suc.prems(2) by simp
  with holds_blk [OF Suc.prems(1) this] have at: "blk b p (length nd) = nd \<longleftrightarrow> prefix nd t"
    using prefix_pad_iff [OF assms(2), of t z] by (metis append_eq_conv_conj prefix_def)
  show ?case
  proof (cases t)
    case Nil
    obtain z' where z: "z = Suc z'" using Suc.prems(2) assms(1) Nil by (cases z; cases nd) auto
    have "scan_mem b (Suc p) nd k = map_option ((+) (Suc p)) (find_sub nd [])"
      by (rule Suc.IH [of _ _ z']) (use Suc.prems z Nil in \<open>auto simp: holds_Cons\<close>)
    then show ?thesis using at Nil assms(1) by simp
  next
    case (Cons c t')
    have "scan_mem b (Suc p) nd k = map_option ((+) (Suc p)) (find_sub nd t')"
      by (rule Suc.IH [of _ _ z]) (use Suc.prems Cons in \<open>auto simp: holds_Cons\<close>)
    then show ?thesis using at Cons by (cases "find_sub nd t'") simp_all
  qed
qed

lemma memmem_holds:
  assumes "nd \<noteq> []" "NUL \<notin> set nd" "holds b p s" "p + length s \<le> cap b"
  shows "memmem b p (length s) nd = Some (map_option ((+) p) (find_sub nd s))"
proof (cases "length s < length nd")
  case True
  then have "find_sub nd s = None" by (cases "find_sub nd s") (auto dest!: find_sub_SomeD)
  with True assms(4) show ?thesis by (simp add: memmem_def)
next
  case False
  then show ?thesis
    using scan_mem_is [OF assms(1,2), of b p s 0 "Suc (length s - length nd)"] assms(3,4)
    by (simp add: memmem_def del: scan_mem.simps)
qed

lemma first_byte:
  assumes "holds b p (v @ rest)" "c \<in> set (take n v)"
  shows "memchr b p c n = Some (Some (p + length (takeWhile (\<lambda>d. d \<noteq> c) v)))"
    and "rd_n b p (length (takeWhile (\<lambda>d. d \<noteq> c) v)) = Some (takeWhile (\<lambda>d. d \<noteq> c) v)"
proof -
  obtain x y where xy: "take n v = x @ c # y" "c \<notin> set x" using assms(2) by (meson split_list_first)
  then have v: "v = x @ c # (y @ drop n v)" using append_take_drop_id [of n v] by auto
  have "length (x @ c # y) \<le> n" by (metis xy(1) length_take min.cobounded2)
  then have x: "length x < n" by simp
  have tw: "takeWhile (\<lambda>d. d \<noteq> c) v = x" using xy(2) by (subst v) simp
  have "holds b p (x @ c # (y @ drop n v @ rest))" using assms(1) v by (metis append_Cons append_assoc)
  from memchr_holds [OF this xy(2) x] holds_rd_n [OF this, of "length x"]
  show "memchr b p c n = Some (Some (p + length (takeWhile (\<lambda>d. d \<noteq> c) v)))"
    "rd_n b p (length (takeWhile (\<lambda>d. d \<noteq> c) v)) = Some (takeWhile (\<lambda>d. d \<noteq> c) v)"
    unfolding tw by simp_all
qed

section \<open>Characters\<close>

text \<open>\<open>tolower\<close> and \<open>isspace\<close> in the C locale (the program never calls \<open>setlocale\<close>).\<close>

definition tolower :: "char \<Rightarrow> char" where
  "tolower c =
     (let k = (of_char c :: nat) in if 65 \<le> k \<and> k \<le> 90 then char_of (k + 32) else c)"

definition isspace :: "char \<Rightarrow> bool" where
  "isspace c \<longleftrightarrow> c \<in> {CHR '' '', CHR 0x09, LF, CHR 0x0B, CHR 0x0C, CR}"

definition isdigit :: "char \<Rightarrow> bool" where
  "isdigit c \<longleftrightarrow> 48 \<le> (of_char c :: nat) \<and> (of_char c :: nat) \<le> 57"

lemma of_char_char_of [simp]: "k < 256 \<Longrightarrow> of_char (char_of k :: char) = (k :: nat)"
  by (simp add: of_char_of)

lemma tolower_cases:
  "(of_char c :: nat) \<in> {65..90} \<and> (of_char (tolower c) :: nat) = of_char c + 32
   \<or> (of_char c :: nat) \<notin> {65..90} \<and> tolower c = c"
  by (simp add: tolower_def Let_def)

lemma tolower_eq_iff:
  assumes "(of_char d :: nat) \<notin> {97..122}" and "(of_char d :: nat) \<notin> {65..90}"
  shows "tolower c = d \<longleftrightarrow> c = d"
proof
  assume h: "tolower c = d"
  show "c = d"
  proof (cases "(of_char c :: nat) \<in> {65..90}")
    case True
    with h tolower_cases [of c] have "(of_char d :: nat) = of_char c + 32" by blast
    with True assms(1) show ?thesis by simp
  next
    case False
    with h tolower_cases [of c] show ?thesis by auto
  qed
next
  assume "c = d"
  with assms(2) tolower_cases [of c] show "tolower c = d" by auto
qed

lemma tolower_NUL [simp]: "tolower c = NUL \<longleftrightarrow> c = NUL"
  by (rule tolower_eq_iff) simp_all

lemma tolower_CR [simp]: "tolower c = CR \<longleftrightarrow> c = CR"
  by (rule tolower_eq_iff) simp_all

lemma tolower_LF [simp]: "tolower c = LF \<longleftrightarrow> c = LF"
  by (rule tolower_eq_iff) simp_all

text \<open>\<open>strncasecmp(b + p, ys, |ys|) == 0\<close> for a \<open>ys\<close> without zero bytes: stops at a difference.\<close>

primrec strncase_eq :: "cbuf \<Rightarrow> nat \<Rightarrow> char list \<Rightarrow> bool option" where
  "strncase_eq b p [] = Some True"
| "strncase_eq b p (y # ys) =
     do { x \<leftarrow> rd b p; if tolower x = tolower y then strncase_eq b (Suc p) ys else Some False }"

section \<open>Decimal numbers\<close>

fun dec :: "nat \<Rightarrow> string" where
  "dec n = (if n < 10 then [char_of (48 + n)] else dec (n div 10) @ [char_of (48 + n mod 10)])"

declare dec.simps [simp del]
lemmas dec_eval [eval_simps] = dec.simps

definition dec_int :: "int \<Rightarrow> string" where
  "dec_int i = (if i < 0 then CHR ''-'' # dec (nat (- i)) else dec (nat i))"

text \<open>
  \<open>strtol(p, &end, 10)\<close> on the bytes from \<open>p\<close> on: white space, a sign, digits, the value clamped
  to the range of \<open>long\<close>.  The result is the value, the bytes up to \<open>end\<close> (0 when there are no
  digits) and the bytes read, which include the one that stops the scan.
\<close>

fun digits_val :: "nat \<Rightarrow> char list \<Rightarrow> nat" where
  "digits_val acc [] = acc"
| "digits_val acc (c # cs) = digits_val (10 * acc + (of_char c - 48)) cs"

definition clamp_long :: "int \<Rightarrow> int" where
  "clamp_long i = max (- (2 ^ 63)) (min (2 ^ 63 - 1) i)"

definition strtol10 :: "char list \<Rightarrow> int \<times> nat \<times> nat" where
  "strtol10 s =
     (let w = takeWhile isspace s; s1 = drop (length w) s;
          sg = (case s1 of c # _ \<Rightarrow> if c = CHR ''-'' \<or> c = CHR ''+'' then 1 else 0 | [] \<Rightarrow> 0);
          neg = (sg = 1 \<and> hd s1 = CHR ''-'');
          ds = takeWhile isdigit (drop sg s1); v = int (digits_val 0 ds);
          n = length w + sg + length ds
      in (clamp_long (if neg then - v else v), if ds = [] then 0 else n, Suc n))"

definition strtol :: "cbuf \<Rightarrow> nat \<Rightarrow> (int \<times> nat) option" where
  "strtol b p =
     (let (v, n, r) = strtol10 (drop p (bytes b))
      in if p + r \<le> cap b then Some (v, p + n) else None)"

lemma isdigit_char_of [simp]: "n < 10 \<Longrightarrow> isdigit (char_of (48 + n :: nat))"
  by (simp add: isdigit_def)

lemma dec_isdigit: "c \<in> set (dec n) \<Longrightarrow> isdigit c"
proof (induction n rule: dec.induct)
  case (1 n)
  show ?case
  proof (cases "n < 10")
    case True
    with 1 show ?thesis by (simp add: dec.simps [of n])
  next
    case False
    with 1 show ?thesis by (auto simp: dec.simps [of n])
  qed
qed

lemma dec_not_Nil [simp]: "dec n \<noteq> []"
  by (simp add: dec.simps [of n])

lemma digits_val_append: "digits_val acc (xs @ ys) = digits_val (digits_val acc xs) ys"
  by (induction acc xs rule: digits_val.induct) simp_all

lemma digits_val_dec: "digits_val 0 (dec n) = n"
proof (induction n rule: dec.induct)
  case (1 n)
  show ?case
  proof (cases "n < 10")
    case True
    then show ?thesis by (simp add: dec.simps [of n])
  next
    case False
    with 1 show ?thesis by (simp add: dec.simps [of n] digits_val_append)
  qed
qed

lemma isdigit_not_space: "isdigit c \<Longrightarrow> \<not> isspace c \<and> c \<noteq> CHR ''-'' \<and> c \<noteq> CHR ''+''"
  by (auto simp: isdigit_def isspace_def)

text \<open>What \<open>snprintf\<close> prints for a number, \<open>strtol\<close> reads back, up to the first other byte.\<close>

lemma strtol10_dec:
  assumes "int n < 2 ^ 63" and "\<not> isdigit c"
  shows "strtol10 (dec n @ c # rest) = (int n, length (dec n), Suc (length (dec n)))"
proof -
  obtain d ds where d: "dec n = d # ds" by (cases "dec n") auto
  have dd: "isdigit d" using dec_isdigit [of d n] d by simp
  have tw: "takeWhile isdigit (dec n @ c # rest) = dec n"
    using dec_isdigit assms(2) by (auto simp: takeWhile_append)
  have "takeWhile isspace (dec n @ c # rest) = []"
    using isdigit_not_space [OF dd] d by simp
  then show ?thesis
    using isdigit_not_space [OF dd] d tw assms(1) digits_val_dec [of n]
    by (simp add: strtol10_def Let_def clamp_long_def)
qed

lemma length_dec_bound: "n < 10 ^ k \<Longrightarrow> 0 < k \<Longrightarrow> length (dec n) \<le> k"
proof (induction n arbitrary: k rule: dec.induct)
  case (1 n)
  show ?case
  proof (cases "n < 10")
    case True
    with 1 show ?thesis by (simp add: dec.simps [of n])
  next
    case False
    with 1(2,3) obtain j where k: "k = Suc j" "0 < j"
      by (cases k) (auto, metis One_nat_def not_gr_zero power_0 mult.right_neutral)
    with 1(2) have "n div 10 < 10 ^ j" by (simp add: less_mult_imp_div_less mult.commute)
    with 1(1) [OF False _ k(2)] k show ?thesis
      by (simp add: dec.simps [of n] False)
  qed
qed

end
