(* ===== verification/Types.thy ===== *)
theory Types
  imports CLib
begin

text \<open>
  The structures of \<open>include/types.h\<close>.  A field \<open>x\<close> of \<open>struct fws_conf\<close> is \<open>conf_x\<close>, of
  \<open>struct fws_http_req\<close> \<open>req_x\<close>, of \<open>struct fws_http_res\<close> \<open>res_x\<close>, of \<open>struct fws_file\<close>
  \<open>file_x\<close> and of \<open>struct fws_nft\<close> \<open>nft_x\<close>.  A \<open>char\<close> array is a \<^typ>\<open>cbuf\<close> with the size of its
  declaration; a pointer into the own \<open>uri\<close> array is an offset, \<open>None\<close> for \<open>nullptr\<close>.
\<close>

record fws_conf =
  conf_http_port :: u16
  conf_https_port :: u16
  conf_pps_limit :: u32
  conf_pps_burst :: u32
  conf_ban_time :: u32
  conf_ban_lim :: u32
  conf_hsts_max_age :: u32
  conf_cache_max_age :: u32
  conf_lim_swap_time :: u32
  conf_lim_page :: u32
  conf_lim_res :: u32
  conf_use_nft :: bool
  conf_use_hsts :: bool
  conf_use_ktls :: bool
  conf_test_mode :: bool
  conf_allow_ports :: cbuf
  conf_domain :: cbuf
  conf_web_root :: cbuf
  conf_web_log :: cbuf
  conf_ssl_cert :: cbuf
  conf_ssl_key :: cbuf
  conf_mime_default :: cbuf
  conf_mime :: cbuf

record fws_nft =
  nft_ip_buf :: "u8 list"
  nft_html_cnt :: u16
  nft_no_html_cnt :: u16
  nft_dos_cnt :: u16

record fws_http_res =
  res_hsts_max_age :: u32
  res_code :: s32
  res_connection :: s32
  res_is_origin_self :: bool
  res_content :: cbuf
  res_date :: cbuf
  res_etag :: cbuf

record fws_http_req =
  req_ip :: cbuf
  req_lang :: cbuf
  req_version :: cbuf
  req_method :: cbuf
  req_os :: cbuf
  req_browser :: cbuf
  req_etag :: cbuf
  req_subdomain :: cbuf
  req_origin :: cbuf
  req_uri :: cbuf
  req_path :: "nat option"
  req_path_n :: nat
  req_query :: "nat option"
  req_query_n :: nat

record fws_file =
  file_uri_path :: cbuf
  file_uri_path_n :: nat
  file_path :: cbuf
  file_size :: s64

text \<open>The zeroed structures, as \<open>= {0}\<close> and \<open>memset(p, 0, sizeof *p)\<close> leave them.\<close>

definition zero_conf :: fws_conf where
  "zero_conf = \<lparr>conf_http_port = 0, conf_https_port = 0, conf_pps_limit = 0, conf_pps_burst = 0,
     conf_ban_time = 0, conf_ban_lim = 0, conf_hsts_max_age = 0, conf_cache_max_age = 0,
     conf_lim_swap_time = 0, conf_lim_page = 0, conf_lim_res = 0, conf_use_nft = False,
     conf_use_hsts = False, conf_use_ktls = False, conf_test_mode = False,
     conf_allow_ports = zbuf 128, conf_domain = zbuf 128, conf_web_root = zbuf 128,
     conf_web_log = zbuf 128, conf_ssl_cert = zbuf 128, conf_ssl_key = zbuf 128,
     conf_mime_default = zbuf 128, conf_mime = zbuf 1024\<rparr>"

definition zero_nft :: fws_nft where
  "zero_nft = \<lparr>nft_ip_buf = replicate 16 0, nft_html_cnt = 0, nft_no_html_cnt = 0, nft_dos_cnt = 0\<rparr>"

definition zero_http_res :: fws_http_res where
  "zero_http_res = \<lparr>res_hsts_max_age = 0, res_code = 0, res_connection = 0,
     res_is_origin_self = False, res_content = zbuf 64, res_date = zbuf 32, res_etag = zbuf 32\<rparr>"

definition zero_http_req :: fws_http_req where
  "zero_http_req = \<lparr>req_ip = zbuf 16, req_lang = zbuf 16, req_version = zbuf 16,
     req_method = zbuf 16, req_os = zbuf 16, req_browser = zbuf 16, req_etag = zbuf 32,
     req_subdomain = zbuf 64, req_origin = zbuf 512, req_uri = zbuf 4096, req_path = None,
     req_path_n = 0, req_query = None, req_query_n = 0\<rparr>"

definition zero_file :: fws_file where
  "zero_file = \<lparr>file_uri_path = zbuf 4096, file_uri_path_n = 0, file_path = zbuf 4096,
     file_size = 0\<rparr>"

text \<open>
  The type invariant of a request and of a file: every array has the size of its declaration
  and carries no byte behind its end.
\<close>

definition wf_req :: "fws_http_req \<Rightarrow> bool" where
  "wf_req q \<longleftrightarrow>
     wf_buf (req_lang q) \<and> cap (req_lang q) = 16 \<and>
     wf_buf (req_version q) \<and> cap (req_version q) = 16 \<and>
     wf_buf (req_method q) \<and> cap (req_method q) = 16 \<and>
     wf_buf (req_os q) \<and> cap (req_os q) = 16 \<and>
     wf_buf (req_browser q) \<and> cap (req_browser q) = 16 \<and>
     wf_buf (req_etag q) \<and> cap (req_etag q) = 32 \<and>
     wf_buf (req_subdomain q) \<and> cap (req_subdomain q) = 64 \<and>
     wf_buf (req_origin q) \<and> cap (req_origin q) = 512 \<and>
     wf_buf (req_uri q) \<and> cap (req_uri q) = 4096"

lemma wf_zero_req [simp]: "wf_req zero_http_req"
  by (simp add: wf_req_def zero_http_req_def)

lemma zero_req_fields [simp]:
  "req_lang zero_http_req = zbuf 16" "req_version zero_http_req = zbuf 16"
  "req_method zero_http_req = zbuf 16" "req_os zero_http_req = zbuf 16"
  "req_browser zero_http_req = zbuf 16" "req_etag zero_http_req = zbuf 32"
  "req_subdomain zero_http_req = zbuf 64" "req_origin zero_http_req = zbuf 512"
  "req_uri zero_http_req = zbuf 4096" "req_path zero_http_req = None" "req_query zero_http_req = None"
  by (simp_all add: zero_http_req_def)

text \<open>Copying \<open>n\<close> bytes into an array and terminating them: \<open>memcpy(b, s, n); b[n] = '\0';\<close>.\<close>

definition put_str :: "cbuf \<Rightarrow> char list \<Rightarrow> cbuf option" where
  "put_str b s = do { b \<leftarrow> wr b 0 s; wr b (length s) [NUL] }"

lemma put_str_eq: "put_str b s = wr b 0 (s @ [NUL])"
  using wr_append [of b 0 s "[NUL]"] by (simp add: put_str_def)

lemma put_str_defined: "(\<exists>b'. put_str b s = Some b') \<longleftrightarrow> length s < cap b"
  by (auto simp: put_str_eq wr_def)

lemma put_str_eq_None: "put_str b s = None \<longleftrightarrow> cap b \<le> length s"
  by (auto simp: put_str_eq wr_eq_None)

lemma put_str_wf:
  "put_str b s = Some b' \<Longrightarrow> wf_buf b \<Longrightarrow> wf_buf b' \<and> cap b' = cap b"
  using wr_wf wr_SomeD(2) by (fastforce simp: put_str_eq)

lemma put_str_cstr:
  "put_str b s = Some b' \<Longrightarrow> wf_buf b \<Longrightarrow> NUL \<notin> set s \<Longrightarrow> cstr b' 0 = Some s"
  by (simp add: put_str_eq cstr_wr)

lemma put_str_zbuf: "length s < n \<Longrightarrow> put_str (zbuf n) s = Some \<lparr>bytes = s @ [NUL], cap = n\<rparr>"
  by (simp add: put_str_eq wr_def zbuf_def)

text \<open>The result of one \<open>read\<close> or \<open>recv\<close>: data, end of file, \<open>EAGAIN\<close>, another error.\<close>

datatype io_read = RData string | REof | RAgain | RErr

end
