(* ===== verification/File_Path.thy ===== *)
theory File_Path
  imports Types
begin

text \<open>
  \<open>src/file.c\<close>: from the path of a request to a file under the web root.  The file system is
  outside the program: \<open>stat\<close> gives the size of an existing file, \<open>realpath\<close> the canonical
  path; both are arguments of the definitions that call them.
\<close>

section \<open>The code\<close>

definition index_str :: string where "index_str = ''index''"
definition index_html_str :: string where "index_html_str = ''index.html''"
definition html_ext_str :: string where "html_ext_str = ''.html''"

lemmas str_defs = index_str_def index_html_str_def html_ext_str_def

definition chr_to_hex :: "u8 \<Rightarrow> s32" where
  "chr_to_hex c =
     (if 0x30 \<le> c \<and> c \<le> 0x39 then uint c - 0x30
      else if 0x41 \<le> c \<and> c \<le> 0x46 then uint c - 0x37
      else if 0x61 \<le> c \<and> c \<le> 0x66 then uint c - 0x57
      else -1)"

text \<open>The loop of \<open>_raw_path_build\<close>: \<open>p1\<close> reads \<open>uri_path\<close>, \<open>p2\<close> writes \<open>path_buf\<close>.\<close>

function raw_path_loop :: "cbuf \<Rightarrow> cbuf \<Rightarrow> nat \<Rightarrow> nat \<Rightarrow> cbuf option" where
  "raw_path_loop uri_path path_buf p1 p2 = do {
     c0 \<leftarrow> rd uri_path p1;
     if c0 = NUL then wr path_buf p2 [NUL]
     else if c0 = CHR ''%'' then do {
       c1 \<leftarrow> rd uri_path (p1 + 1);
       if c1 = NUL then do {
         path_buf \<leftarrow> wr path_buf p2 [c0];
         wr path_buf (p2 + 1) [NUL]
       } else do {
         c2 \<leftarrow> rd uri_path (p1 + 2);
         if c2 = NUL then do {
           path_buf \<leftarrow> wr path_buf p2 [c0];
           path_buf \<leftarrow> wr path_buf (p2 + 1) [c1];
           wr path_buf (p2 + 2) [NUL]
         } else if chr_to_hex (of_char c1) < 0 then do {
           path_buf \<leftarrow> wr path_buf p2 [c0];
           raw_path_loop uri_path path_buf (p1 + 1) (p2 + 1)
         } else if chr_to_hex (of_char c2) < 0 then do {
           path_buf \<leftarrow> wr path_buf p2 [c0];
           raw_path_loop uri_path path_buf (p1 + 1) (p2 + 1)
         } else do {
           let x1 = (word_of_int (chr_to_hex (of_char c1)) :: u8);
           let x2 = (word_of_int (chr_to_hex (of_char c2)) :: u8);
           let hex = (push_bit 4 x1) OR x2;
           path_buf \<leftarrow> wr path_buf p2 [char_of (unat hex)];
           raw_path_loop uri_path path_buf (p1 + 3) (p2 + 1)
         }
       }
     } else do {
       path_buf \<leftarrow> wr path_buf p2 [c0];
       raw_path_loop uri_path path_buf (p1 + 1) (p2 + 1)
     }
   }"
  by pat_completeness auto
termination
  by (relation "measure (\<lambda>(u, b, p1, p2). cap u - p1)") (auto simp: rd_eq_Some)

declare raw_path_loop.simps [simp del]

definition raw_path_build :: "cbuf \<Rightarrow> cbuf \<Rightarrow> cbuf \<Rightarrow> nat \<Rightarrow> (s32 \<times> cbuf) option" where
  "raw_path_build path_buf uri_path web_root web_root_len = do {
     root \<leftarrow> rd_n web_root 0 web_root_len;
     path_buf \<leftarrow> wr path_buf 0 root;
     path_buf \<leftarrow> wr path_buf web_root_len [CHR ''/''];
     path_buf \<leftarrow> wr path_buf (web_root_len + 1) [NUL];
     path_buf \<leftarrow> raw_path_loop uri_path path_buf 0 (web_root_len + 1);
     Some (0, path_buf)
   }"

text \<open>Dropping the last \<open>k\<close> bytes of the path and answering 301, as three branches do.\<close>

definition uri_path_cut :: "fws_file \<Rightarrow> nat \<Rightarrow> (s32 \<times> fws_file) option" where
  "uri_path_cut file k = do {
     let n = file_uri_path_n file - k;
     u \<leftarrow> wr (file_uri_path file) n [NUL];
     Some (301, file\<lparr>file_uri_path := u, file_uri_path_n := n\<rparr>)
   }"

definition uri_path_build :: "fws_file \<Rightarrow> (s32 \<times> fws_file) option" where
  "uri_path_build file =
     (let u = file_uri_path file; n = file_uri_path_n file in
      if n = 0 then Some (-1, file)
      else do {
        last_chr \<leftarrow> rd u (n - 1);
        if last_chr = CHR ''/'' then Some (1, file)
        else do {
          r \<leftarrow> memrchr u 0 (CHR ''/'') n;
          case r of None \<Rightarrow> Some (-1, file)
          | Some q \<Rightarrow> do {
              let p1 = q + 1;
              is_index \<leftarrow> mem_eq u p1 (index_str @ [NUL]);
              if is_index then uri_path_cut file (length index_str)
              else do {
                is_index_html \<leftarrow> mem_eq u p1 (index_html_str @ [NUL]);
                if is_index_html then uri_path_cut file (length index_html_str)
                else if int n - int (length html_ext_str) \<le> 0 then Some (0, file)
                else do {
                  is_html \<leftarrow> mem_eq u (n - length html_ext_str) html_ext_str;
                  if is_html then uri_path_cut file (length html_ext_str) else Some (0, file)
                }
              }
            }
        }
      })"

definition path_build ::
  "(string \<Rightarrow> s64 option) \<Rightarrow> fws_file \<Rightarrow> cbuf \<Rightarrow> s32 \<Rightarrow> (s32 \<times> fws_file \<times> cbuf) option" where
  "path_build stat file path_buf dir = do {
     r \<leftarrow> memchr path_buf 0 NUL (cap (file_path file));
     case r of None \<Rightarrow> Some (-1, file, path_buf)
     | Some p \<Rightarrow> do {
         name \<leftarrow> cstr path_buf 0;
         if dir = 1 then
           (case stat name of None \<Rightarrow> Some (404, file, path_buf)
            | Some _ \<Rightarrow> do {
                path_buf \<leftarrow> wr path_buf p (index_html_str @ [NUL]);
                name \<leftarrow> cstr path_buf 0;
                case stat name of
                  Some sz \<Rightarrow> Some (0, file\<lparr>file_size := sz\<rparr>, path_buf)
                | None \<Rightarrow> Some (404, file, path_buf)
              })
         else
           (case stat name of
              None \<Rightarrow> do {
                path_buf \<leftarrow> wr path_buf p (html_ext_str @ [NUL]);
                name \<leftarrow> cstr path_buf 0;
                case stat name of
                  None \<Rightarrow> Some (404, file, path_buf)
                | Some sz \<Rightarrow> Some (0, file\<lparr>file_size := sz\<rparr>, path_buf)
              }
            | Some sz \<Rightarrow> Some (0, file\<lparr>file_size := sz\<rparr>, path_buf))
       }
   }"

definition file_parse ::
  "(string \<Rightarrow> s64 option) \<Rightarrow> (string \<Rightarrow> string option) \<Rightarrow> fws_http_req \<Rightarrow> cbuf \<Rightarrow> nat
     \<Rightarrow> (s32 \<times> fws_file) option" where
  "file_parse stat realpath http_req web_root web_root_n = do {
     let file = zero_file;
     off \<leftarrow> req_path http_req;
     src \<leftarrow> rd_n (req_uri http_req) off (req_path_n http_req);
     u \<leftarrow> wr (file_uri_path file) 0 src;
     u \<leftarrow> wr u (req_path_n http_req) [NUL];
     let file = file\<lparr>file_uri_path := u, file_uri_path_n := req_path_n http_req\<rparr>;
     web_root_len \<leftarrow> strnlen web_root 0 web_root_n;
     if web_root_len = web_root_n then Some (-1, file)
     else do {
       (_, path_buf) \<leftarrow> raw_path_build (zbuf 4096) (file_uri_path file) web_root web_root_len;
       (code, file) \<leftarrow> uri_path_build file;
       if code = 301 then Some (code, file)
       else if code < 0 then Some (-1, file)
       else do {
         (code, file, path_buf) \<leftarrow> path_build stat file path_buf code;
         if code \<noteq> 0 \<and> code \<noteq> 204 then Some (code, file)
         else do {
           name \<leftarrow> cstr path_buf 0;
           case realpath name of None \<Rightarrow> Some (404, file)
           | Some path_rp \<Rightarrow>
               (let path_rp_n = min (length path_rp) (cap (file_path file)) in
                if cap (file_path file) \<le> path_rp_n then Some (-1, file)
                else do {
                  fp \<leftarrow> wr (file_path file) 0 (path_rp @ [NUL]);
                  let file = file\<lparr>file_path := fp\<rparr>;
                  root \<leftarrow> rd_n web_root 0 web_root_len;
                  same \<leftarrow> mem_eq fp 0 root;
                  if same then Some (0, file) else Some (404, file)
                })
         }
       }
     }
   }"

section \<open>Percent decoding\<close>

text \<open>
  The reference: a percent sign followed by two hexadecimal digits stands for the byte they
  spell, every other byte for itself.
\<close>

definition hexval :: "char \<Rightarrow> nat option" where
  "hexval c =
     (let k = (of_char c :: nat) in
      if 48 \<le> k \<and> k \<le> 57 then Some (k - 48)
      else if 65 \<le> k \<and> k \<le> 70 then Some (k - 55)
      else if 97 \<le> k \<and> k \<le> 102 then Some (k - 87)
      else None)"

lemma hexval_less: "hexval c = Some h \<Longrightarrow> h < 16"
  by (auto simp: hexval_def Let_def split: if_splits)

lemma chr_to_hex_hexval:
  "chr_to_hex (of_char c) = (case hexval c of None \<Rightarrow> -1 | Some h \<Rightarrow> int h)"
proof -
  have u: "uint (of_char c :: u8) = int (of_char c)"
    by (metis uint_nat unat_of_char)
  show ?thesis
    by (simp add: chr_to_hex_def hexval_def Let_def u word_le_nat_alt)
qed

lemma upt_16: "[0..<16] = [0, 1, 2, 3, 4, 5, 6, 7, 8, 9, 10, 11, 12, 13, 14, 15 :: nat]"
  by code_simp

lemma hex_compose:
  assumes "h1 < 16" "h2 < 16"
  shows "unat (push_bit 4 (of_nat h1 :: u8) OR of_nat h2) = 16 * h1 + h2"
proof -
  have "list_all (\<lambda>a. list_all (\<lambda>b.
      unat (push_bit 4 (of_nat a :: u8) OR of_nat b) = 16 * a + b) [0..<16]) [0..<16]"
    unfolding upt_16 by simp
  with assms show ?thesis by (simp add: list_all_iff)
qed

fun url_decode :: "string \<Rightarrow> string" where
  "url_decode [] = []"
| "url_decode (c # s) =
     (if c = CHR ''%'' then
        (case s of
           a # b # t \<Rightarrow>
             (case (hexval a, hexval b) of
                (Some h1, Some h2) \<Rightarrow> char_of (16 * h1 + h2) # url_decode t
              | _ \<Rightarrow> c # url_decode s)
         | _ \<Rightarrow> c # url_decode s)
      else c # url_decode s)"

declare url_decode.simps(2) [simp del]

lemma url_decode_plain: "c \<noteq> CHR ''%'' \<Longrightarrow> url_decode (c # s) = c # url_decode s"
  by (simp add: url_decode.simps(2))

lemma url_decode_short: "length s < 2 \<Longrightarrow> url_decode (c # s) = c # s"
  by (cases s) (auto simp: url_decode.simps(2))

lemma url_decode_hex:
  "hexval a = Some h1 \<Longrightarrow> hexval d = Some h2 \<Longrightarrow>
     url_decode (CHR ''%'' # a # d # t) = char_of (16 * h1 + h2) # url_decode t"
  by (simp add: url_decode.simps(2))

lemma url_decode_nohex:
  "hexval a = None \<or> hexval d = None \<Longrightarrow> url_decode (c # a # d # t) = c # url_decode (a # d # t)"
  by (subst url_decode.simps(2)) (auto split: option.split)

lemmas url_decode_rules = url_decode_plain url_decode_short url_decode_hex url_decode_nohex

lemma raw_path_loop_decodes:
  "holds u p1 (s @ [NUL]) \<Longrightarrow> NUL \<notin> set s \<Longrightarrow>
     raw_path_loop u b p1 p2 = wr b p2 (url_decode s @ [NUL])"
proof (induction s arbitrary: p1 p2 b rule: measure_induct_rule [of length])
  case (less s)
  show ?case
  proof (cases s)
    case Nil
    with less.prems show ?thesis by (simp add: raw_path_loop.simps holds_Cons)
  next
    case (Cons c s1)
    have c: "rd u p1 = Some c" "c \<noteq> NUL" and h1: "holds u (Suc p1) (s1 @ [NUL])" "NUL \<notin> set s1"
      using less.prems Cons by (auto simp: holds_Cons)
    have copy: "Option.bind (wr b p2 [c]) (\<lambda>b'. raw_path_loop u b' (Suc p1) (Suc p2)) =
        wr b p2 (c # url_decode s1 @ [NUL])"
      using less.IH [OF _ h1] Cons by (simp add: wr_Cons)
    show ?thesis
    proof (cases "c = CHR ''%'' \<and> 2 \<le> length s1")
      case False
      then consider "c \<noteq> CHR ''%''" | "c = CHR ''%''" "s1 = []" | a where "c = CHR ''%''" "s1 = [a]"
        by (cases s1; cases "tl s1") auto
      then show ?thesis
        using c h1 copy Cons
        by cases (auto simp: raw_path_loop.simps [of u b p1] holds_Cons wr_Cons url_decode_rules)
    next
      case True
      then have pc: "c = CHR ''%''" by simp
      from True obtain a d t where s1: "s1 = a # d # t" by (cases s1; cases "tl s1") auto
      then have ad: "rd u (Suc p1) = Some a" "a \<noteq> NUL" "rd u (Suc (Suc p1)) = Some d" "d \<noteq> NUL"
        and ht: "holds u (p1 + 3) (t @ [NUL])" "NUL \<notin> set t"
        using h1 by (auto simp: holds_Cons eval_nat_numeral)
      show ?thesis
      proof (cases "\<exists>h1 h2. hexval a = Some h1 \<and> hexval d = Some h2")
        case True
        then obtain h1 h2 where h: "hexval a = Some h1" "hexval d = Some h2" by blast
        have "Option.bind (wr b p2 [char_of (16 * h1 + h2)])
                (\<lambda>b'. raw_path_loop u b' (p1 + 3) (Suc p2)) =
              wr b p2 (char_of (16 * h1 + h2) # url_decode t @ [NUL])"
          using less.IH [OF _ ht] Cons s1 by (simp add: wr_Cons)
        moreover have "raw_path_loop u b p1 p2 = Option.bind (wr b p2 [char_of (16 * h1 + h2)])
                (\<lambda>b'. raw_path_loop u b' (p1 + 3) (Suc p2))"
        proof -
          note hc = hex_compose [OF hexval_less [OF h(1)] hexval_less [OF h(2)]]
          from c(1) pc have "rd u p1 = Some (CHR ''%'')" by simp
          with ad h show ?thesis
            by (subst raw_path_loop.simps) (simp add: chr_to_hex_hexval hc Let_def)
        qed
        moreover have "url_decode s = char_of (16 * h1 + h2) # url_decode t"
          using Cons s1 pc h by (simp add: url_decode_hex)
        ultimately show ?thesis by (simp only: append_Cons)
      next
        case False
        then have hn: "hexval a = None \<or> hexval d = None" by auto
        have "raw_path_loop u b p1 p2 =
            Option.bind (wr b p2 [c]) (\<lambda>b'. raw_path_loop u b' (Suc p1) (Suc p2))"
          using hn ad c(1) pc
          by (subst raw_path_loop.simps) (auto simp: chr_to_hex_hexval split: option.split)
        moreover have "url_decode s = c # url_decode s1"
          using Cons s1 hn by (simp add: url_decode_nohex)
        ultimately show ?thesis using copy by (simp only: append_Cons)
      qed
    qed
  qed
qed

lemma raw_path_build_decodes:
  assumes "holds web_root 0 (root @ [NUL])" and "holds u 0 (s @ [NUL])" "NUL \<notin> set s"
  shows "raw_path_build b u web_root (length root) =
     map_option (Pair 0) (wr b 0 (root @ CHR ''/'' # url_decode s @ [NUL]))"
proof -
  have r: "rd_n web_root 0 (length root) = Some root"
    using holds_rd_n [OF assms(1), of "length root"] by simp
  have loop: "Option.bind (wr b1 n [NUL]) (\<lambda>b2. Option.bind (raw_path_loop u b2 0 n) f) =
      Option.bind (wr b1 n (url_decode s @ [NUL])) f" for b1 n and f :: "cbuf \<Rightarrow> (s32 \<times> cbuf) option"
    using raw_path_loop_decodes [OF assms(2,3)] wr_overwrite [of "[NUL]" "url_decode s @ [NUL]" b1 n]
    by (simp flip: Option.bind_assoc)
  show ?thesis
    by (simp add: raw_path_build_def r loop wr_bind_append map_conv_bind_option comp_def)
qed

text \<open>The encoder of a client: every byte outside \<open>keep\<close> becomes \<open>%HH\<close>.\<close>

definition hex_chr :: "nat \<Rightarrow> char" where
  "hex_chr h = char_of (if h < 10 then 48 + h else 55 + h)"

definition pct_encode :: "(char \<Rightarrow> bool) \<Rightarrow> string \<Rightarrow> string" where
  "pct_encode keep s =
     concat (map (\<lambda>c. if keep c then [c]
                     else [CHR ''%'', hex_chr (of_char c div 16), hex_chr (of_char c mod 16)]) s)"

lemma hexval_hex_chr: "h < 16 \<Longrightarrow> hexval (hex_chr h) = Some h"
  by (simp add: hexval_def hex_chr_def Let_def)

lemma url_decode_encode:
  assumes "\<not> keep (CHR ''%'')"
  shows "url_decode (pct_encode keep s) = s"
proof (induction s)
  case (Cons c s)
  have lt: "(of_char c :: nat) div 16 < 16" "(of_char c :: nat) mod 16 < 16"
    using of_char_char_of [of "of_char c"] of_char_mod_256 [of c, where 'a = nat]
    by (auto simp: less_mult_imp_div_less)
  show ?case
  proof (cases "keep c")
    case True
    with assms have "c \<noteq> CHR ''%''" by auto
    with True Cons show ?thesis by (simp add: pct_encode_def url_decode_plain)
  next
    case False
    with Cons show ?thesis
      by (simp add: pct_encode_def url_decode_hex [OF hexval_hex_chr [OF lt(1)] hexval_hex_chr [OF lt(2)]])
  qed
qed (simp add: pct_encode_def)

section \<open>The canonical form of a path\<close>

text \<open>
  \<open>uri_cut s\<close> is what a canonical path drops from the end of \<open>s\<close>: a final \<open>index\<close> or
  \<open>index.html\<close> component, or the extension \<open>.html\<close> of anything longer than the extension.
\<close>

definition uri_cut :: "string \<Rightarrow> nat" where
  "uri_cut s =
     (if suffix ''/index'' s then 5 else if suffix ''/index.html'' s then 10
      else if suffix ''.html'' s \<and> 5 < length s then 5 else 0)"

definition uri_code :: "string \<Rightarrow> s32" where
  "uri_code s =
     (if CHR ''/'' \<notin> set s then -1 else if last s = CHR ''/'' then 1
      else if uri_cut s = 0 then 0 else 301)"

text \<open>A file whose \<open>uri_path\<close> is \<open>s\<close> in a zeroed array, as \<open>file_parse\<close> fills it.\<close>

definition uri_is :: "fws_file \<Rightarrow> string \<Rightarrow> bool" where
  "uri_is f s \<longleftrightarrow>
     wf_buf (file_uri_path f) \<and> cap (file_uri_path f) = 4096 \<and> length s < 4096 \<and>
     NUL \<notin> set s \<and> file_uri_path_n f = length s \<and>
     holds (file_uri_path f) 0 (s @ replicate (4096 - length s) NUL)"

lemma uri_is_put:
  assumes "wr (zbuf 4096) 0 (s @ [NUL]) = Some u" "NUL \<notin> set s"
  shows "uri_is (f\<lparr>file_uri_path := u, file_uri_path_n := length s\<rparr>) s"
proof -
  note w = wr_SomeD [OF assms(1)]
  have "rd u i = Some ((s @ replicate (4096 - length s) NUL) ! i)" if "i < 4096" for i
    using that w(1,2) w(3) [of i] by (auto simp: rd_def nth_append)
  then show ?thesis
    using w(1,2) assms(2) wr_wf [OF assms(1)] by (simp add: uri_is_def holds_def)
qed

lemma suffix_segment:
  assumes "CHR ''/'' \<notin> set x" "CHR ''/'' \<notin> set seg"
  shows "suffix (CHR ''/'' # x) (d @ CHR ''/'' # seg) \<longleftrightarrow> x = seg"
proof
  assume "suffix (CHR ''/'' # x) (d @ CHR ''/'' # seg)"
  then obtain z where "d @ CHR ''/'' # seg = z @ CHR ''/'' # x" by (auto simp: suffix_def)
  then have "rev seg @ CHR ''/'' # rev d = rev x @ CHR ''/'' # rev z"
    by (metis rev_append rev.simps(2) append.assoc append_Cons append_Nil)
  then have "takeWhile (\<lambda>c. c \<noteq> CHR ''/'') (rev seg @ CHR ''/'' # rev d) =
      takeWhile (\<lambda>c. c \<noteq> CHR ''/'') (rev x @ CHR ''/'' # rev z)" by simp
  then show "x = seg" using assms by (simp add: takeWhile_append split: if_split_asm) 
next
  assume "x = seg"
  then show "suffix (CHR ''/'' # x) (d @ CHR ''/'' # seg)" by (simp add: suffix_def)
qed

lemma suffix_drop_iff: "length x \<le> length s \<Longrightarrow> suffix x s \<longleftrightarrow> drop (length s - length x) s = x"
  by (metis suffix_drop suffix_take append_eq_append_conv append_take_drop_id diff_diff_cancel
      length_drop suffix_def)

lemma length_strs [simp]:
  "length index_str = 5" "length index_html_str = 10" "length html_ext_str = 5"
  by (simp_all add: str_defs)

lemma uri_path_cut_is:
  assumes "uri_is f s" "k \<le> length s"
  shows "\<exists>f'. uri_path_cut f k = Some (301, f') \<and> file_uri_path_n f' = length s - k \<and>
     cstr (file_uri_path f') 0 = Some (take (length s - k) s)"
proof -
  let ?n = "length s - k" and ?u = "file_uri_path f"
  from assms have u: "wf_buf ?u" "cap ?u = 4096" "length s < 4096" "NUL \<notin> set s"
    "file_uri_path_n f = length s" and h: "holds ?u 0 s"
    by (auto simp: uri_is_def holds_append)
  from u(2,3) obtain u' where w: "wr ?u ?n [NUL] = Some u'"
    using wr_defined [of ?u ?n "[NUL]"] by auto
  have "holds ?u 0 (take ?n s)" using h holds_append [of ?u 0 "take ?n s" "drop ?n s"] by simp
  then have "holds u' 0 (take ?n s)" by (rule holds_wr_other [OF w]) simp
  moreover have "holds u' ?n [NUL]" using holds_wr [OF w] .
  ultimately have "holds u' 0 (take ?n s @ [NUL])" by (simp add: holds_append)
  moreover have "NUL \<notin> set (take ?n s)" using u(4) by (auto dest: in_set_takeD)
  ultimately have "cstr u' 0 = Some (take ?n s)"
    using cstr_iff [OF wr_wf [OF w u(1)]] by simp
  then show ?thesis using w u(5) by (simp add: uri_path_cut_def)
qed

lemma prefix_same_length: "length x = length y \<Longrightarrow> prefix x y \<longleftrightarrow> y = x"
  by (auto simp: prefix_def)

text \<open>The comparisons of \<open>_uri_path_build\<close> on a path \<open>d/seg\<close>.\<close>

lemma seg_eq:
  assumes "uri_is f (d @ CHR ''/'' # seg)" "length d + length x + 2 \<le> 4096" "NUL \<notin> set x"
  shows "mem_eq (file_uri_path f) (Suc (length d)) (x @ [NUL]) = Some (x = seg)"
proof -
  let ?u = "file_uri_path f" and ?z = "replicate (4096 - length (d @ CHR ''/'' # seg)) NUL"
  from assms have h: "holds ?u (Suc (length d)) (seg @ ?z)" and lt: "length d + length seg + 1 < 4096"
    and n: "NUL \<notin> set seg"
    by (auto simp: uri_is_def holds_append holds_Cons)
  then show ?thesis
    using mem_eq_holds [OF h, of "x @ [NUL]"] prefix_term_iff [OF assms(3) n, of "4096 - length (d @ CHR ''/'' # seg)"]
      assms(2) by auto
qed

lemma ext_eq:
  assumes "uri_is f s" "5 \<le> length s"
  shows "mem_eq (file_uri_path f) (length s - 5) html_ext_str = Some (suffix ''.html'' s)"
proof -
  let ?u = "file_uri_path f"
  have "s = take (length s - 5) s @ drop (length s - 5) s" by simp
  moreover have "holds ?u 0 s" using assms(1) by (simp add: uri_is_def holds_append)
  ultimately have "holds ?u (length s - 5) (drop (length s - 5) s)"
    using holds_append [of ?u 0 "take (length s - 5) s" "drop (length s - 5) s"] by simp
  from mem_eq_holds [OF this, of html_ext_str] assms(2)
  have "mem_eq ?u (length s - 5) html_ext_str = Some (prefix ''.html'' (drop (length s - 5) s))"
    by (simp add: html_ext_str_def)
  moreover have "prefix ''.html'' (drop (length s - 5) s) \<longleftrightarrow> drop (length s - 5) s = ''.html''"
    by (rule prefix_same_length) (use assms(2) in simp)
  ultimately show ?thesis
    using suffix_drop_iff [of "''.html''" s] assms(2) by (simp add: eval_nat_numeral)
qed

lemma uri_path_build_spec:
  assumes u: "uri_is f s" and len: "length s \<le> 4085"
  shows "\<exists>f'. uri_path_build f = Some (uri_code s, f') \<and>
     file_uri_path_n f' = length s - (if uri_code s = 301 then uri_cut s else 0) \<and>
     cstr (file_uri_path f') 0 = Some (take (file_uri_path_n f') s) \<and>
     (uri_code s \<noteq> 301 \<longrightarrow> f' = f)"
proof -
  let ?u = "file_uri_path f"
  have n: "file_uri_path_n f = length s" and h: "holds ?u 0 s" and nn: "NUL \<notin> set s" and wf: "wf_buf ?u"
    and hz: "holds ?u 0 (s @ [NUL])"
    using u by (auto simp: uri_is_def holds_append holds_Cons) (cases "4096 - length s"; simp add: holds_Cons)
  have self: "cstr ?u 0 = Some s" using cstr_iff [OF wf] nn hz by simp
  show ?thesis
  proof (cases "CHR ''/'' \<in> set s")
    case False
    have "rd ?u (length s - 1) = Some (last s)" if "s \<noteq> []"
      using h that by (simp add: holds_def last_conv_nth)
    moreover have "last s \<noteq> CHR ''/''" if "s \<noteq> []" using False that last_in_set by metis
    moreover have "memrchr ?u 0 (CHR ''/'') (length s) = Some None"
      using memrchr_holds_None [OF h False] .
    ultimately show ?thesis
      using False n self by (auto simp: uri_path_build_def uri_code_def Let_def)
  next
    case True
    then obtain d seg where s: "s = d @ CHR ''/'' # seg" and seg: "CHR ''/'' \<notin> set seg"
      by (metis split_list_last)
    have ne: "s \<noteq> []" using s by simp
    have last: "rd ?u (length s - 1) = Some (last s)"
      using h ne by (simp add: holds_def last_conv_nth)
    show ?thesis
    proof (cases "last s = CHR ''/''")
      case lt: True
      then show ?thesis
        using n self True ne last by (auto simp: uri_path_build_def uri_code_def Let_def)
    next
      case lf: False
      have r: "memrchr ?u 0 (CHR ''/'') (length s) = Some (Some (length d))"
        using memrchr_holds [of ?u 0 d "CHR ''/''" seg "length s"] h s seg by simp
      have i: "suffix ''/index'' s \<longleftrightarrow> index_str = seg"
        and ih: "suffix ''/index.html'' s \<longleftrightarrow> index_html_str = seg"
        using suffix_segment [of "''index''" seg d] suffix_segment [of "''index.html''" seg d] s seg
        by (simp_all add: str_defs)
      have ei: "mem_eq ?u (Suc (length d)) (index_str @ [NUL]) = Some (index_str = seg)"
        and eh: "mem_eq ?u (Suc (length d)) (index_html_str @ [NUL]) = Some (index_html_str = seg)"
        using seg_eq [of f d seg index_str] seg_eq [of f d seg index_html_str] u s len
        by (simp_all add: str_defs)
      have red: "uri_path_build f =
          (if index_str = seg then uri_path_cut f 5
           else if index_html_str = seg then uri_path_cut f 10
           else if length s \<le> 5 then Some (0, f)
           else if suffix ''.html'' s then uri_path_cut f 5 else Some (0, f))"
        using n ne last lf r ei eh ext_eq [OF u]
        by (auto simp: uri_path_build_def Let_def)
      have cut: "uri_cut s =
          (if index_str = seg then 5 else if index_html_str = seg then 10
           else if suffix ''.html'' s \<and> 5 < length s then 5 else 0)"
        by (simp add: uri_cut_def i ih)
      have le: "uri_cut s \<le> length s"
        unfolding cut using s by auto
      have code: "uri_code s = (if uri_cut s = 0 then 0 else 301)"
        using True lf by (simp add: uri_code_def)
      show ?thesis
      proof (cases "uri_cut s = 0")
        case True
        then have "uri_path_build f = Some (0, f)" by (auto simp: red cut split: if_splits)
        with True n self code show ?thesis by simp
      next
        case False
        then have "uri_path_build f = uri_path_cut f (uri_cut s)"
          by (auto simp: red cut split: if_splits)
        with False code uri_path_cut_is [OF u le] show ?thesis by auto
      qed
    qed
  qed
qed

definition file_of :: "string \<Rightarrow> fws_file" where
  "file_of s = zero_file\<lparr>file_uri_path := \<lparr>bytes = s @ [NUL], cap = 4096\<rparr>, file_uri_path_n := length s\<rparr>"

lemma uri_is_file_of: "length s < 4096 \<Longrightarrow> NUL \<notin> set s \<Longrightarrow> uri_is (file_of s) s"
  unfolding file_of_def
  by (rule uri_is_put) (simp_all add: wr_def zbuf_def)

text \<open>A client that asks again for the path of every redirect it is sent.\<close>

fun follow_redirects :: "nat \<Rightarrow> string \<Rightarrow> (s32 \<times> string) option" where
  "follow_redirects 0 s = None"
| "follow_redirects (Suc k) s = do {
     (code, f) \<leftarrow> uri_path_build (file_of s);
     t \<leftarrow> cstr (file_uri_path f) 0;
     if code = 301 then follow_redirects k t else Some (code, t)
   }"

lemma uri_cut_pos: "uri_code s = 301 \<Longrightarrow> 0 < uri_cut s \<and> uri_cut s \<le> length s"
  by (auto simp: uri_code_def uri_cut_def suffix_def split: if_splits)


section \<open>The file a request names\<close>

text \<open>
  What \<open>_path_build\<close> looks for: a path with a final slash names the \<open>index.html\<close> in it, every
  other path itself, or, if there is no such file, the file with \<open>.html\<close> appended.
\<close>

definition candidate :: "(string \<Rightarrow> s64 option) \<Rightarrow> bool \<Rightarrow> string \<Rightarrow> (string \<times> s64) option" where
  "candidate stat dir base =
     (if dir then
        (if stat base = None then None
         else map_option (Pair (base @ ''index.html'')) (stat (base @ ''index.html'')))
      else (case stat base of Some sz \<Rightarrow> Some (base, sz)
            | None \<Rightarrow> map_option (Pair (base @ ''.html'')) (stat (base @ ''.html''))))"

definition file_answer ::
  "(string \<Rightarrow> s64 option) \<Rightarrow> (string \<Rightarrow> string option) \<Rightarrow> string \<Rightarrow> string \<Rightarrow> s32" where
  "file_answer stat realpath root s =
     (if uri_code s = 301 then 301 else if uri_code s < 0 then -1
      else (case candidate stat (uri_code s = 1) (root @ CHR ''/'' # url_decode s) of
              None \<Rightarrow> 404
            | Some (name, sz) \<Rightarrow>
                (case realpath name of None \<Rightarrow> 404
                 | Some rp \<Rightarrow> if 4096 \<le> length rp then -1 else if prefix root rp then 0 else 404)))"

text \<open>The canonical path as the array \<open>file->path\<close> holds it, compared with the web root.\<close>

lemma mem_eq_path:
  assumes "wr (zbuf n) 0 (r @ [NUL]) = Some fp" "NUL \<notin> set root" "length root \<le> n"
  shows "mem_eq fp 0 root = Some (prefix root r)"
proof -
  have short: "length r < n" using wr_SomeD(1) [OF assms(1)] by simp
  have "mem_eq fp 0 root = Some (prefix root ((r @ [NUL]) @ replicate (n - length (r @ [NUL])) NUL))"
    by (rule mem_eq_holds [OF holds_zbuf_wr(1) [OF assms(1)]]) (use short assms(3) in auto)
  also have "(r @ [NUL]) @ replicate (n - length (r @ [NUL])) NUL = r @ replicate (n - length r) NUL"
    using short by (simp add: Suc_diff_Suc flip: replicate_Suc)
  finally show ?thesis using prefix_pad_iff [OF assms(2)] by simp
qed

lemma path_build_answers:
  assumes h: "holds pb 0 (base @ [NUL])" and wf: "wf_buf pb" "cap pb = 4096" "cap (file_path f) = 4096"
    and n: "NUL \<notin> set base" and len: "length base \<le> 4085"
  shows "\<exists>pb'. path_build stat f pb dir =
      (case candidate stat (dir = 1) base of None \<Rightarrow> Some (404, f, pb')
       | Some (name, sz) \<Rightarrow> Some (0, f\<lparr>file_size := sz\<rparr>, pb')) \<and>
     (\<forall>name sz. candidate stat (dir = 1) base = Some (name, sz) \<longrightarrow> cstr pb' 0 = Some name)"
proof -
  have p: "memchr pb 0 NUL (cap (file_path f)) = Some (Some (length base))"
    using memchr_holds [of pb 0 base NUL "[]"] h n len wf(3) by simp
  have c: "cstr pb 0 = Some base" using h n wf(1) by (simp add: cstr_iff)
  have ext: "\<exists>pb'. wr pb (length base) (x @ [NUL]) = Some pb' \<and> cstr pb' 0 = Some (base @ x)"
    if x: "NUL \<notin> set x" "length x \<le> 10" for x
  proof -
    from x len wf(2) obtain pb' where w: "wr pb (length base) (x @ [NUL]) = Some pb'"
      using wr_defined [of pb "length base" "x @ [NUL]"] by auto
    have "holds pb' 0 base" using holds_wr_other [OF w, of 0 base] h by (simp add: holds_append)
    with holds_wr [OF w] have "holds pb' 0 ((base @ x) @ [NUL])" by (simp add: holds_append)
    with w n x show ?thesis using cstr_iff [OF wr_wf [OF w wf(1)]] by auto
  qed
  from ext [of index_html_str] obtain pb1 where
    e1: "wr pb (length base) (index_html_str @ [NUL]) = Some pb1" "cstr pb1 0 = Some (base @ ''index.html'')"
    by (auto simp: str_defs)
  from ext [of html_ext_str] obtain pb2 where
    e2: "wr pb (length base) (html_ext_str @ [NUL]) = Some pb2" "cstr pb2 0 = Some (base @ ''.html'')"
    by (auto simp: str_defs)
  show ?thesis
    using p c e1 e2 by (auto simp: path_build_def candidate_def split: option.split)
qed

lemma file_parse_answers:
  assumes q: "req_path q = Some 0" "req_path_n q = length s" "rd_n (req_uri q) 0 (length s) = Some s"
    and s: "NUL \<notin> set s" "length s \<le> 4085"
    and w: "wf_buf w" "cstr w 0 = Some root" "length root < n"
    and base: "NUL \<notin> set (url_decode s)" "length root + length (url_decode s) \<le> 4084"
    and rp: "\<And>name r. realpath name = Some r \<Longrightarrow> NUL \<notin> set r"
  shows "\<exists>f. file_parse stat realpath q w n = Some (file_answer stat realpath root s, f) \<and>
    (file_answer stat realpath root s = 301 \<longrightarrow>
       cstr (file_uri_path f) 0 = Some (take (length s - uri_cut s) s)) \<and>
    (file_answer stat realpath root s = 0 \<longrightarrow>
       (\<exists>name r. candidate stat (uri_code s = 1) (root @ CHR ''/'' # url_decode s) = Some (name, file_size f) \<and>
          realpath name = Some r \<and> prefix root r \<and> cstr (file_path f) 0 = Some r))"
proof -
  let ?base = "root @ CHR ''/'' # url_decode s"
  obtain u where u: "wr (zbuf 4096) 0 (s @ [NUL]) = Some u"
    using wr_defined [of "zbuf 4096" 0 "s @ [NUL]"] s(2) by auto
  define f0 where "f0 = zero_file\<lparr>file_uri_path := u, file_uri_path_n := length s\<rparr>"
  have f0: "uri_is f0 s" unfolding f0_def by (rule uri_is_put [OF u s(1)])
  have rl: "strnlen w 0 n = Some (length root)"
    using strnlen_cstr [OF w(1,2), of n] w(3) by simp
  have hr: "NUL \<notin> set root" "holds w 0 (root @ [NUL])" using cstr_iff [OF w(1)] w(2) by auto
  have hu: "holds u 0 (s @ [NUL])" by (rule holds_wr [OF u])
  obtain pb where pb: "wr (zbuf 4096) 0 (?base @ [NUL]) = Some pb"
    using wr_defined [of "zbuf 4096" 0 "?base @ [NUL]"] base(2) by auto
  have raw: "raw_path_build (zbuf 4096) u w (length root) = Some (0, pb)"
    using raw_path_build_decodes [OF hr(2) hu s(1)] pb by simp
  note pbh = holds_wr [OF pb] holds_zbuf_wr(2,3) [OF pb]
  obtain f1 where f1: "uri_path_build f0 = Some (uri_code s, f1)"
    and cut: "uri_code s = 301 \<longrightarrow> cstr (file_uri_path f1) 0 = Some (take (length s - uri_cut s) s)"
    and same: "uri_code s \<noteq> 301 \<longrightarrow> f1 = f0"
    using uri_path_build_spec [OF f0 s(2)] by auto
  have start: "file_parse stat realpath q w n =
     (if uri_code s = 301 then Some (301, f1) else if uri_code s < 0 then Some (-1, f1)
      else do {
         (code, file, path_buf) \<leftarrow> path_build stat f1 pb (uri_code s);
         if code \<noteq> 0 \<and> code \<noteq> 204 then Some (code, file)
         else do {
           name \<leftarrow> cstr path_buf 0;
           case realpath name of None \<Rightarrow> Some (404, file)
           | Some path_rp \<Rightarrow>
               (let path_rp_n = min (length path_rp) (cap (file_path file)) in
                if cap (file_path file) \<le> path_rp_n then Some (-1, file)
                else do {
                  fp \<leftarrow> wr (file_path file) 0 (path_rp @ [NUL]);
                  let file = file\<lparr>file_path := fp\<rparr>;
                  root \<leftarrow> rd_n w 0 (length root);
                  same \<leftarrow> mem_eq fp 0 root;
                  if same then Some (0, file) else Some (404, file)
                })
         }
       })"
    using f1 raw rl w(3) q u wr_append [of "zbuf 4096" 0 s "[NUL]"]
    by (simp add: file_parse_def f0_def zero_file_def wr_bind_append)
  show ?thesis
  proof (cases "uri_code s = 301 \<or> uri_code s < 0")
    case True
    then show ?thesis using start cut by (auto simp: file_answer_def)
  next
    case False
    with same have f1: "f1 = f0" by simp
    have capf: "cap (file_path f0) = 4096" by (simp add: f0_def zero_file_def)
    have lb: "NUL \<notin> set ?base" "length ?base \<le> 4085" using hr base by auto
    from path_build_answers [OF pbh(1,2,3) capf lb, of stat "uri_code s"]
    obtain pb' where pbld: "path_build stat f0 pb (uri_code s) =
        (case candidate stat (uri_code s = 1) ?base of None \<Rightarrow> Some (404, f0, pb')
         | Some (name, sz) \<Rightarrow> Some (0, f0\<lparr>file_size := sz\<rparr>, pb'))"
      and nm: "\<And>name sz. candidate stat (uri_code s = 1) ?base = Some (name, sz) \<Longrightarrow> cstr pb' 0 = Some name"
      by blast
    show ?thesis
    proof (cases "candidate stat (uri_code s = 1) ?base")
      case None
      then show ?thesis using False start f1 pbld by (auto simp: file_answer_def)
    next
      case (Some c)
      then obtain name sz where c: "candidate stat (uri_code s = 1) ?base = Some (name, sz)" by (cases c) auto
      note nm = nm [OF c]
      show ?thesis
      proof (cases "realpath name")
        case None
        then show ?thesis using False start f1 pbld c nm by (auto simp: file_answer_def)
      next
        case (Some r)
        show ?thesis
        proof (cases "4096 \<le> length r")
          case True
          then show ?thesis using False start f1 pbld c nm Some capf by (auto simp: file_answer_def)
        next
          case short: False
          obtain fp where fp: "wr (zbuf 4096) 0 (r @ [NUL]) = Some fp"
            using wr_defined [of "zbuf 4096" 0 "r @ [NUL]"] short by auto
          have rr: "rd_n w 0 (length root) = Some root"
            using holds_rd_n [OF hr(2), of "length root"] by simp
          have eq: "mem_eq fp 0 root = Some (prefix root r)"
            by (rule mem_eq_path [OF fp hr(1)]) (use base(2) in simp)
          have cs: "cstr fp 0 = Some r"
            using cstr_wr [OF _ fp rp [OF Some]] by simp
          have fpz: "file_path f0 = zbuf 4096" by (simp add: f0_def zero_file_def)
          show ?thesis
            using False start f1 pbld c nm Some capf short fp rr eq cs
            by (auto simp: file_answer_def fpz)
        qed
      qed
    qed
  qed
qed

section \<open>What holds of every answer\<close>

lemma uri_path_cut_frame:
  "pred_option (\<lambda>(c, f'). file_path f' = file_path f \<and> file_uri_path_n f' \<le> file_uri_path_n f) (uri_path_cut f k)"
  unfolding uri_path_cut_def Let_def by (intro pred_rules) simp

lemma uri_path_build_frame:
  "pred_option (\<lambda>(c, f'). file_path f' = file_path f \<and> file_uri_path_n f' \<le> file_uri_path_n f) (uri_path_build f)"
  unfolding uri_path_build_def Let_def
  by (intro pred_rules uri_path_cut_frame) simp_all

lemma path_build_frame:
  "pred_option (\<lambda>(c, f', pb'). c \<in> {-1, 0, 404} \<and> file_path f' = file_path f \<and>
     file_uri_path_n f' = file_uri_path_n f \<and>
     (c = 0 \<longrightarrow> (\<exists>name. cstr pb' 0 = Some name \<and> stat name = Some (file_size f'))))
     (path_build stat f pb d)"
  unfolding path_build_def by (intro pred_rules) auto

text \<open>The file of any answer: its path is empty or one that \<open>realpath\<close> gave.\<close>

lemma file_parse_file:
  "pred_option (\<lambda>(c, f). file_uri_path_n f \<le> req_path_n q \<and> (file_path f = zbuf 4096 \<or>
     (\<exists>name r. realpath name = Some r \<and> wr (zbuf 4096) 0 (r @ [NUL]) = Some (file_path f))))
   (file_parse stat realpath q w n)"
proof -
  have z: "file_path (zero_file\<lparr>file_uri_path := u, file_uri_path_n := k\<rparr>) = zbuf 4096" for u k
    by (simp add: zero_file_def)
  show ?thesis
    unfolding file_parse_def Let_def
    by (intro pred_rules)
      (auto dest!: pred_SomeD [OF path_build_frame] pred_SomeD [OF uri_path_build_frame] simp: z)
qed

lemma file_parse_serves:
  assumes w: "wf_buf w" "cstr w 0 = Some root"
    and rp: "\<And>name r. realpath name = Some r \<Longrightarrow> NUL \<notin> set r"
  shows "pred_option (\<lambda>(c, f). c = 0 \<longrightarrow> (\<exists>name r. stat name = Some (file_size f) \<and>
     realpath name = Some r \<and> cstr (file_path f) 0 = Some r \<and> prefix root r \<and>
     wf_buf (file_path f) \<and> cap (file_path f) = 4096))
     (file_parse stat realpath q w n)"
proof -
  have root: "NUL \<notin> set root" "holds w 0 (root @ [NUL])" using cstr_iff [OF w(1)] w(2) by auto
  have len: "l = length root" if "strnlen w 0 n = Some l" "l \<noteq> n" for l
    using that strnlen_cstr [OF w, of n] by auto
  have rt: "rd_n w 0 (length root) = Some root"
    using holds_rd_n [OF root(2), of "length root"] by simp
  have fin: "cstr fp 0 = Some r \<and> prefix root r \<and> wf_buf fp \<and> cap fp = 4096"
    if "wr (zbuf 4096) 0 (r @ [NUL]) = Some fp" "realpath name = Some r" "mem_eq fp 0 root = Some True"
    for fp r name
  proof -
    have "length root \<le> 4096"
      using that(3) wr_SomeD(2) [OF that(1)] by (simp add: mem_eq_True)
    with that mem_eq_path [OF that(1) root(1)] cstr_wr [OF _ that(1) rp [OF that(2)]] holds_zbuf_wr(2,3) [OF that(1)]
    show ?thesis by simp
  qed
  have z: "file_path (zero_file\<lparr>file_uri_path := u, file_uri_path_n := k\<rparr>) = zbuf 4096" for u k
    by (simp add: zero_file_def)
  show ?thesis
    unfolding file_parse_def Let_def
    by (intro pred_rules)
      (fastforce dest!: pred_SomeD [OF path_build_frame] pred_SomeD [OF uri_path_build_frame] len
         dest: fin simp: z rt)+
qed

section \<open>Properties\<close>

text \<open>
  The path \<open>_raw_path_build\<close> writes: for a web root and a URI path held as C strings,
  the loop over two pointers computes exactly one write of the terminated string
  \<open>web_root / url_decode(uri_path)\<close>, on every input, including the ones that do not fit.
\<close>

theorem raw_path_build_refines:
  assumes "holds web_root 0 (root @ [NUL])" and "holds uri 0 (s @ [NUL])" and "NUL \<notin> set s"
  shows "raw_path_build b uri web_root (length root) =
     map_option (Pair 0) (wr b 0 (root @ CHR ''/'' # url_decode s @ [NUL]))"
  using assms by (rule raw_path_build_decodes)

theorem raw_path_build_refines_witness:
  "raw_path_build (zbuf 64) \<lparr>bytes = ''/a%20b'', cap = 16\<rparr> \<lparr>bytes = ''/srv'', cap = 16\<rparr> 4 =
     Some (0, \<lparr>bytes = ''/srv//a b'' @ [NUL], cap = 64\<rparr>)"
proof -
  have "url_decode ''/a%20b'' = ''/a b''"
    by (simp add: url_decode.simps hexval_def Let_def eval_simps)
  then show ?thesis
    using raw_path_build_refines [of "\<lparr>bytes = ''/srv'', cap = 16\<rparr>" "''/srv''"
        "\<lparr>bytes = ''/a%20b'', cap = 16\<rparr>" "''/a%20b''" "zbuf 64"]
    by (simp add: holds_Cons eval_simps wr_def zbuf_def)
qed

text \<open>
  C31. Round trip: a client that percent-encodes any bytes of a file name (always the percent
  sign) reaches exactly that name below the web root.
\<close>

theorem encoded_path_reached:
  assumes "holds web_root 0 (root @ [NUL])" "NUL \<notin> set root"
    and "holds uri 0 (pct_encode keep s @ [NUL])" "NUL \<notin> set (pct_encode keep s)"
    and "\<not> keep (CHR ''%'')" "NUL \<notin> set s" "length root + length s \<le> 4094"
  shows "\<exists>b. raw_path_build (zbuf 4096) uri web_root (length root) = Some (0, b) \<and>
     cstr b 0 = Some (root @ CHR ''/'' # s)"
proof -
  obtain b where b: "wr (zbuf 4096) 0 ((root @ CHR ''/'' # s) @ [NUL]) = Some b"
    using wr_defined [of "zbuf 4096" 0 "(root @ CHR ''/'' # s) @ [NUL]"] assms(7) by auto
  then have "cstr b 0 = Some (root @ CHR ''/'' # s)"
    using cstr_wr [OF _ b] assms(2,6) by simp
  with b show ?thesis
    using raw_path_build_decodes [OF assms(1,3,4)] url_decode_encode [of keep s] assms(5) by simp
qed

theorem encoded_path_reached_witness:
  "\<exists>b. raw_path_build (zbuf 4096) \<lparr>bytes = ''%2Fa%25'', cap = 4096\<rparr> \<lparr>bytes = ''/srv'', cap = 256\<rparr> 4 =
     Some (0, b) \<and> cstr b 0 = Some ''/srv//a%''"
  using encoded_path_reached [of "\<lparr>bytes = ''/srv'', cap = 256\<rparr>" "''/srv''"
      "\<lparr>bytes = ''%2Fa%25'', cap = 4096\<rparr>" "\<lambda>c. c = CHR ''a''" "''/a%''"]
  by (simp add: pct_encode_def hex_chr_def holds_Cons eval_simps)

text \<open>
  C33. The bound of \<open>path_buf\<close>: the 4096 bytes overflow exactly when the web root, a slash, the
  decoded path and the terminator need more.  Nothing in \<open>_raw_path_build\<close> checks it.
\<close>

theorem raw_path_build_overflow_iff:
  assumes "holds web_root 0 (root @ [NUL])" and "holds uri 0 (s @ [NUL])" and "NUL \<notin> set s"
  shows "raw_path_build (zbuf 4096) uri web_root (length root) = None \<longleftrightarrow>
     4096 < length root + length (url_decode s) + 2"
  using raw_path_build_decodes [OF assms, of "zbuf 4096"] by (simp add: wr_eq_None)

theorem raw_path_build_overflow_iff_witness:
  "raw_path_build (zbuf 4096) \<lparr>bytes = replicate 4095 (CHR ''a''), cap = 4096\<rparr>
     \<lparr>bytes = ''/srv'', cap = 256\<rparr> 4 = None"
proof -
  have d: "url_decode (replicate k (CHR ''a'')) = replicate k (CHR ''a'')" for k
    by (induction k) (simp_all add: url_decode_plain)
  have h: "holds \<lparr>bytes = replicate 4095 (CHR ''a''), cap = 4096\<rparr> 0 (replicate 4095 (CHR ''a'') @ [NUL])"
    by (auto simp: holds_def rd_def byte_at_def nth_append)
  show ?thesis
    using raw_path_build_overflow_iff [OF _ h, of "\<lparr>bytes = ''/srv'', cap = 256\<rparr>" "''/srv''"]
    by (simp add: holds_Cons eval_simps d)
qed

text \<open>
  Canonical paths: for every path of at most 4085 bytes \<open>_uri_path_build\<close> answers 1 for a
  directory, 0 for a canonical path, -1 for a path without a slash, and 301 exactly for a path
  with a part to cut, leaving in \<open>uri_path\<close> the path without that part.
\<close>

theorem uri_path_build_canonical:
  assumes "uri_is f s" "length s \<le> 4085"
  shows "\<exists>f'. uri_path_build f = Some (uri_code s, f') \<and>
     file_uri_path_n f' = length s - (if uri_code s = 301 then uri_cut s else 0) \<and>
     cstr (file_uri_path f') 0 = Some (take (file_uri_path_n f') s) \<and>
     (uri_code s \<noteq> 301 \<longrightarrow> f' = f)"
  using assms by (rule uri_path_build_spec)

theorem uri_path_build_canonical_witness:
  "\<exists>f'. uri_path_build (file_of ''/docs/index.html'') = Some (301, f') \<and>
     cstr (file_uri_path f') 0 = Some ''/docs/''"
  using uri_path_build_canonical [OF uri_is_file_of, of "''/docs/index.html''"]
  by (auto simp: uri_code_def uri_cut_def suffix_def)

text \<open>
  C32. Redirects end: a client that follows every 301 of a path of at most 4085 bytes gets a
  final answer after at most one request per byte of the path; the path it ends at is a front
  part of the first one.
\<close>

theorem redirects_end:
  assumes "length s \<le> 4085" "NUL \<notin> set s"
  shows "\<exists>code t. follow_redirects (Suc (length s)) s = Some (code, t) \<and> prefix t s \<and>
     code = uri_code t \<and> code \<in> {-1, 0, 1}"
  using assms
proof (induction "length s" arbitrary: s rule: less_induct)
  case less
  from uri_path_build_spec [OF uri_is_file_of] less.prems obtain f' where
    b: "uri_path_build (file_of s) = Some (uri_code s, f')"
    and c: "cstr (file_uri_path f') 0 = Some (take (file_uri_path_n f') s)"
    and n: "file_uri_path_n f' = length s - (if uri_code s = 301 then uri_cut s else 0)"
    by force
  show ?case
  proof (cases "uri_code s = 301")
    case False
    then have "uri_code s \<in> {-1, 0, 1}" by (auto simp: uri_code_def)
    with False b c n show ?thesis by auto
  next
    case True
    let ?t = "take (length s - uri_cut s) s"
    have lt: "length ?t < length s" using uri_cut_pos [OF True] by auto
    then obtain j where j: "length s = Suc (length ?t + j)" by (metis less_iff_Suc_add)
    have "NUL \<notin> set ?t" "length ?t \<le> 4085" using less.prems lt by (auto dest: in_set_takeD)
    from less.hyps [OF lt this(2,1)] obtain code t where
      f: "follow_redirects (Suc (length ?t)) ?t = Some (code, t)" "prefix t ?t" "code = uri_code t"
      "code \<in> {-1, 0, 1}" by blast
    have mono: "follow_redirects (k + i) x = Some r" if "follow_redirects k x = Some r" for k i x r
      using that
      by (induction k arbitrary: x) (auto simp: Option.bind_eq_Some_conv split: prod.splits if_splits)
    have "follow_redirects (length s) ?t = Some (code, t)"
      using mono [OF f(1), of j] unfolding add_Suc j [symmetric] .
    moreover have "prefix t s" using f(2) by (meson take_is_prefix prefix_order.trans)
    ultimately show ?thesis using True b c n f(3,4) by auto
  qed
qed

theorem redirects_end_witness:
  "\<exists>code t. follow_redirects (Suc (length ''/a/index.html'')) ''/a/index.html'' = Some (code, t) \<and>
     prefix t ''/a/index.html'' \<and> code = uri_code t \<and> code \<in> {-1, 0, 1}"
  by (rule redirects_end) simp_all

text \<open>
  C10. The file a request names, on every file system: for a path of at most 4085 bytes whose decoded form has
  no zero byte and, together with the web root, at most 4084 bytes (so that the array also takes
  \<open>index.html\<close>; longer ones are the subject of the overflow property), \<open>file_parse\<close> answers
  \<open>file_answer\<close>; with 301 it leaves the canonical path, with 0 the
  file of \<open>candidate\<close> (the path itself, or with \<open>index.html\<close> or \<open>.html\<close> appended), its size and
  its canonical name.  The hypothesis on \<open>realpath\<close> says that it returns C strings.
\<close>

theorem file_parse_correct:
  assumes "req_path q = Some 0" "req_path_n q = length s" "rd_n (req_uri q) 0 (length s) = Some s"
    and "NUL \<notin> set s" "length s \<le> 4085"
    and "wf_buf w" "cstr w 0 = Some root" "length root < n"
    and "NUL \<notin> set (url_decode s)" "length root + length (url_decode s) \<le> 4084"
    and "\<And>name r. realpath name = Some r \<Longrightarrow> NUL \<notin> set r"
  shows "\<exists>f. file_parse stat realpath q w n = Some (file_answer stat realpath root s, f) \<and>
    (file_answer stat realpath root s = 301 \<longrightarrow>
       cstr (file_uri_path f) 0 = Some (take (length s - uri_cut s) s)) \<and>
    (file_answer stat realpath root s = 0 \<longrightarrow>
       (\<exists>name r. candidate stat (uri_code s = 1) (root @ CHR ''/'' # url_decode s) = Some (name, file_size f) \<and>
          realpath name = Some r \<and> prefix root r \<and> cstr (file_path f) 0 = Some r))"
  using assms by (rule file_parse_answers)

theorem file_parse_correct_witness:
  "\<exists>f. file_parse (\<lambda>n. if n = ''/srv//a.css'' then Some 7 else None)
         (\<lambda>n. if n = ''/srv//a.css'' then Some ''/srv/a.css'' else None)
         (zero_http_req\<lparr>req_uri := \<lparr>bytes = ''/a.css'', cap = 4096\<rparr>, req_path := Some 0, req_path_n := 6\<rparr>)
         \<lparr>bytes = ''/srv'', cap = 256\<rparr> 256 = Some (0, f) \<and>
       file_size f = 7 \<and> cstr (file_path f) 0 = Some ''/srv/a.css''"
proof -
  let ?st = "\<lambda>n. if n = ''/srv//a.css'' then Some (7 :: s64) else None"
  let ?rp = "\<lambda>n. if n = ''/srv//a.css'' then Some ''/srv/a.css'' else None"
  let ?q = "zero_http_req\<lparr>req_uri := \<lparr>bytes = ''/a.css'', cap = 4096\<rparr>, req_path := Some 0, req_path_n := 6\<rparr>"
  have d: "url_decode ''/a.css'' = ''/a.css''" by (simp add: url_decode_plain url_decode_short)
  have c: "candidate ?st (uri_code ''/a.css'' = 1) (''/srv'' @ CHR ''/'' # url_decode ''/a.css'') =
      Some (''/srv//a.css'', 7)"
    by (simp add: candidate_def d uri_code_def uri_cut_def suffix_def)
  have "uri_code ''/a.css'' = 0" by (simp add: uri_code_def uri_cut_def suffix_def)
  with c have a: "file_answer ?st ?rp ''/srv'' ''/a.css'' = 0"
    by (simp add: file_answer_def)
  have q: "req_path ?q = Some 0" "req_path_n ?q = length ''/a.css''"
    "rd_n (req_uri ?q) 0 (length ''/a.css'') = Some ''/a.css''"
    by (simp_all add: rd_n_def eval_simps)
  have w: "wf_buf \<lparr>bytes = ''/srv'', cap = 256\<rparr>" "cstr \<lparr>bytes = ''/srv'', cap = 256\<rparr> 0 = Some ''/srv''"
    by (simp_all add: wf_buf_def cstr_def)
  show ?thesis
    using file_parse_correct [OF q _ _ w, of 256 ?rp ?st] d c a by (auto split: if_splits)
qed

text \<open>
  C5. Nothing outside the name space of the web root is served: whenever \<open>file_parse\<close> answers 0,
  on any request and any file system, the path it hands out is a canonical path that starts
  with the bytes of the web root, of a file that exists, with the size of that file.
\<close>

theorem served_file_has_root_prefix:
  assumes "file_parse stat realpath q w n = Some (0, f)"
    and "wf_buf w" "cstr w 0 = Some root"
    and "\<And>name r. realpath name = Some r \<Longrightarrow> NUL \<notin> set r"
  shows "\<exists>name r. stat name = Some (file_size f) \<and> realpath name = Some r \<and>
     cstr (file_path f) 0 = Some r \<and> prefix root r"
proof -
  have "pred_option (\<lambda>(c, f). c = 0 \<longrightarrow> (\<exists>name r. stat name = Some (file_size f) \<and>
      realpath name = Some r \<and> cstr (file_path f) 0 = Some r \<and> prefix root r \<and>
      wf_buf (file_path f) \<and> cap (file_path f) = 4096)) (file_parse stat realpath q w n)"
    by (rule file_parse_serves [OF assms(2,3)]) (rule assms(4))
  with assms(1) show ?thesis by auto
qed

theorem served_file_has_root_prefix_witness:
  "\<exists>f r. file_parse (\<lambda>n. if n = ''/srv//a.css'' then Some 7 else None)
         (\<lambda>n. if n = ''/srv//a.css'' then Some ''/srv/a.css'' else None)
         (zero_http_req\<lparr>req_uri := \<lparr>bytes = ''/a.css'', cap = 4096\<rparr>, req_path := Some 0, req_path_n := 6\<rparr>)
         \<lparr>bytes = ''/srv'', cap = 256\<rparr> 256 = Some (0, f) \<and>
       cstr (file_path f) 0 = Some r \<and> prefix ''/srv'' r"
proof -
  let ?st = "\<lambda>n. if n = ''/srv//a.css'' then Some (7 :: s64) else None"
  let ?rp = "\<lambda>n. if n = ''/srv//a.css'' then Some ''/srv/a.css'' else None"
  let ?q = "zero_http_req\<lparr>req_uri := \<lparr>bytes = ''/a.css'', cap = 4096\<rparr>, req_path := Some 0, req_path_n := 6\<rparr>"
  let ?w = "\<lparr>bytes = ''/srv'', cap = 256\<rparr>"
  have d: "url_decode ''/a.css'' = ''/a.css''" by (simp add: url_decode_plain url_decode_short)
  have a: "file_answer ?st ?rp ''/srv'' ''/a.css'' = 0"
    by (simp add: file_answer_def candidate_def d uri_code_def uri_cut_def suffix_def)
  have q: "req_path ?q = Some 0" "req_path_n ?q = length ''/a.css''"
    "rd_n (req_uri ?q) 0 (length ''/a.css'') = Some ''/a.css''"
    by (simp_all add: rd_n_def eval_simps)
  have w: "wf_buf ?w" "cstr ?w 0 = Some ''/srv''" by (simp_all add: wf_buf_def cstr_def)
  obtain f where f: "file_parse ?st ?rp ?q ?w 256 = Some (0, f)"
    using file_parse_answers [OF q _ _ w, of 256 ?rp ?st] a d by auto
  show ?thesis
    using served_file_has_root_prefix [OF f w] f by auto
qed




end
