(* ===== verification/Http_Request.thy ===== *)
theory Http_Request
  imports Types
begin

text \<open>
  The request side of \<open>src/net_http.c\<close>: the request line, the split of the URI, the header
  lines and the check of the \<open>Origin\<close> header.  A pointer into \<open>req_buf\<close> is an offset.  The
  diagnostics on \<open>stderr\<close> are not modelled; they change no state.
\<close>

section \<open>The request line\<close>

definition line_parse :: "cbuf \<Rightarrow> fws_http_req \<Rightarrow> (s32 \<times> fws_http_req) option" where
  "line_parse req_buf http_req = do {
     let p1 = 0;
     r \<leftarrow> memchr req_buf p1 (CHR '' '') (cap (req_method http_req));
     case r of None \<Rightarrow> Some (1, http_req)
     | Some p2 \<Rightarrow>
         (let n = p2 - p1 in
          if cap (req_method http_req) \<le> n then Some (1, http_req)
          else do {
            s \<leftarrow> rd_n req_buf p1 n;
            f \<leftarrow> put_str (req_method http_req) s;
            let http_req = http_req\<lparr>req_method := f\<rparr>;
            let p1 = p1 + (n + 1);
            r \<leftarrow> memchr req_buf p1 (CHR '' '') (cap (req_uri http_req));
            case r of None \<Rightarrow> Some (1, http_req)
            | Some p2 \<Rightarrow>
                (let n = p2 - p1 in
                 if cap (req_uri http_req) \<le> n then Some (1, http_req)
                 else do {
                   s \<leftarrow> rd_n req_buf p1 n;
                   f \<leftarrow> put_str (req_uri http_req) s;
                   let http_req = http_req\<lparr>req_uri := f\<rparr>;
                   let p1 = p1 + (n + 1);
                   r \<leftarrow> memchr req_buf p1 CR (cap (req_version http_req));
                   case r of None \<Rightarrow> Some (1, http_req)
                   | Some p2 \<Rightarrow>
                       (let n = p2 - p1 in
                        if cap (req_version http_req) \<le> n then Some (1, http_req)
                        else do {
                          s \<leftarrow> rd_n req_buf p1 n;
                          f \<leftarrow> put_str (req_version http_req) s;
                          Some (0, http_req\<lparr>req_version := f\<rparr>)
                        })
                 })
          })
   }"

definition uri_parse :: "fws_http_req \<Rightarrow> fws_http_req option" where
  "uri_parse http_req = do {
     uri_len \<leftarrow> strnlen (req_uri http_req) 0 (cap (req_uri http_req));
     let http_req = http_req\<lparr>req_path := Some 0\<rparr>;
     r \<leftarrow> memchr (req_uri http_req) 0 (CHR ''?'') uri_len;
     Some (case r of None \<Rightarrow> http_req\<lparr>req_path_n := uri_len\<rparr>
           | Some p2 \<Rightarrow> http_req\<lparr>req_path_n := p2, req_query := Some (p2 + 1),
                                 req_query_n := uri_len - (p2 + 1)\<rparr>)
   }"

section \<open>The header lines\<close>

datatype key_idx = HOST | UA | AL | ORIGIN | ETAG

definition keyword :: "(key_idx \<times> string) list" where
  "keyword = [(HOST, ''host''), (UA, ''user-agent''), (AL, ''accept-language''),
     (ORIGIN, ''origin''), (ETAG, ''if-none-match'')]"

definition os_type :: "string list" where
  "os_type = [''android'', ''windows'', ''iphone'', ''ipad'', ''macintoch'', ''linux'']"

definition browser_type :: "string list" where
  "browser_type = [''fxios'', ''crios'', ''firefox'', ''edg'', ''chrome'', ''safari'']"

text \<open>
  The search for the keyword of a line.  The source bounds the comparison by
  \<open>sizeof(keyword[i])\<close>, the size of a pointer: at most 8 bytes of the keyword count.
\<close>

primrec find_keyword :: "cbuf \<Rightarrow> nat \<Rightarrow> (key_idx \<times> string) list \<Rightarrow> key_idx option option" where
  "find_keyword b p1 [] = Some None"
| "find_keyword b p1 (kw # kws) = do {
     same \<leftarrow> mem_eq b p1 (take 8 (snd kw));
     if same then Some (Some (fst kw)) else find_keyword b p1 kws
   }"

function skip_spaces :: "cbuf \<Rightarrow> nat \<Rightarrow> nat option" where
  "skip_spaces b p =
     do { c \<leftarrow> rd b p; if c = CHR '' '' then skip_spaces b (p + 1) else Some p }"
  by pat_completeness auto
termination by (relation "measure (\<lambda>(b, p). cap b - p)") (auto simp: rd_eq_Some)

declare skip_spaces.simps [simp del]

text \<open>The end of the first language: a comma, a semicolon or a line feed.\<close>

function lang_end :: "cbuf \<Rightarrow> nat \<Rightarrow> nat option" where
  "lang_end b p =
     do { c \<leftarrow> rd b p;
          if c = CHR '','' then Some p
          else if c = CHR '';'' then Some p
          else if c = LF then Some p
          else lang_end b (p + 1) }"
  by pat_completeness auto
termination by (relation "measure (\<lambda>(b, p). cap b - p)") (auto simp: rd_eq_Some)

declare lang_end.simps [simp del]

text \<open>
  The search for one operating system or browser name in the value \<open>[p3, p2]\<close>.  The source
  adds one to the length of the name: the comparison includes its terminating zero.
\<close>

function ua_scan :: "cbuf \<Rightarrow> nat \<Rightarrow> nat \<Rightarrow> string \<Rightarrow> bool option" where
  "ua_scan b p3 p2 name = do {
     r \<leftarrow> memchr b p3 (hd name) (Suc p2 - p3);
     case r of None \<Rightarrow> Some False
     | Some p4 \<Rightarrow> do {
         same \<leftarrow> mem_eq b p4 (name @ [NUL]);
         if same then Some True else ua_scan b (p4 + 1) p2 name
       }
   }"
  by pat_completeness auto
termination
proof (relation "measure (\<lambda>(b, p3, p2, name). Suc p2 - p3)")
  fix b p3 p2 name r p4 same
  assume "memchr b p3 (hd name) (Suc p2 - p3) = Some r" "r = Some p4"
  then have "p3 \<le> p4" "p4 < p3 + (Suc p2 - p3)" using memchr_SomeD(1,2) by blast+
  then show "((b, p4 + 1, p2, name), b, p3, p2, name) \<in> measure (\<lambda>(b, p3, p2, name). Suc p2 - p3)"
    by auto
qed simp

declare ua_scan.simps [simp del]

primrec ua_find :: "cbuf \<Rightarrow> nat \<Rightarrow> nat \<Rightarrow> string list \<Rightarrow> string option" where
  "ua_find b p1 p2 [] = Some ''-''"
| "ua_find b p1 p2 (name # names) =
     do { found \<leftarrow> ua_scan b p1 p2 name; if found then Some name else ua_find b p1 p2 names }"

text \<open>
  One line either ends the function (\<open>return\<close>) or goes on at the next line.
\<close>

datatype line_step = Return s32 fws_http_req | Continue fws_http_req nat

definition host_value :: "cbuf \<Rightarrow> nat \<Rightarrow> cbuf \<Rightarrow> fws_http_req \<Rightarrow> nat \<Rightarrow> line_step option" where
  "host_value domain domain_n b http_req p1 = do {
     c \<leftarrow> rd (req_subdomain http_req) 0;
     if c \<noteq> NUL then Some (Return 1 http_req)
     else do {
       dl \<leftarrow> strnlen domain 0 domain_n;
       d \<leftarrow> rd_n domain 0 dl;
       own \<leftarrow> mem_eq b p1 d;
       if own then do {
         f \<leftarrow> wr (req_subdomain http_req) 0 (''www'' @ [NUL]);
         Some (Continue (http_req\<lparr>req_subdomain := f\<rparr>) p1)
       } else do {
         r \<leftarrow> memchr b p1 (CHR ''.'') (cap (req_subdomain http_req));
         let n = (case r of None \<Rightarrow> 0 | Some p2 \<Rightarrow> p2 - p1);
         s \<leftarrow> rd_n b p1 n;
         f \<leftarrow> put_str (req_subdomain http_req) s;
         Some (Continue (http_req\<lparr>req_subdomain := f\<rparr>) p1)
       }
     }
   }"

definition ua_value :: "cbuf \<Rightarrow> fws_http_req \<Rightarrow> nat \<Rightarrow> nat \<Rightarrow> line_step option" where
  "ua_value b http_req p1 p2 = do {
     c1 \<leftarrow> rd (req_os http_req) 0;
     c2 \<leftarrow> rd (req_browser http_req) 0;
     if c1 \<noteq> NUL \<or> c2 \<noteq> NUL then Some (Return 1 http_req)
     else do {
       os \<leftarrow> ua_find b p1 p2 os_type;
       f \<leftarrow> wr (req_os http_req) 0 (os @ [NUL]);
       browser \<leftarrow> ua_find b p1 p2 browser_type;
       g \<leftarrow> wr (req_browser http_req) 0 (browser @ [NUL]);
       Some (Continue (http_req\<lparr>req_os := f, req_browser := g\<rparr>) p1)
     }
   }"

definition lang_value :: "cbuf \<Rightarrow> fws_http_req \<Rightarrow> nat \<Rightarrow> line_step option" where
  "lang_value b http_req p1 = do {
     c \<leftarrow> rd (req_lang http_req) 0;
     if c \<noteq> NUL then Some (Return 1 http_req)
     else do {
       p2 \<leftarrow> lang_end b p1;
       s \<leftarrow> rd_n b p1 (p2 - p1);
       f \<leftarrow> put_str (req_lang http_req) s;
       Some (Continue (http_req\<lparr>req_lang := f\<rparr>) p1)
     }
   }"

definition origin_value :: "cbuf \<Rightarrow> fws_http_req \<Rightarrow> nat \<Rightarrow> nat \<Rightarrow> line_step option" where
  "origin_value b http_req p1 n = do {
     s \<leftarrow> rd_n b p1 n;
     f \<leftarrow> put_str (req_origin http_req) s;
     Some (Continue (http_req\<lparr>req_origin := f\<rparr>) p1)
   }"

definition etag_value :: "cbuf \<Rightarrow> fws_http_req \<Rightarrow> nat \<Rightarrow> nat \<Rightarrow> line_step option" where
  "etag_value b http_req p1 n = do {
     c \<leftarrow> rd b p1;
     if c \<noteq> DQ then Some (Continue http_req p1)
     else do {
       let p_etag_start = p1 + 1;
       r \<leftarrow> memchr b p_etag_start DQ (n - 1);
       case r of None \<Rightarrow> Some (Continue http_req p1)
       | Some p_etag_end \<Rightarrow>
           (let etag_len = p_etag_end - p_etag_start in
            if cap (req_etag http_req) \<le> etag_len then Some (Continue http_req p1)
            else do {
              s \<leftarrow> rd_n b p_etag_start etag_len;
              f \<leftarrow> put_str (req_etag http_req) s;
              Some (Continue (http_req\<lparr>req_etag := f\<rparr>) p1)
            })
     }
   }"

text \<open>The body of the \<open>for\<close> loop for the matching keyword; \<open>p1\<close> is behind the colon.\<close>

definition header_value ::
  "cbuf \<Rightarrow> nat \<Rightarrow> key_idx \<Rightarrow> cbuf \<Rightarrow> fws_http_req \<Rightarrow> nat \<Rightarrow> line_step option" where
  "header_value domain domain_n k b http_req p1 = do {
     r \<leftarrow> memchr b p1 CR 1024;
     case r of None \<Rightarrow> Some (Return 1 http_req)
     | Some p2 \<Rightarrow> do {
         p1 \<leftarrow> skip_spaces b p1;
         let n = p2 - p1;
         case k of
           HOST \<Rightarrow> host_value domain domain_n b http_req p1
         | UA \<Rightarrow> ua_value b http_req p1 p2
         | AL \<Rightarrow> lang_value b http_req p1
         | ORIGIN \<Rightarrow> origin_value b http_req p1 n
         | ETAG \<Rightarrow> etag_value b http_req p1 n
       }
   }"

text \<open>The end of the loop body: to the line end from \<open>p1\<close> on.\<close>

definition header_end :: "cbuf \<Rightarrow> fws_http_req \<Rightarrow> nat \<Rightarrow> line_step option" where
  "header_end b http_req p1 = do {
     r \<leftarrow> memchr b p1 CR 1024;
     case r of None \<Rightarrow> Some (Return 1 http_req)
     | Some p2 \<Rightarrow> do {
         c \<leftarrow> rd b (p2 + 1);
         if c \<noteq> LF then Some (Return 1 http_req) else Some (Continue http_req (p2 + 2))
       }
   }"

definition header_line :: "cbuf \<Rightarrow> nat \<Rightarrow> cbuf \<Rightarrow> fws_http_req \<Rightarrow> nat \<Rightarrow> line_step option" where
  "header_line domain domain_n b http_req p1 = do {
     r \<leftarrow> memchr b p1 (CHR '':'') 64;
     case r of None \<Rightarrow> Some (Return 1 http_req)
     | Some p2 \<Rightarrow> do {
         k \<leftarrow> find_keyword b p1 keyword;
         st \<leftarrow> (case k of None \<Rightarrow> Some (Continue http_req p1)
                | Some k \<Rightarrow> header_value domain domain_n k b http_req (p2 + 1));
         case st of Return ret http_req \<Rightarrow> Some (Return ret http_req)
         | Continue http_req p1 \<Rightarrow> header_end b http_req p1
       }
   }"

subsection \<open>Every line makes progress\<close>

text \<open>The value starts at or behind \<open>p\<close>; the next line starts behind it, within the array.\<close>

definition goes_on :: "nat \<Rightarrow> line_step \<Rightarrow> bool" where
  "goes_on p st = (case st of Return _ _ \<Rightarrow> True | Continue _ p' \<Rightarrow> p \<le> p')"

lemma goes_on_simps [simp]: "goes_on p (Return c q)" "goes_on p (Continue q p') \<longleftrightarrow> p \<le> p'"
  by (simp_all add: goes_on_def)

lemma skip_spaces_le: "skip_spaces b p = Some p' \<Longrightarrow> p \<le> p'"
proof (induction b p rule: skip_spaces.induct)
  case (1 b p)
  from "1.prems" show ?case
    by (subst (asm) skip_spaces.simps)
      (auto simp: Option.bind_eq_Some_conv split: if_splits dest!: "1.IH")
qed

lemma header_value_goes_on: "pred_option (goes_on p) (header_value d dn k b q p)"
  unfolding header_value_def host_value_def ua_value_def lang_value_def origin_value_def
    etag_value_def Let_def
  by (cases k; simp only: key_idx.case; intro pred_rules) (auto dest: skip_spaces_le)

lemma header_line_progress:
  "pred_option (\<lambda>st. case st of Return _ _ \<Rightarrow> True | Continue _ p' \<Rightarrow> p < p' \<and> p' \<le> cap b)
     (header_line d dn b q p)"
proof -
  have e: "pred_option (\<lambda>st. case st of Return _ _ \<Rightarrow> True | Continue _ p' \<Rightarrow> p < p' \<and> p' \<le> cap b)
      (header_end b q' p1)" if "p \<le> p1" for q' p1
    unfolding header_end_def using that
    by (intro pred_rules) (auto dest: memchr_SomeD(1) simp: rd_eq_Some)
  have v: "p < p'" if "header_value d dn k b q (Suc x) = Some (Continue q' p')"
    "memchr b p (CHR '':'') 64 = Some (Some x)" for k q' p' x
    using pred_SomeD [OF header_value_goes_on that(1)] memchr_SomeD(1) [OF that(2)] by simp
  show ?thesis
    unfolding header_line_def
    by (intro pred_rules)
      (auto split: line_step.split option.splits intro!: e dest: v)
qed

function header_loop ::
  "cbuf \<Rightarrow> nat \<Rightarrow> cbuf \<Rightarrow> fws_http_req \<Rightarrow> nat \<Rightarrow> (s32 \<times> fws_http_req) option" where
  "header_loop domain domain_n b http_req p1 = do {
     last_line \<leftarrow> mem_eq b p1 crlf;
     if last_line then Some (0, http_req)
     else do {
       st \<leftarrow> header_line domain domain_n b http_req p1;
       case st of Return ret http_req \<Rightarrow> Some (ret, http_req)
       | Continue http_req p1 \<Rightarrow> header_loop domain domain_n b http_req p1
     }
   }"
  by pat_completeness auto
termination
  by (relation "measure (\<lambda>(d, dn, b, q, p1). cap b - p1)")
    (auto dest!: pred_SomeD [OF header_line_progress])

declare header_loop.simps [simp del]

definition header_parse ::
  "cbuf \<Rightarrow> fws_http_req \<Rightarrow> cbuf \<Rightarrow> nat \<Rightarrow> (s32 \<times> fws_http_req) option" where
  "header_parse req_buf http_req domain domain_n = do {
     r \<leftarrow> memchr req_buf 0 CR 1024;
     case r of None \<Rightarrow> Some (1, http_req)
     | Some p2 \<Rightarrow> do {
         c \<leftarrow> rd req_buf (p2 + 1);
         if c \<noteq> LF then Some (1, http_req)
         else header_loop domain domain_n req_buf http_req (p2 + 2)
       }
   }"

section \<open>The whole request\<close>

text \<open>The loop that turns the request into lower case; \<open>strnlen\<close> is evaluated in every round.\<close>

function lower_loop :: "cbuf \<Rightarrow> nat \<Rightarrow> cbuf option" where
  "lower_loop req_buf i = do {
     n \<leftarrow> strnlen req_buf 0 8192;
     if i < n then do {
       c \<leftarrow> rd req_buf i;
       b \<leftarrow> wr req_buf i [tolower c];
       lower_loop b (i + 1)
     } else Some req_buf
   }"
  by pat_completeness auto
termination
  by (relation "measure (\<lambda>(b, i). cap b - i)") (auto simp: rd_eq_Some dest: wr_SomeD(2))

declare lower_loop.simps [simp del]

definition net_http_req_parse :: "cbuf \<Rightarrow> cbuf \<Rightarrow> nat \<Rightarrow> (s32 \<times> cbuf \<times> fws_http_req) option" where
  "net_http_req_parse req_buf domain domain_n = do {
     let http_req = zero_http_req;
     (_, http_req) \<leftarrow> line_parse req_buf http_req;
     http_req \<leftarrow> uri_parse http_req;
     req_buf \<leftarrow> lower_loop req_buf 0;
     (_, http_req) \<leftarrow> header_parse req_buf http_req domain domain_n;
     Some (0, req_buf, http_req)
   }"

section \<open>The Origin header\<close>

text \<open>
  A match at the start of the array makes the source read the byte before it: undefined
  behaviour, \<open>None\<close> here.
\<close>

definition net_http_origin_self_check :: "fws_http_req \<Rightarrow> fws_conf \<Rightarrow> bool option" where
  "net_http_origin_self_check http_req conf_p = do {
     let origin = req_origin http_req;
     domain_len \<leftarrow> strnlen (conf_domain conf_p) 0 (cap (conf_domain conf_p));
     if domain_len = cap (conf_domain conf_p) then Some False
     else do {
       d \<leftarrow> rd_n (conf_domain conf_p) 0 domain_len;
       r \<leftarrow> memmem origin 0 (cap origin) d;
       case r of None \<Rightarrow> Some False
       | Some p_scan \<Rightarrow> do {
           c1 \<leftarrow> (if p_scan = 0 then None else rd origin (p_scan - 1));
           if c1 \<noteq> CHR ''.'' \<and> c1 \<noteq> CHR ''/'' then Some False
           else do {
             c2 \<leftarrow> rd origin (p_scan + domain_len);
             if c2 \<noteq> CHR '':'' \<and> c2 \<noteq> NUL then Some False else Some True
           }
         }
     }
   }"

section \<open>The header lines as text\<close>

text \<open>The fixed part of a header line, and the fields it may set.\<close>

definition hdr_text :: "string \<times> string \<Rightarrow> string" where
  "hdr_text h = fst h @ '': '' @ snd h @ crlf"

definition hdr_ok :: "string \<times> string \<Rightarrow> bool" where
  "hdr_ok h \<longleftrightarrow> CHR '':'' \<notin> set (fst h) \<and> CR \<notin> set (fst h) \<and> length (fst h) < 64 \<and>
     set (snd h) \<inter> {CR, LF, NUL} = {} \<and> length (fst h) + length (snd h) \<le> 1000 \<and>
     (snd h \<noteq> [] \<longrightarrow> hd (snd h) \<noteq> CHR '' '')"

definition hdr_key :: "string \<Rightarrow> key_idx option" where
  "hdr_key k = map_option fst (find (\<lambda>kw. prefix (take 8 (snd kw)) k) keyword)"

definition host_text :: "string \<Rightarrow> string \<Rightarrow> string" where
  "host_text own v = (if prefix own v then ''www'' else takeWhile (\<lambda>c. c \<noteq> CHR ''.'') v)"

definition lang_text :: "string \<Rightarrow> string" where
  "lang_text v = takeWhile (\<lambda>c. c \<noteq> CHR '','' \<and> c \<noteq> CHR '';'') (v @ [CR])"

definition etag_text :: "string \<Rightarrow> string option" where
  "etag_text v = (case v of [] \<Rightarrow> None | c # t \<Rightarrow>
     (let e = takeWhile (\<lambda>c. c \<noteq> DQ) t in
      if c = DQ \<and> DQ \<in> set t \<and> length e < 32 then Some e else None))"

definition unset :: "cbuf \<Rightarrow> bool" where
  "unset b \<longleftrightarrow> byte_at b 0 = NUL"

lemma prefix_cut: "c \<notin> set x \<Longrightarrow> prefix x (k @ c # rest) \<longleftrightarrow> prefix x k"
  by (auto simp: prefix_append prefix_Cons)

lemma find_keyword_is:
  assumes h: "holds b p (k @ CHR '':'' # rest)" and len: "8 \<le> length rest"
    and kws: "\<forall>kw \<in> set kws. CHR '':'' \<notin> set (snd kw)"
  shows "find_keyword b p kws = Some (map_option fst (find (\<lambda>kw. prefix (take 8 (snd kw)) k) kws))"
  using kws
proof (induction kws)
  case (Cons kw kws)
  have "CHR '':'' \<notin> set (take 8 (snd kw))" using Cons.prems by (auto dest: in_set_takeD)
  then have "mem_eq b p (take 8 (snd kw)) = Some (prefix (take 8 (snd kw)) k)"
    using mem_eq_holds [OF h, of "take 8 (snd kw)"] len prefix_cut by simp
  with Cons show ?case by simp
qed simp

lemma keyword_no_colon: "\<forall>kw \<in> set keyword. CHR '':'' \<notin> set (snd kw)"
  by (simp add: keyword_def)

lemma skip_spaces_is:
  assumes "holds b p (CHR '' '' # v @ CR # rest)" and "v \<noteq> [] \<longrightarrow> hd v \<noteq> CHR '' ''"
  shows "skip_spaces b p = Some (Suc p)"
proof -
  obtain c t where c: "v @ CR # rest = c # t" "c \<noteq> CHR '' ''" using assms(2) by (cases v) auto
  then have "rd b p = Some (CHR '' '')" "rd b (Suc p) = Some c"
    using assms(1) by (simp_all add: holds_Cons)
  with c(2) show ?thesis
    by (subst skip_spaces.simps, simp) (subst skip_spaces.simps, simp)
qed

lemma lang_end_is:
  assumes "holds b p (v @ CR # LF # rest)" "LF \<notin> set v"
  shows "lang_end b p = Some (p + length (lang_text v))"
  using assms
proof (induction v arbitrary: p)
  case Nil
  then show ?case
    by (subst lang_end.simps, subst lang_end.simps) (simp add: holds_Cons lang_text_def)
next
  case (Cons c v)
  then show ?case
    by (subst lang_end.simps) (auto simp: holds_Cons lang_text_def)
qed

lemma no_NUL_match: "NUL \<notin> set v \<Longrightarrow> CR \<notin> set name \<Longrightarrow> \<not> prefix (name @ [NUL]) (v @ CR # rest)"
proof (induction v arbitrary: name)
  case Nil
  then show ?case by (cases name) auto
next
  case (Cons c v)
  then show ?case by (cases name) auto
qed

lemma ua_scan_never:
  assumes "holds b p (v @ CR # rest)" "NUL \<notin> set v" "CR \<notin> set name" "length name \<le> 9" "9 \<le> length rest"
    and "p \<le> p3" "p2 = p + length v"
  shows "ua_scan b p3 p2 name = Some False"
  using assms(6)
proof (induction "Suc p2 - p3" arbitrary: p3 rule: less_induct)
  case less
  have hv: "holds b p (v @ CR # rest)" by fact
  then have cap: "p + length (v @ CR # rest) \<le> cap b" by (rule holds_le_cap) simp
  obtain r where r: "memchr b p3 (hd name) (Suc p2 - p3) = Some r"
    using memchr_defined [of p3 "Suc p2 - p3" b "hd name"] cap assms(5,7) less.prems
    by (cases "p3 \<le> Suc p2") auto
  show ?case
  proof (cases r)
    case None
    with r show ?thesis by (subst ua_scan.simps) simp
  next
    case (Some p4)
    note m = memchr_SomeD(1,2) [OF r [unfolded Some]]
    let ?i = "p4 - p"
    have i: "?i \<le> length v" "p4 = p + ?i" using m less.prems assms(7) by auto
    have h: "holds b p4 (drop ?i v @ CR # rest)"
      using holds_drop [OF hv, of ?i] i by simp
    have "\<not> prefix (name @ [NUL]) (drop ?i v @ CR # rest)"
      using no_NUL_match assms(2,3) by (metis in_set_dropD)
    then have "mem_eq b p4 (name @ [NUL]) = Some False"
      using mem_eq_holds [OF h, of "name @ [NUL]"] assms(4,5) by simp
    moreover have "ua_scan b (Suc p4) p2 name = Some False"
      using less.hyps [of "Suc p4"] m less.prems by linarith
    ultimately show ?thesis using r Some by (subst ua_scan.simps) simp
  qed
qed

lemma ua_find_never:
  assumes "holds b p (v @ CR # rest)" "NUL \<notin> set v" "9 \<le> length rest"
    and "\<forall>name \<in> set names. CR \<notin> set name \<and> length name \<le> 9"
  shows "ua_find b p (p + length v) names = Some ''-''"
  using assms(4) ua_scan_never [OF assms(1,2) _ _ assms(3) le_refl refl]
  by (induction names) auto


definition hdr_set :: "string \<Rightarrow> string \<times> string \<Rightarrow> fws_http_req \<Rightarrow> (bool \<times> fws_http_req) option" where
  "hdr_set own h q =
     (let v = snd h in
      case hdr_key (fst h) of
        None \<Rightarrow> Some (True, q)
      | Some HOST \<Rightarrow>
          if unset (req_subdomain q) then do {
            f \<leftarrow> put_str (req_subdomain q) (host_text own v); Some (True, q\<lparr>req_subdomain := f\<rparr>) }
          else Some (False, q)
      | Some UA \<Rightarrow>
          if unset (req_os q) \<and> unset (req_browser q) then do {
            f \<leftarrow> put_str (req_os q) ''-''; g \<leftarrow> put_str (req_browser q) ''-'';
            Some (True, q\<lparr>req_os := f, req_browser := g\<rparr>) }
          else Some (False, q)
      | Some AL \<Rightarrow>
          if unset (req_lang q) then do {
            f \<leftarrow> put_str (req_lang q) (lang_text v); Some (True, q\<lparr>req_lang := f\<rparr>) }
          else Some (False, q)
      | Some ORIGIN \<Rightarrow> do {
          f \<leftarrow> put_str (req_origin q) v; Some (True, q\<lparr>req_origin := f\<rparr>) }
      | Some ETAG \<Rightarrow>
          (case etag_text v of None \<Rightarrow> Some (True, q)
           | Some e \<Rightarrow> do { f \<leftarrow> put_str (req_etag q) e; Some (True, q\<lparr>req_etag := f\<rparr>) }))"

definition host_ok :: "string \<Rightarrow> string \<times> string \<Rightarrow> bool" where
  "host_ok own h \<longleftrightarrow>
     (hdr_key (fst h) = Some HOST \<longrightarrow>
        prefix own (snd h) \<or> CHR ''.'' \<in> set (take 64 (snd h)))"

text \<open>The outcome of a step, at the place \<open>p'\<close> where it continues.\<close>

definition step_at :: "nat \<Rightarrow> (bool \<times> fws_http_req) option \<Rightarrow> line_step option" where
  "step_at p' r = map_option (\<lambda>(go, q). if go then Continue q p' else Return 1 q) r"

lemma header_value_is:
  assumes v: "holds b p (CHR '' '' # v @ CR # LF # rest)" "length rest \<ge> 128"
    and ok: "hdr_ok (k, v)" "hdr_key k = Some key" "host_ok own (k, v)"
    and own: "wf_buf domain" "cstr domain 0 = Some own" "length own < 128" "cap domain = 128"
      "CR \<notin> set own"
    and q: "wf_req q"
  shows "header_value domain 128 key b q p = step_at (Suc p) (hdr_set own (k, v) q)"
proof -
  have sp: "skip_spaces b p = Some (Suc p)"
    using skip_spaces_is [of b p v "LF # rest"] v(1) ok(1) by (simp add: hdr_ok_def)
  have cr: "memchr b p CR 1024 = Some (Some (Suc p + length v))"
    using memchr_holds [of b p "CHR '' '' # v" CR "LF # rest" 1024] v(1) ok(1) by (auto simp: hdr_ok_def)
  have hv: "holds b (Suc p) (v @ CR # LF # rest)" using v(1) by (simp add: holds_Cons)
  have first: "byte_at c 0 = NUL \<longleftrightarrow> unset c" "0 < cap c \<Longrightarrow> rd c 0 = Some (byte_at c 0)" for c
    by (simp_all add: unset_def rd_def)
  show ?thesis
  proof (cases key)
    case HOST
    note hst = HOST
    have d: "strnlen domain 0 128 = Some (length own)" "rd_n domain 0 (length own) = Some own"
      using strnlen_cstr [OF own(1,2), of 128] own holds_rd_n [of domain 0 "own @ [NUL]" "length own"]
      by (simp_all add: cstr_iff)
    have pre: "mem_eq b (Suc p) own = Some (prefix own v)"
      using mem_eq_holds [OF hv, of own] own(3,5) v(2) by (simp add: prefix_cut)
    show ?thesis
    proof (cases "prefix own v")
      case True
      then show ?thesis
        using HOST sp cr ok(2) q d pre
        by (simp add: header_value_def host_value_def hdr_set_def step_at_def wf_req_def first
            host_text_def map_option_bind o_def put_str_eq)
    next
      case False
      then have "CHR ''.'' \<in> set (take 64 v)" using ok(2,3) HOST by (simp add: host_ok_def)
      from first_byte [OF hv this] have "memchr b (Suc p) (CHR ''.'') 64 =
          Some (Some (Suc p + length (takeWhile (\<lambda>c. c \<noteq> CHR ''.'') v)))"
        "rd_n b (Suc p) (length (takeWhile (\<lambda>c. c \<noteq> CHR ''.'') v)) = Some (takeWhile (\<lambda>c. c \<noteq> CHR ''.'') v)"
        by simp_all
      with False show ?thesis
        using HOST sp cr ok(2) q d pre
        by (simp add: header_value_def host_value_def hdr_set_def step_at_def wf_req_def first
            host_text_def map_option_bind o_def)
    qed
  next
    case UA
    have "ua_find b (Suc p) (Suc p + length v) os_type = Some ''-''"
      "ua_find b (Suc p) (Suc p + length v) browser_type = Some ''-''"
      by (rule ua_find_never [OF hv]; use ok(1) v(2) in \<open>simp add: hdr_ok_def os_type_def browser_type_def\<close>)+
    then show ?thesis
      using UA sp cr ok(2) q
      by (simp add: header_value_def ua_value_def hdr_set_def step_at_def wf_req_def first
          map_option_bind o_def put_str_eq)
  next
    case AL
    have "lang_end b (Suc p) = Some (Suc p + length (lang_text v))"
      by (rule lang_end_is [OF hv]) (use ok(1) in \<open>auto simp: hdr_ok_def\<close>)
    moreover have "rd_n b (Suc p) (length (lang_text v)) = Some (lang_text v)"
    proof -
      have "holds b (Suc p) ((v @ [CR]) @ LF # rest)" using hv by simp
      moreover have "lang_text v = take (length (lang_text v)) (v @ [CR])"
        unfolding lang_text_def by (rule takeWhile_eq_take)
      moreover have "length (lang_text v) \<le> length (v @ [CR])"
        unfolding lang_text_def by (rule length_takeWhile_le)
      moreover have "take n ((v @ [CR]) @ LF # rest) = take n (v @ [CR])" if "n \<le> length (v @ [CR])" for n
        using that by (simp only: take_append) simp
      ultimately show ?thesis
        using holds_rd_n [of b "Suc p" "(v @ [CR]) @ LF # rest" "length (lang_text v)"]
        by (simp del: append_assoc take_append)
    qed
    ultimately show ?thesis
      using AL sp cr ok(2) q
      by (simp add: header_value_def lang_value_def hdr_set_def step_at_def wf_req_def first
          map_option_bind o_def)
  next
    case ORIGIN
    have "rd_n b (Suc p) (length v) = Some v" using holds_rd_n [OF hv, of "length v"] by simp
    then show ?thesis using ORIGIN sp cr ok(2)
      by (simp add: header_value_def origin_value_def hdr_set_def step_at_def map_option_bind o_def)
  next
    case ETAG
    show ?thesis
    proof (cases v)
      case Nil
      then show ?thesis using ETAG sp cr ok(2) hv
        by (simp add: header_value_def etag_value_def hdr_set_def step_at_def etag_text_def holds_Cons)
    next
      case (Cons c t)
      have c: "rd b (Suc p) = Some c" and ht: "holds b (Suc (Suc p)) (t @ CR # LF # rest)"
        using hv Cons by (simp_all add: holds_Cons)
      show ?thesis
      proof (cases "c = DQ \<and> DQ \<in> set t")
        case False
        have "memchr b (Suc (Suc p)) DQ (length t) = Some None" if "DQ \<notin> set t"
          by (rule memchr_holds_None [OF _ that]) (use ht in \<open>simp_all add: holds_append\<close>)
        with False show ?thesis using ETAG sp cr ok(2) c Cons
          by (auto simp: header_value_def etag_value_def hdr_set_def step_at_def etag_text_def)
      next
        case True
        then obtain e t' where t: "t = e @ DQ # t'" "DQ \<notin> set e" by (meson split_list_first)
        have tw: "takeWhile (\<lambda>c. c \<noteq> DQ) t = e"
          using t by simp
        have he: "holds b (Suc (Suc p)) (e @ DQ # (t' @ CR # LF # rest))" using ht t by simp
        from memchr_holds [OF this t(2), of "length t"] holds_rd_n [OF this, of "length e"] t(1)
        have "memchr b (Suc (Suc p)) DQ (length t) = Some (Some (Suc (Suc p) + length e))"
          "rd_n b (Suc (Suc p)) (length e) = Some e" by simp_all
        with True tw show ?thesis using ETAG sp cr ok(2) c Cons q
          by (auto simp: header_value_def etag_value_def hdr_set_def step_at_def etag_text_def
              wf_req_def Let_def map_option_bind o_def)
      qed
    qed
  qed
qed


lemma hdr_set_wf: "wf_req q \<Longrightarrow> pred_option (\<lambda>(go, q'). wf_req q') (hdr_set own h q)"
proof (cases "hdr_key (fst h)")
  case (Some key)
  assume "wf_req q"
  then show ?thesis
    unfolding hdr_set_def Let_def Some
    by (cases key; simp only: option.case key_idx.case; intro pred_rules)
      (auto simp: wf_req_def dest!: put_str_wf)
qed (simp add: hdr_set_def)

lemma header_line_is:
  assumes l: "holds b p (hdr_text h @ rest)" "length rest \<ge> 128"
    and ok: "hdr_ok h" "host_ok own h"
    and own: "wf_buf domain" "cstr domain 0 = Some own" "length own < 128" "cap domain = 128"
      "CR \<notin> set own"
    and q: "wf_req q"
  shows "header_line domain 128 b q p = step_at (p + length (hdr_text h)) (hdr_set own h q)"
proof -
  obtain k v where h: "h = (k, v)" by (cases h)
  have line: "holds b p (k @ CHR '':'' # CHR '' '' # v @ CR # LF # rest)"
    using l(1) h by (simp add: hdr_text_def)
  have colon: "memchr b p (CHR '':'') 64 = Some (Some (p + length k))"
    using memchr_holds [OF line, of 64] ok(1) h by (simp add: hdr_ok_def)
  have key: "find_keyword b p keyword = Some (hdr_key k)"
    using find_keyword_is [OF line _ keyword_no_colon] l(2) by (simp add: hdr_key_def)
  have hv: "holds b (Suc (p + length k)) (CHR '' '' # v @ CR # LF # rest)"
    using line by (simp add: holds_append holds_Cons)
  let ?stop = "p + length (hdr_text h)"
  have e1: "header_end b q' (Suc (Suc (p + length k))) = Some (Continue q' ?stop)" for q'
  proof -
    have "holds b (Suc (Suc (p + length k))) (v @ CR # LF # rest)" using hv by (simp add: holds_Cons)
    from memchr_holds [OF this, of 1024] this show ?thesis using ok(1) h
      by (simp add: header_end_def hdr_ok_def hdr_text_def holds_append holds_Cons)
  qed
  have e2: "header_end b q' p = Some (Continue q' ?stop)" for q'
  proof -
    have "holds b p ((k @ CHR '':'' # CHR '' '' # v) @ CR # LF # rest)" using line by simp
    from memchr_holds [OF this, of 1024] this show ?thesis using ok(1) h
      by (simp add: header_end_def hdr_ok_def hdr_text_def holds_append holds_Cons add.assoc)
  qed
  show ?thesis
  proof (cases "hdr_key k")
    case None
    then show ?thesis using colon key e2 h by (simp add: header_line_def hdr_set_def step_at_def)
  next
    case (Some key')
    then show ?thesis
      using colon key e1 header_value_is [OF hv l(2) ok(1) [unfolded h] Some ok(2) [unfolded h] own q] h
      by (cases "hdr_set own h q") (auto simp: header_line_def step_at_def)
  qed
qed

primrec hdr_fold :: "string \<Rightarrow> (string \<times> string) list \<Rightarrow> fws_http_req \<Rightarrow> (s32 \<times> fws_http_req) option" where
  "hdr_fold own [] q = Some (0, q)"
| "hdr_fold own (h # hs) q = do {
     (go, q) \<leftarrow> hdr_set own h q; if go then hdr_fold own hs q else Some (1, q) }"

lemma header_loop_is:
  assumes own: "wf_buf domain" "cstr domain 0 = Some own" "length own < 128" "cap domain = 128"
      "CR \<notin> set own"
    and "holds b p (concat (map hdr_text hs) @ crlf @ tail)" "length tail \<ge> 128"
    and "\<forall>h \<in> set hs. hdr_ok h \<and> host_ok own h" "wf_req q"
  shows "header_loop domain 128 b q p = hdr_fold own hs q"
  using assms(6-)
proof (induction hs arbitrary: p q)
  case Nil
  then have "mem_eq b p crlf = Some True" using mem_eq_holds [OF Nil.prems(1), of crlf] by simp
  then show ?case by (subst header_loop.simps) simp
next
  case (Cons h hs)
  let ?rest = "concat (map hdr_text hs) @ crlf @ tail"
  have l: "holds b p (hdr_text h @ ?rest)" using Cons.prems(1) by simp
  have "\<not> prefix crlf (hdr_text h @ ?rest)"
    using Cons.prems(3) by (cases "fst h") (auto simp: hdr_text_def hdr_ok_def)
  then have n: "mem_eq b p crlf = Some False"
    using mem_eq_holds [OF l, of crlf] by (simp add: hdr_text_def)
  have st: "header_line domain 128 b q p = step_at (p + length (hdr_text h)) (hdr_set own h q)"
    by (rule header_line_is [OF l]) (use Cons.prems own in auto)
  have ht: "holds b (p + length (hdr_text h)) ?rest" using l by (simp add: holds_append)
  show ?case
  proof (cases "hdr_set own h q")
    case None
    then show ?thesis using n st by (subst header_loop.simps) (simp add: step_at_def)
  next
    case (Some r)
    obtain go q' where r: "r = (go, q')" by (cases r)
    have "wf_req q'" using pred_SomeD [OF hdr_set_wf Some] Cons.prems(4) r by simp
    then have "header_loop domain 128 b q' (p + length (hdr_text h)) = hdr_fold own hs q'"
      using Cons.IH [OF ht] Cons.prems by simp
    then show ?thesis using n st Some r by (subst header_loop.simps) (simp add: step_at_def)
  qed
qed


section \<open>The request as a whole\<close>

lemma line_parse_is:
  assumes h: "holds b 0 (m @ CHR '' '' # u @ CHR '' '' # v @ CR # rest)"
    and m: "CHR '' '' \<notin> set m" "length m < 16" and u: "CHR '' '' \<notin> set u" "length u < 4096"
    and v: "CR \<notin> set v" "length v < 16" and q: "wf_req q"
  shows "line_parse b q = do {
     f \<leftarrow> put_str (req_method q) m; g \<leftarrow> put_str (req_uri q) u; k \<leftarrow> put_str (req_version q) v;
     Some (0, q\<lparr>req_method := f, req_uri := g, req_version := k\<rparr>) }"
proof -
  have hu: "holds b (Suc (length m)) (u @ CHR '' '' # v @ CR # rest)"
    using h by (simp add: holds_append holds_Cons)
  have hv: "holds b (Suc (Suc (length m + length u))) (v @ CR # rest)"
    using hu by (simp add: holds_append holds_Cons)
  have f: "rd_n b p (length x) = Some x" if "holds b p (x @ c # y)" for p x c y
    using holds_rd_n [OF that, of "length x"] by simp
  show ?thesis
    using memchr_holds [OF h m(1), of 16] memchr_holds [OF hu u(1), of 4096] memchr_holds [OF hv v(1), of 16]
      f [OF h] f [OF hu] f [OF hv] m u v q
    by (simp add: line_parse_def wf_req_def)
qed

lemma uri_parse_is:
  assumes "holds (req_uri q) 0 (u @ [NUL])" "NUL \<notin> set u" "length u < cap (req_uri q)"
  shows "uri_parse q = Some (if CHR ''?'' \<in> set u
     then let n = length (takeWhile (\<lambda>c. c \<noteq> CHR ''?'') u) in
       q\<lparr>req_path := Some 0, req_path_n := n, req_query := Some (n + 1), req_query_n := length u - (n + 1)\<rparr>
     else q\<lparr>req_path := Some 0, req_path_n := length u\<rparr>)"
proof -
  have n: "strnlen (req_uri q) 0 (cap (req_uri q)) = Some (length u)"
    using strnlen_holds [OF assms(1,2)] assms(3) by simp
  show ?thesis
  proof (cases "CHR ''?'' \<in> set u")
    case True
    then obtain x y where xy: "u = x @ CHR ''?'' # y" "CHR ''?'' \<notin> set x" by (meson split_list_first)
    then have "takeWhile (\<lambda>c. c \<noteq> CHR ''?'') u = x" by simp
    moreover have "memchr (req_uri q) 0 (CHR ''?'') (length u) = Some (Some (length x))"
      using memchr_holds [of "req_uri q" 0 x "CHR ''?''" "y @ [NUL]" "length u"] assms(1) xy by simp
    ultimately show ?thesis using n True by (simp add: uri_parse_def Let_def)
  next
    case False
    then have "memchr (req_uri q) 0 (CHR ''?'') (length u) = Some None"
      using memchr_holds_None [of "req_uri q" 0 u "CHR ''?''" "length u"] assms(1) by (simp add: holds_append)
    with n False show ?thesis by (simp add: uri_parse_def Let_def)
  qed
qed

lemma in_lower:
  assumes "\<And>c. tolower c = d \<longleftrightarrow> c = d"
  shows "d \<in> tolower ` X \<longleftrightarrow> d \<in> X"
proof
  assume "d \<in> tolower ` X"
  then obtain c where "c \<in> X" "tolower c = d" by fastforce
  with assms show "d \<in> X" by simp
next
  assume "d \<in> X"
  then have "tolower d \<in> tolower ` X" by (rule imageI)
  then show "d \<in> tolower ` X" by (simp only: assms [THEN iffD2, OF refl])
qed

lemmas in_lower_simps [simp] = in_lower [OF tolower_NUL] in_lower [OF tolower_CR] in_lower [OF tolower_LF]

lemma lower_loop_is:
  assumes "holds b 0 (map tolower x @ y @ NUL # rest)" "NUL \<notin> set x" "NUL \<notin> set y"
    "length x + length y \<le> 8192"
  shows "\<exists>b'. lower_loop b (length x) = Some b' \<and> cap b' = cap b \<and>
     holds b' 0 (map tolower (x @ y) @ NUL # rest)"
  using assms
proof (induction y arbitrary: x b)
  case Nil
  have "strnlen b 0 8192 = Some (length x)"
    using strnlen_holds [of b 0 "map tolower x" 8192] Nil by (simp add: holds_append holds_Cons)
  then show ?case using Nil by (subst lower_loop.simps) simp
next
  case (Cons c y)
  have n: "strnlen b 0 8192 = Some (length x + Suc (length y))"
    using strnlen_holds [of b 0 "map tolower x @ c # y" 8192] Cons.prems by (simp add: holds_append holds_Cons)
  have c: "rd b (length x) = Some c" using Cons.prems(1) by (simp add: holds_append holds_Cons)
  then obtain b1 where b1: "wr b (length x) [tolower c] = Some b1"
    using wr_defined [of b "length x" "[tolower c]"] by (auto simp: rd_eq_Some)
  have h1: "holds b1 0 (map tolower (x @ [c]) @ y @ NUL # rest)"
    using holds_wr [OF b1] Cons.prems(1) holds_wr_other [OF b1, of 0 "map tolower x"]
      holds_wr_other [OF b1, of "Suc (length x)" "y @ NUL # rest"]
    by (simp add: holds_append holds_Cons)
  obtain b' where b': "lower_loop b1 (length (x @ [c])) = Some b'" "cap b' = cap b1"
    "holds b' 0 (map tolower ((x @ [c]) @ y) @ NUL # rest)"
    using Cons.IH [OF h1] Cons.prems by auto
  then show ?case using n c b1 wr_SomeD(2) [OF b1] by (subst lower_loop.simps) simp
qed

text \<open>A request as a client sends it.\<close>

definition req_text :: "string \<Rightarrow> string \<Rightarrow> string \<Rightarrow> (string \<times> string) list \<Rightarrow> string" where
  "req_text m u v hs =
     m @ CHR '' '' # u @ CHR '' '' # v @ CR # LF # concat (map hdr_text hs) @ crlf"

definition lower_hdr :: "string \<times> string \<Rightarrow> string \<times> string" where
  "lower_hdr h = (map tolower (fst h), map tolower (snd h))"

definition req_ok :: "string \<Rightarrow> string \<Rightarrow> string \<Rightarrow> string \<Rightarrow> (string \<times> string) list \<Rightarrow> bool" where
  "req_ok own m u v hs \<longleftrightarrow>
     CHR '' '' \<notin> set (m @ u) \<and> CR \<notin> set (m @ u @ v) \<and> NUL \<notin> set (m @ u @ v) \<and>
     length m < 16 \<and> length v < 16 \<and> length m + length u + length v \<le> 1000 \<and>
     (\<forall>h \<in> set hs. NUL \<notin> set (fst h) \<and> hdr_ok (lower_hdr h) \<and> host_ok own (lower_hdr h)) \<and>
     length (req_text m u v hs) < 8192"

definition uri_split :: "string \<Rightarrow> fws_http_req \<Rightarrow> fws_http_req" where
  "uri_split u q =
     (if CHR ''?'' \<in> set u
      then let n = length (takeWhile (\<lambda>c. c \<noteq> CHR ''?'') u) in
        q\<lparr>req_path := Some 0, req_path_n := n, req_query := Some (n + 1), req_query_n := length u - (n + 1)\<rparr>
      else q\<lparr>req_path := Some 0, req_path_n := length u\<rparr>)"

text \<open>The request line of a parsed request: the fields as C strings, the URI in its parts.\<close>

definition req_line :: "string \<Rightarrow> string \<Rightarrow> string \<Rightarrow> fws_http_req" where
  "req_line m u v = uri_split u (zero_http_req\<lparr>
     req_method := \<lparr>bytes = m @ [NUL], cap = 16\<rparr>, req_uri := \<lparr>bytes = u @ [NUL], cap = 4096\<rparr>,
     req_version := \<lparr>bytes = v @ [NUL], cap = 16\<rparr>\<rparr>)"

lemma NUL_lower_hdr: "NUL \<notin> set (fst h) \<Longrightarrow> hdr_ok (lower_hdr h) \<Longrightarrow> NUL \<notin> set (hdr_text h)"
  by (auto simp: hdr_text_def hdr_ok_def lower_hdr_def)

lemma lower_space [simp]: "tolower (CHR '' '') = CHR '' ''" and lower_colon [simp]: "tolower (CHR '':'') = CHR '':''"
  and lower_CR [simp]: "tolower CR = CR" and lower_LF [simp]: "tolower LF = LF"
  by (simp_all add: tolower_def)

lemma map_lower_hdr: "map tolower (hdr_text h) = hdr_text (lower_hdr h)"
  by (simp add: hdr_text_def lower_hdr_def)

lemma map_lower_req:
  "map tolower (req_text m u v hs) =
     req_text (map tolower m) (map tolower u) (map tolower v) (map lower_hdr hs)"
  by (simp add: req_text_def map_lower_hdr map_concat o_def)

lemma wf_req_line: "length m < 16 \<Longrightarrow> length u < 4096 \<Longrightarrow> length v < 16 \<Longrightarrow> wf_req (req_line m u v)"
  by (simp add: req_line_def uri_split_def wf_req_def wf_buf_def zbuf_def Let_def)

lemma req_parse_is:
  assumes b: "holds b 0 (req_text m u v hs @ NUL # tail)" "128 \<le> length tail"
    and ok: "req_ok own m u v hs"
    and own: "wf_buf domain" "cstr domain 0 = Some own" "length own < 128" "cap domain = 128"
      "CR \<notin> set own"
  shows "\<exists>b'. net_http_req_parse b domain 128 =
     map_option (\<lambda>(c, q). (0, b', q)) (hdr_fold own (map lower_hdr hs) (req_line m u v))"
proof -
  note [simp] = req_ok_def
  have len: "length m < 16" "length u < 4096" "length v < 16" using ok by auto
  have l: "holds b 0 (m @ CHR '' '' # u @ CHR '' '' # v @ CR # (LF # concat (map hdr_text hs) @ crlf @ NUL # tail))"
    using b(1) by (simp add: req_text_def)
  have line: "line_parse b zero_http_req = Some (0, zero_http_req\<lparr>
     req_method := \<lparr>bytes = m @ [NUL], cap = 16\<rparr>, req_uri := \<lparr>bytes = u @ [NUL], cap = 4096\<rparr>,
     req_version := \<lparr>bytes = v @ [NUL], cap = 16\<rparr>\<rparr>)" (is "_ = Some (0, ?q)")
    by (subst line_parse_is [OF l])
      (use ok len in \<open>simp_all add: put_str_zbuf\<close>)
  have u: "holds (req_uri ?q) 0 (u @ [NUL])"
    using len holds_bytes [of "\<lparr>bytes = u @ [NUL], cap = 4096\<rparr>"] by (simp add: wf_buf_def)
  have split: "uri_parse ?q = Some (req_line m u v)"
    using uri_parse_is [OF u] ok len by (simp add: req_line_def uri_split_def)
  have nn: "NUL \<notin> set (req_text m u v hs)"
    using ok NUL_lower_hdr by (fastforce simp: req_text_def)
  obtain b' where low: "lower_loop b 0 = Some b'"
    and b': "holds b' 0 (map tolower (req_text m u v hs) @ NUL # tail)"
    using lower_loop_is [of b "[]" "req_text m u v hs" tail] b nn ok by auto
  let ?l = "map tolower (m @ CHR '' '' # u @ CHR '' '' # v)" and ?hs = "map lower_hdr hs"
  have b2: "holds b' 0 (?l @ CR # LF # concat (map hdr_text ?hs) @ crlf @ NUL # tail)"
    using b' unfolding map_lower_req by (simp add: req_text_def)
  have "CR \<notin> set ?l" using ok by auto
  from memchr_holds [OF b2 this, of 1024]
  have cr: "memchr b' 0 CR 1024 = Some (Some (length ?l))" using ok by simp
  have lf: "rd b' (length ?l + 1) = Some LF" 
    and hs: "holds b' (length ?l + 2) (concat (map hdr_text ?hs) @ crlf @ NUL # tail)"
    using b2 by (simp_all add: holds_append holds_Cons add.assoc)
  have "header_parse b' (req_line m u v) domain 128 = hdr_fold own ?hs (req_line m u v)"
    using cr lf header_loop_is [OF own hs] ok len wf_req_line [of m u v] b(2)
    by (simp add: header_parse_def)
  with line split low show ?thesis
    by (cases "hdr_fold own ?hs (req_line m u v)") (auto simp: net_http_req_parse_def)
qed

section \<open>What holds of every request, whatever its bytes\<close>

lemma put_str_bytes: "put_str b s = Some b' \<Longrightarrow> set (bytes b') \<subseteq> set (bytes b) \<union> set s \<union> {NUL}"
  by (auto simp: put_str_eq wr_def split: if_splits dest: in_set_dropD)

text \<open>Every text field is terminated, so that it can be printed.\<close>

definition text_inv :: "fws_http_req \<Rightarrow> bool" where
  "text_inv q \<longleftrightarrow> list_all (\<lambda>b. cstr b 0 \<noteq> None) [req_version q, req_method q, req_subdomain q, req_uri q,
     req_lang q, req_os q, req_browser q, req_etag q, req_origin q]"

lemma wr_terminated: "wr b 0 (s @ [NUL]) = Some b' \<Longrightarrow> \<exists>t. cstr b' 0 = Some t"
proof -
  assume w: "wr b 0 (s @ [NUL]) = Some b'"
  have "length (takeWhile (\<lambda>c. c \<noteq> NUL) (s @ NUL # t)) \<le> length s" for t
    by (induction s) simp_all
  moreover obtain t where "bytes b' = s @ NUL # t" "length s < cap b'"
    using w by (auto simp: wr_def split: if_splits)
  ultimately show ?thesis by (auto simp: cstr_def Let_def intro: order_le_less_trans)
qed

lemma put_terminated: "put_str b s = Some b' \<Longrightarrow> \<exists>t. cstr b' 0 = Some t"
  unfolding put_str_eq by (rule wr_terminated)

text \<open>The fields a request line and the header lines leave behind on any input.\<close>

definition req_inv :: "fws_http_req \<Rightarrow> bool" where
  "req_inv q \<longleftrightarrow> wf_req q \<and> text_inv q \<and> CHR ''.'' \<notin> set (bytes (req_subdomain q)) \<and>
     DQ \<notin> set (bytes (req_etag q))"

lemma put_wf:
  "put_str b s = Some b' \<Longrightarrow> (wf_buf b \<longrightarrow> wf_buf b') \<and> cap b' = cap b \<and>
     set (bytes b') \<subseteq> set (bytes b) \<union> set s \<union> {NUL} \<and> (\<exists>t. cstr b' 0 = Some t)"
  using put_str_wf wr_SomeD(2) put_str_bytes put_terminated by (fastforce simp: put_str_eq)

lemma req_inv_zero: "req_inv zero_http_req"
proof -
  have "text_inv zero_http_req" by (simp add: text_inv_def)
  then show ?thesis by (simp add: req_inv_def zbuf_def)
qed

lemma line_parse_inv: "req_inv q \<Longrightarrow> pred_option (\<lambda>(c, q'). req_inv q') (line_parse b q)"
  unfolding line_parse_def Let_def
  by (intro pred_rules) (auto simp: req_inv_def wf_req_def text_inv_def dest!: put_wf)

lemma uri_parse_inv: "req_inv q \<Longrightarrow> pred_option req_inv (uri_parse q)"
  unfolding uri_parse_def Let_def
  by (intro pred_rules) (auto simp: req_inv_def wf_req_def text_inv_def split: option.split)

definition step_inv :: "line_step \<Rightarrow> bool" where
  "step_inv st = (case st of Return _ q \<Rightarrow> req_inv q | Continue q _ \<Rightarrow> req_inv q)"

lemma step_inv_simps [simp]: "step_inv (Return c q) = req_inv q" "step_inv (Continue q p) = req_inv q"
  by (simp_all add: step_inv_def)

lemma rd_n_memchr:
  assumes "memchr b p c n = Some (Some q)" "rd_n b p (q - p) = Some s" shows "c \<notin> set s"
  using memchr_at_blk(2) [OF assms(1)] assms(2) by (simp add: rd_n_def split: if_splits)

lemma host_value_inv: "req_inv q \<Longrightarrow> pred_option step_inv (host_value d dn b q p)"
proof -
  assume q: "req_inv q"
  have "wr (req_subdomain q) 0 (''www'' @ [NUL]) = Some f \<Longrightarrow>
      wf_buf f \<and> cap f = 64 \<and> CHR ''.'' \<notin> set (bytes f) \<and> (\<exists>t. cstr f 0 = Some t)" for f
    using q put_str_bytes [of "req_subdomain q" "''www''" f] put_wf [of "req_subdomain q" "''www''" f]
    by (auto simp: req_inv_def wf_req_def text_inv_def put_str_eq)
  moreover have "put_str (req_subdomain q) s = Some f \<Longrightarrow> CHR ''.'' \<notin> set s \<Longrightarrow>
      wf_buf f \<and> cap f = 64 \<and> CHR ''.'' \<notin> set (bytes f) \<and> (\<exists>t. cstr f 0 = Some t)" for f s
    using q put_str_bytes [of "req_subdomain q" s f] put_wf [of "req_subdomain q" s f]
    by (auto simp: req_inv_def wf_req_def text_inv_def)
  moreover have "memchr b p (CHR ''.'') n = Some r \<Longrightarrow>
      rd_n b p (case r of None \<Rightarrow> 0 | Some p2 \<Rightarrow> p2 - p) = Some s \<Longrightarrow> CHR ''.'' \<notin> set s" for n r s
    by (cases r) (auto simp: rd_n_def dest: rd_n_memchr split: if_splits)
  ultimately show ?thesis
    using q unfolding host_value_def Let_def
    by (intro pred_rules) (auto simp: req_inv_def wf_req_def text_inv_def)
qed

lemma header_value_inv: "req_inv q \<Longrightarrow> pred_option step_inv (header_value d dn k b q p)"
proof -
  assume q: "req_inv q"
  show ?thesis
    using q host_value_inv [OF q] unfolding header_value_def ua_value_def lang_value_def origin_value_def
      etag_value_def Let_def
    by (cases k; simp only: key_idx.case; intro pred_rules)
      (auto simp: req_inv_def wf_req_def text_inv_def wr_wf wr_SomeD(2) dest!: put_wf dest: rd_n_memchr wr_terminated)
qed


lemma header_line_inv: "req_inv q \<Longrightarrow> pred_option step_inv (header_line d dn b q p)"
proof -
  assume q: "req_inv q"
  have e: "pred_option step_inv (header_end b q' p')" if "req_inv q'" for q' p'
    using that unfolding header_end_def by (intro pred_rules) auto
  show ?thesis
    using q unfolding header_line_def
    by (intro pred_rules)
      (auto split: line_step.split option.splits intro!: e
        dest: pred_SomeD [OF header_value_inv [OF q]])
qed

lemma header_loop_inv: "req_inv q \<Longrightarrow> pred_option (\<lambda>(c, q'). req_inv q') (header_loop d dn b q p)"
proof (induction d dn b q p rule: header_loop.induct)
  case (1 d dn b q p)
  show ?case
    using "1.prems"
    by (subst header_loop.simps, intro pred_rules)
      (auto split: line_step.split intro!: "1.IH" dest: pred_SomeD [OF header_line_inv [OF "1.prems"]])
qed

lemma net_http_req_parse_inv:
  "pred_option (\<lambda>(c, b', q). c = 0 \<and> req_inv q) (net_http_req_parse b d dn)"
proof -
  have h: "pred_option (\<lambda>(c, q'). req_inv q') (header_parse b' q d dn)" if "req_inv q" for b' q
    using that header_loop_inv [OF that] unfolding header_parse_def by (intro pred_rules) auto
  show ?thesis
    unfolding net_http_req_parse_def Let_def
    by (rule pred_bindI [OF line_parse_inv [OF req_inv_zero]], rule pred_prod,
        rule pred_bindI [OF uri_parse_inv], simp, rule pred_bind,
        rule pred_bindI [OF h], assumption) auto
qed

text \<open>Operating system and browser: the comparison includes a zero byte no request text has.\<close>

definition ua_inv :: "fws_http_req \<Rightarrow> bool" where
  "ua_inv q \<longleftrightarrow> wf_req q \<and> cstr (req_os q) 0 \<in> {Some [], Some ''-''} \<and>
     cstr (req_browser q) 0 \<in> {Some [], Some ''-''}"

lemma hdr_fold_ua: "ua_inv q \<Longrightarrow> pred_option (\<lambda>(c, q'). ua_inv q') (hdr_fold own hs q)"
proof (induction hs arbitrary: q)
  case (Cons h hs)
  have "pred_option (\<lambda>(go, q'). ua_inv q') (hdr_set own h q)"
  proof (cases "hdr_key (fst h)")
    case (Some key)
    then show ?thesis
      using Cons.prems unfolding hdr_set_def Let_def
      by (cases key; simp only: option.case key_idx.case; intro pred_rules)
        (auto simp: ua_inv_def wf_req_def put_str_cstr dest!: put_wf)
  qed (use Cons.prems in \<open>simp add: hdr_set_def\<close>)
  from pred_SomeD [OF this] Cons.IH show ?case
    by (simp only: hdr_fold.simps, intro pred_rules) auto
qed simp

section \<open>The Origin check\<close>

definition conf_domain_is :: "fws_conf \<Rightarrow> string \<Rightarrow> bool" where
  "conf_domain_is c own \<longleftrightarrow> wf_buf (conf_domain c) \<and> cap (conf_domain c) = 128 \<and>
     cstr (conf_domain c) 0 = Some own \<and> own \<noteq> []"

lemma conf_domain_isD:
  assumes "conf_domain_is c own"
  shows "strnlen (conf_domain c) 0 128 = Some (length own)"
    "rd_n (conf_domain c) 0 (length own) = Some own" "length own < 128" "NUL \<notin> set own"
proof -
  have h: "holds (conf_domain c) 0 (own @ [NUL])" "NUL \<notin> set own" and cap: "cap (conf_domain c) = 128"
    using assms cstr_iff by (auto simp: conf_domain_is_def)
  show l: "length own < 128" using holds_le_cap [OF h(1)] cap by simp
  show "strnlen (conf_domain c) 0 128 = Some (length own)"
    using strnlen_holds [OF h, of 128] l by simp
  show "rd_n (conf_domain c) 0 (length own) = Some own"
    using holds_rd_n [OF h(1), of "length own"] by simp
  show "NUL \<notin> set own" by (rule h(2))
qed

lemma origin_check_is:
  assumes q: "put_str (zbuf 512) s = Some (req_origin q)" "NUL \<notin> set s" and own: "conf_domain_is c own"
  shows "net_http_origin_self_check q c =
    (case find_sub own s of None \<Rightarrow> Some False
     | Some 0 \<Rightarrow> None
     | Some (Suc i) \<Rightarrow> Some (s ! i \<in> {CHR ''.'', CHR ''/''} \<and>
          (Suc i + length own = length s \<or> s ! (Suc i + length own) = CHR '':'')))"
proof -
  let ?b = "req_origin q"
  have w: "wr (zbuf 512) 0 (s @ [NUL]) = Some ?b" using q(1) by (simp add: put_str_eq)
  have len: "length s < 512" using wr_SomeD(1) [OF w] by simp
  have "(s @ [NUL]) @ replicate (512 - length (s @ [NUL])) NUL = s @ replicate (512 - length s) NUL"
    using len by (simp add: Suc_diff_Suc flip: replicate_Suc)
  with holds_zbuf_wr [OF w] have h: "holds ?b 0 (s @ replicate (512 - length s) NUL)" "cap ?b = 512"
    by simp_all
  note d = conf_domain_isD [OF own]
  have cap: "cap (conf_domain c) = 128" "own \<noteq> []" using own by (simp_all add: conf_domain_is_def)
  have scan: "memmem ?b 0 512 own = Some (find_sub own s)"
    using scan_mem_is [OF cap(2) d(4) h(1), of "Suc (512 - length own)"] len h(2) d(3)
    by (cases "find_sub own s") (simp_all add: memmem_def)
  have at: "rd ?b i = Some (if i < length s then s ! i else NUL)" if "i < 512" for i
    using h that by (auto simp: holds_def nth_append)
  show ?thesis
  proof (cases "find_sub own s")
    case None
    then show ?thesis using scan h(2) d cap by (simp add: net_http_origin_self_check_def)
  next
    case (Some j)
    then obtain x y where s: "s = x @ own @ y" "length x = j" using find_sub_SomeD by blast
    show ?thesis
    proof (cases j)
      case 0
      with Some show ?thesis using scan h(2) d cap by (simp add: net_http_origin_self_check_def)
    next
      case (Suc i)
      have "s ! (Suc i + length own) \<noteq> NUL" if "Suc i + length own < length s"
        using q(2) nth_mem [OF that] by metis
      then show ?thesis
        using Some Suc scan h(2) d cap at [of i] at [of "Suc i + length own"] s len
        by (auto simp: net_http_origin_self_check_def)
    qed
  qed
qed


section \<open>What the fields of a parsed request are\<close>

definition same_line :: "fws_http_req \<Rightarrow> fws_http_req \<Rightarrow> bool" where
  "same_line q q' \<longleftrightarrow> req_method q' = req_method q \<and> req_uri q' = req_uri q \<and>
     req_version q' = req_version q \<and> req_path q' = req_path q \<and> req_path_n q' = req_path_n q \<and>
     req_query q' = req_query q \<and> req_query_n q' = req_query_n q"

lemma hdr_fold_same_line: "pred_option (\<lambda>(c, q'). same_line q q') (hdr_fold own hs q)"
proof (induction hs arbitrary: q)
  case (Cons h hs)
  have "pred_option (\<lambda>(go, q'). same_line q q') (hdr_set own h q)"
  proof (cases "hdr_key (fst h)")
    case (Some key)
    then show ?thesis
      unfolding hdr_set_def Let_def
      by (cases key; simp only: option.case key_idx.case; intro pred_rules) (auto simp: same_line_def)
  qed (simp add: hdr_set_def same_line_def)
  then show ?case
    unfolding hdr_fold.simps
  proof (rule pred_bindI)
    fix r :: "bool \<times> fws_http_req"
    obtain go q' where r: "r = (go, q')" by (cases r)
    assume "case r of (go, q') \<Rightarrow> same_line q q'"
    with r have qq: "same_line q q'" by simp
    with Cons.IH [of q'] show "pred_option (\<lambda>(c, q'). same_line q q')
        (case r of (go, q) \<Rightarrow> if go then hdr_fold own hs q else Some (1, q))"
      by (cases "hdr_fold own hs q'") (auto simp: r same_line_def)
  qed
qed (simp add: same_line_def)

lemma cstr_lit: "NUL \<notin> set s \<Longrightarrow> length s < n \<Longrightarrow> cstr \<lparr>bytes = s @ [NUL], cap = n\<rparr> 0 = Some s"
  by (simp add: cstr_def)

text \<open>The request, as what a client means by it.\<close>

definition means_line :: "string \<Rightarrow> string \<Rightarrow> string \<Rightarrow> fws_http_req \<Rightarrow> bool" where
  "means_line m u v q \<longleftrightarrow>
     cstr (req_method q) 0 = Some m \<and> cstr (req_uri q) 0 = Some u \<and> cstr (req_version q) 0 = Some v \<and>
     req_path q = Some 0 \<and> take (req_path_n q) u = takeWhile (\<lambda>c. c \<noteq> CHR ''?'') u \<and>
     (case req_query q of None \<Rightarrow> CHR ''?'' \<notin> set u
      | Some k \<Rightarrow> \<exists>path query. u = path @ CHR ''?'' # query \<and> k = Suc (length path) \<and>
          req_path_n q = length path \<and> req_query_n q = length query)"

lemma means_req_line:
  assumes "NUL \<notin> set m" "NUL \<notin> set u" "NUL \<notin> set v" "length m < 16" "length u < 4096" "length v < 16"
  shows "means_line m u v (req_line m u v)"
proof (cases "CHR ''?'' \<in> set u")
  case True
  then obtain x y where xy: "u = x @ CHR ''?'' # y" "CHR ''?'' \<notin> set x" by (meson split_list_first)
  then show ?thesis using assms cstr_lit [of u 4096]
    by (auto simp: means_line_def req_line_def uri_split_def Let_def cstr_lit)
next
  case False
  then have "takeWhile (\<lambda>c. c \<noteq> CHR ''?'') u = u" by (auto simp: takeWhile_eq_all_conv)
  with False show ?thesis using assms
    by (simp add: means_line_def req_line_def uri_split_def cstr_lit del: takeWhile_eq_all_conv)
qed

lemma means_same: "same_line q q' \<Longrightarrow> means_line m u v q \<Longrightarrow> means_line m u v q'"
  by (cases "req_query q") (auto simp: same_line_def means_line_def)

lemma host_short:
  assumes "host_ok own h" "hdr_key (fst h) = Some HOST" shows "length (host_text own (snd h)) < 64"
proof (cases "prefix own (snd h)")
  case False
  then have "CHR ''.'' \<in> set (take 64 (snd h))" using assms by (simp add: host_ok_def)
  then obtain x y where xy: "take 64 (snd h) = x @ CHR ''.'' # y" "CHR ''.'' \<notin> set x"
    by (meson split_list_first)
  then have "snd h = x @ CHR ''.'' # (y @ drop 64 (snd h))"
    using append_take_drop_id [of 64 "snd h"] by auto
  then have "takeWhile (\<lambda>c. c \<noteq> CHR ''.'') (snd h) = x" using xy(2) by (metis takeWhile_upto)
  moreover have "length (x @ CHR ''.'' # y) \<le> 64" by (metis xy(1) length_take min.cobounded2)
  ultimately show ?thesis using False by (simp add: host_text_def)
qed (simp add: host_text_def)

lemma etag_short: "etag_text v = Some e \<Longrightarrow> length e < 32"
  by (auto simp: etag_text_def Let_def split: list.splits if_splits)

text \<open>The two values whose length the parser does not check.\<close>

definition fits :: "string \<times> string \<Rightarrow> bool" where
  "fits h \<longleftrightarrow> (hdr_key (fst h) = Some AL \<longrightarrow> length (lang_text (snd h)) < 16) \<and>
     (hdr_key (fst h) = Some ORIGIN \<longrightarrow> length (snd h) < 512)"

lemma hdr_set_fits:
  assumes "host_ok own h" "wf_req q" "fits h" shows "hdr_set own h q \<noteq> None"
proof (cases "hdr_key (fst h)")
  case (Some key)
  show ?thesis using assms Some host_short [OF assms(1)]
    by (cases key) (auto simp: hdr_set_def fits_def Option.bind_eq_None_conv put_str_eq_None wf_req_def dest!: etag_short
        simp del: not_None_eq split: option.split)
qed (simp add: hdr_set_def)

lemma header_overflow:
  assumes "host_ok own h" "wf_req q" "unset (req_lang q)"
  shows "hdr_set own h q = None \<longleftrightarrow> \<not> fits h"
proof
  show "\<not> fits h" if "hdr_set own h q = None" using hdr_set_fits [OF assms(1,2)] that by blast
  show "hdr_set own h q = None" if "\<not> fits h"
    using that assms(2,3) by (auto simp: fits_def hdr_set_def put_str_eq_None Option.bind_eq_None_conv wf_req_def)
qed

lemma hdr_fold_fits:
  "\<forall>h \<in> set hs. host_ok own h \<and> fits h \<Longrightarrow> wf_req q \<Longrightarrow> hdr_fold own hs q \<noteq> None"
proof (induction hs arbitrary: q)
  case (Cons h hs)
  then obtain go q' where r: "hdr_set own h q = Some (go, q')" using hdr_set_fits [of own h q] by auto
  have "wf_req q'" using pred_SomeD [OF hdr_set_wf r] Cons.prems(2) by simp
  with Cons r show ?case by simp
qed simp

lemma example_get:
  fixes h :: "string \<times> string"
  assumes "NUL \<notin> set (fst h)" "hdr_ok (lower_hdr h)" "host_ok ''a.io'' (lower_hdr h)"
  defines "t \<equiv> req_text ''GET'' ''/x?k=1'' ''HTTP/1.1'' [h]"
  shows "holds \<lparr>bytes = t, cap = 8192\<rparr> 0 (t @ NUL # replicate 128 NUL)"
    and "req_ok ''a.io'' ''GET'' ''/x?k=1'' ''HTTP/1.1'' [h]"
    and "wf_buf \<lparr>bytes = ''a.io'', cap = 128\<rparr>" "cstr \<lparr>bytes = ''a.io'', cap = 128\<rparr> 0 = Some ''a.io''"
proof -
  have "length (hdr_text h) \<le> 1004" using assms(2) by (simp add: hdr_ok_def hdr_text_def lower_hdr_def)
  then have l: "length t \<le> 1040" by (simp add: t_def req_text_def)
  show "holds \<lparr>bytes = t, cap = 8192\<rparr> 0 (t @ NUL # replicate 128 NUL)"
    by (rule holds_pad [of t "Suc 128" 8192, unfolded replicate_Suc]) (use l in simp)
  show "req_ok ''a.io'' ''GET'' ''/x?k=1'' ''HTTP/1.1'' [h]"
    using assms(1-3) l unfolding t_def by (simp add: req_ok_def)
  show "wf_buf \<lparr>bytes = ''a.io'', cap = 128\<rparr>" "cstr \<lparr>bytes = ''a.io'', cap = 128\<rparr> 0 = Some ''a.io''"
    by (simp_all add: wf_buf_def cstr_def)
qed

lemma example_headers:
  "hdr_ok (lower_hdr (''Host'', ''www.a.io''))" "host_ok ''a.io'' (lower_hdr (''Host'', ''www.a.io''))"
  "hdr_ok (lower_hdr (''If-None-Match'', [DQ, CHR ''1'', CHR ''f'', DQ]))"
  by (simp_all add: hdr_ok_def lower_hdr_def host_ok_def tolower_def eval_simps)

section \<open>Properties\<close>

text \<open>
  C11. The request parser on well-formed requests: the pointer code over \<open>req_buf\<close> (request line,
  URI split, lower-casing, header loop) computes \<open>hdr_fold\<close>, one abstract step per header of the
  lower-cased request, started with the fields of the request line; and it always returns 0.
\<close>

theorem request_parse_refines:
  assumes "holds b 0 (req_text m u v hs @ NUL # tail)" "128 \<le> length tail" "req_ok own m u v hs"
    and "wf_buf domain" "cstr domain 0 = Some own" "length own < 128" "cap domain = 128" "CR \<notin> set own"
  shows "\<exists>b'. net_http_req_parse b domain 128 =
     map_option (\<lambda>(c, q). (0, b', q)) (hdr_fold own (map lower_hdr hs) (req_line m u v))"
  using assms by (rule req_parse_is)

theorem request_parse_refines_witness:
  "\<exists>b' q. net_http_req_parse
       \<lparr>bytes = req_text ''GET'' ''/x?k=1'' ''HTTP/1.1'' [(''Host'', ''www.a.io'')], cap = 8192\<rparr>
       \<lparr>bytes = ''a.io'', cap = 128\<rparr> 128 = Some (0, b', q) \<and> cstr (req_subdomain q) 0 = Some ''www''"
proof -
  note ex = example_get [of "(''Host'', ''www.a.io'')", OF _ example_headers(1,2)]
  have k: "hdr_key ''host'' = Some HOST" by (simp add: hdr_key_def keyword_def)
  have "hdr_fold ''a.io'' [(''host'', ''www.a.io'')] (req_line ''GET'' ''/x?k=1'' ''HTTP/1.1'') =
    Some (0, (req_line ''GET'' ''/x?k=1'' ''HTTP/1.1'')\<lparr>req_subdomain := \<lparr>bytes = ''www'' @ [NUL], cap = 64\<rparr>\<rparr>)"
    using k put_str_zbuf [of "''www''" 64]
    by (simp add: hdr_set_def host_text_def req_line_def uri_split_def Let_def unset_def)
  moreover have "lower_hdr (''Host'', ''www.a.io'') = (''host'', ''www.a.io'')"
    by (simp add: lower_hdr_def tolower_def eval_simps)
  ultimately show ?thesis
    using request_parse_refines [OF ex(1) _ ex(2,3,4)] cstr_lit [of "''www''" 64] by force
qed

text \<open>
  C30. The fields of a parsed request.  Whatever the bytes in the buffer: a parse that returns (one that leaves an array is undefined here)
  returns 0, and every field is an array within its bounds that holds a terminated
  string, the subdomain (which becomes part of the web root) without a dot and the entity tag
  without a double quote.  And the parse of a well-formed request does return if no \<open>Accept-Language\<close> and no \<open>Origin\<close>
  value is too long for its field, however many headers there are and in which order.
\<close>

theorem parsed_request_well_formed:
  "(net_http_req_parse b domain n = Some (c, b', q) \<longrightarrow> c = 0 \<and> wf_req q \<and> text_inv q \<and>
      CHR ''.'' \<notin> set (bytes (req_subdomain q)) \<and> DQ \<notin> set (bytes (req_etag q))) \<and>
   (holds b 0 (req_text m u v hs @ NUL # tail) \<and> 128 \<le> length tail \<and> req_ok own m u v hs \<and>
      wf_buf domain \<and> cstr domain 0 = Some own \<and> length own < 128 \<and> cap domain = 128 \<and> CR \<notin> set own \<and>
      (\<forall>h \<in> set hs. fits (lower_hdr h)) \<longrightarrow>
      net_http_req_parse b domain 128 \<noteq> None)"
proof
  show "net_http_req_parse b domain n = Some (c, b', q) \<longrightarrow> c = 0 \<and> wf_req q \<and> text_inv q \<and>
      CHR ''.'' \<notin> set (bytes (req_subdomain q)) \<and> DQ \<notin> set (bytes (req_etag q))"
    using net_http_req_parse_inv [of b domain n] by (auto simp: req_inv_def)
  show "holds b 0 (req_text m u v hs @ NUL # tail) \<and> 128 \<le> length tail \<and> req_ok own m u v hs \<and>
      wf_buf domain \<and> cstr domain 0 = Some own \<and> length own < 128 \<and> cap domain = 128 \<and> CR \<notin> set own \<and>
      (\<forall>h \<in> set hs. fits (lower_hdr h)) \<longrightarrow> net_http_req_parse b domain 128 \<noteq> None" (is "?req \<longrightarrow> _")
  proof
    assume r: ?req
    then obtain b' where "net_http_req_parse b domain 128 =
        map_option (\<lambda>(c, q). (0, b', q)) (hdr_fold own (map lower_hdr hs) (req_line m u v))"
      using req_parse_is [of b m u v hs tail own domain] by auto
    moreover have "hdr_fold own (map lower_hdr hs) (req_line m u v) \<noteq> None"
      by (rule hdr_fold_fits) (use r wf_req_line [of m u v] in \<open>auto simp: req_ok_def\<close>)
    ultimately show "net_http_req_parse b domain 128 \<noteq> None" by simp
  qed
qed

theorem parsed_request_well_formed_witness:
  "\<exists>b' q. net_http_req_parse
       \<lparr>bytes = req_text ''GET'' ''/x?k=1'' ''HTTP/1.1'' [(''Host'', ''www.a.io'')], cap = 8192\<rparr>
       \<lparr>bytes = ''a.io'', cap = 128\<rparr> 128 = Some (0, b', q) \<and> wf_req q \<and> text_inv q"
proof -
  let ?h = "(''Host'', ''www.a.io'')"
  note ex = example_get [of ?h, OF _ example_headers(1,2)]
  have k: "fits (lower_hdr ?h)"
    by (simp add: fits_def hdr_key_def keyword_def lower_hdr_def tolower_def eval_simps)
  note p = parsed_request_well_formed [where b = "\<lparr>bytes = req_text ''GET'' ''/x?k=1'' ''HTTP/1.1'' [?h], cap = 8192\<rparr>"
      and domain = "\<lparr>bytes = ''a.io'', cap = 128\<rparr>" and n = 128]
  have "net_http_req_parse \<lparr>bytes = req_text ''GET'' ''/x?k=1'' ''HTTP/1.1'' [?h], cap = 8192\<rparr>
      \<lparr>bytes = ''a.io'', cap = 128\<rparr> 128 \<noteq> None"
    by (rule p [of _ _ _ "''GET''" "''/x?k=1''" "''HTTP/1.1''" "[?h]" "replicate 128 NUL" "''a.io''", THEN conjunct2, THEN mp])
      (use ex k in simp)
  then obtain c b' q where "net_http_req_parse \<lparr>bytes = req_text ''GET'' ''/x?k=1'' ''HTTP/1.1'' [?h], cap = 8192\<rparr>
      \<lparr>bytes = ''a.io'', cap = 128\<rparr> 128 = Some (c, b', q)" by auto
  with p [THEN conjunct1, THEN mp, OF this] show ?thesis by blast
qed

text \<open>
  The request line: method, URI and version arrive as the client sent them, in the case it
  sent them; the path ends at the first question mark and the query is what follows it.
\<close>

theorem request_line_fields:
  assumes "holds b 0 (req_text m u v hs @ NUL # tail)" "128 \<le> length tail" "req_ok own m u v hs"
    and "wf_buf domain" "cstr domain 0 = Some own" "length own < 128" "cap domain = 128" "CR \<notin> set own"
  shows "pred_option (\<lambda>(c, b', q). means_line m u v q) (net_http_req_parse b domain 128)"
proof -
  let ?q = "req_line m u v"
  obtain b' where b': "net_http_req_parse b domain 128 =
     map_option (\<lambda>(c, q). (0, b', q)) (hdr_fold own (map lower_hdr hs) ?q)"
    using req_parse_is [OF assms] by blast
  have "means_line m u v ?q" using assms(3) by (intro means_req_line) (auto simp: req_ok_def)
  then show ?thesis
    using b' hdr_fold_same_line [of ?q own "map lower_hdr hs"] means_same
    by (cases "hdr_fold own (map lower_hdr hs) ?q") auto
qed

theorem request_line_fields_witness:
  "pred_option (\<lambda>(c, b', q). means_line ''GET'' ''/x?k=1'' ''HTTP/1.1'' q) (net_http_req_parse
       \<lparr>bytes = req_text ''GET'' ''/x?k=1'' ''HTTP/1.1'' [(''Host'', ''www.a.io'')], cap = 8192\<rparr>
       \<lparr>bytes = ''a.io'', cap = 128\<rparr> 128)"
proof -
  note ex = example_get [of "(''Host'', ''www.a.io'')", OF _ example_headers(1,2)]
  show ?thesis by (rule request_line_fields [OF ex(1) _ ex(2,3,4)]) simp_all
qed

text \<open>
  C34. The bounds of the header fields: a request with one header is undefined behaviour exactly
  when the first language of an \<open>Accept-Language\<close> value has 16 bytes or more (without a comma or
  semicolon the carriage return counts), or an \<open>Origin\<close> value has 512 or more.
\<close>

theorem header_overflow_iff:
  assumes "holds b 0 (req_text m u v [h] @ NUL # tail)" "128 \<le> length tail" "req_ok own m u v [h]"
    and "wf_buf domain" "cstr domain 0 = Some own" "length own < 128" "cap domain = 128" "CR \<notin> set own"
  shows "net_http_req_parse b domain 128 = None \<longleftrightarrow>
    hdr_key (fst (lower_hdr h)) = Some AL \<and> 16 \<le> length (lang_text (snd (lower_hdr h))) \<or>
    hdr_key (fst (lower_hdr h)) = Some ORIGIN \<and> 512 \<le> length (snd (lower_hdr h))"
proof -
  let ?q = "req_line m u v"
  obtain b' where b': "net_http_req_parse b domain 128 =
     map_option (\<lambda>(c, q). (0, b', q)) (hdr_fold own [lower_hdr h] ?q)"
    using req_parse_is [OF assms] by auto
  have ok: "host_ok own (lower_hdr h)" "length m < 16" "length u < 4096" "length v < 16"
    using assms(3) by (simp_all add: req_ok_def)
  have u: "unset (req_lang ?q)" by (simp add: req_line_def uri_split_def Let_def unset_def)
  from header_overflow [OF ok(1) wf_req_line [OF ok(2-4)] u] b' show ?thesis
    by (auto simp: Option.bind_eq_None_conv fits_def split: prod.splits)
qed

theorem header_overflow_iff_witness:
  "net_http_req_parse
       \<lparr>bytes = req_text ''GET'' ''/x?k=1'' ''HTTP/1.1'' [(''Accept-Language'', ''aaaaaaaaaaaaaaaa'')],
        cap = 8192\<rparr> \<lparr>bytes = ''a.io'', cap = 128\<rparr> 128 = None"
proof -
  let ?h = "(''Accept-Language'', ''aaaaaaaaaaaaaaaa'')"
  have l: "lower_hdr ?h = (''accept-language'', ''aaaaaaaaaaaaaaaa'')"
    by (simp add: lower_hdr_def tolower_def eval_simps)
  have k: "hdr_key ''accept-language'' = Some AL" by (simp add: hdr_key_def keyword_def)
  have ok: "hdr_ok (lower_hdr ?h)" "host_ok ''a.io'' (lower_hdr ?h)"
    unfolding l using k by (simp_all add: hdr_ok_def host_ok_def)
  note ex = example_get [of ?h, OF _ ok]
  have "16 \<le> length (lang_text ''aaaaaaaaaaaaaaaa'')" by (simp add: lang_text_def)
  then show ?thesis
    using header_overflow_iff [OF ex(1) _ ex(2,3,4)] k l by simp
qed

text \<open>
  Operating system and browser are never recognised: for every well-formed request both
  fields end as \<open>-\<close> or stay empty, because the comparison with a name includes its zero byte.
\<close>

theorem user_agent_never_recognised:
  assumes "holds b 0 (req_text m u v hs @ NUL # tail)" "128 \<le> length tail" "req_ok own m u v hs"
    and "wf_buf domain" "cstr domain 0 = Some own" "length own < 128" "cap domain = 128" "CR \<notin> set own"
  shows "pred_option (\<lambda>(c, b', q). cstr (req_os q) 0 \<in> {Some [], Some ''-''} \<and>
     cstr (req_browser q) 0 \<in> {Some [], Some ''-''}) (net_http_req_parse b domain 128)"
proof -
  let ?q = "req_line m u v"
  obtain b' where b': "net_http_req_parse b domain 128 =
     map_option (\<lambda>(c, q). (0, b', q)) (hdr_fold own (map lower_hdr hs) ?q)"
    using req_parse_is [OF assms] by blast
  have "length m < 16" "length u < 4096" "length v < 16" using assms(3) by (simp_all add: req_ok_def)
  then have "ua_inv ?q"
    using wf_req_line [of m u v] by (simp add: ua_inv_def req_line_def uri_split_def Let_def cstr_def zbuf_def)
  then show ?thesis
    using b' hdr_fold_ua [of ?q own "map lower_hdr hs"]
    by (cases "hdr_fold own (map lower_hdr hs) ?q") (auto simp: ua_inv_def)
qed

theorem user_agent_never_recognised_witness:
  "pred_option (\<lambda>(c, b', q). cstr (req_os q) 0 \<in> {Some [], Some ''-''} \<and>
     cstr (req_browser q) 0 \<in> {Some [], Some ''-''}) (net_http_req_parse
       \<lparr>bytes = req_text ''GET'' ''/x?k=1'' ''HTTP/1.1'' [(''User-Agent'', ''Firefox (Linux)'')], cap = 8192\<rparr>
       \<lparr>bytes = ''a.io'', cap = 128\<rparr> 128)"
proof -
  let ?h = "(''User-Agent'', ''Firefox (Linux)'')"
  have l: "lower_hdr ?h = (''user-agent'', ''firefox (linux)'')"
    by (simp add: lower_hdr_def tolower_def eval_simps)
  have k: "hdr_key ''user-agent'' = Some UA" by (simp add: hdr_key_def keyword_def)
  have ok: "hdr_ok (lower_hdr ?h)" "host_ok ''a.io'' (lower_hdr ?h)"
    unfolding l using k by (simp_all add: hdr_ok_def host_ok_def)
  note ex = example_get [of ?h, OF _ ok]
  show ?thesis by (rule user_agent_never_recognised [OF ex(1) _ ex(2,3,4)]) simp_all
qed

text \<open>
  The entity tag of a conditional request: \<open>If-None-Match: "e"\<close> arrives as \<open>e\<close> for every tag
  of at most 31 bytes without a double quote, lower-cased like the rest of the request.
\<close>

theorem if_none_match_arrives:
  assumes "holds b 0 (req_text m u v [(k, DQ # e @ [DQ])] @ NUL # tail)" "128 \<le> length tail"
    and "req_ok own m u v [(k, DQ # e @ [DQ])]" "map tolower k = ''if-none-match''"
    and "DQ \<notin> set e" "length e < 32"
    and "wf_buf domain" "cstr domain 0 = Some own" "length own < 128" "cap domain = 128" "CR \<notin> set own"
  shows "\<exists>b' q. net_http_req_parse b domain 128 = Some (0, b', q) \<and>
     cstr (req_etag q) 0 = Some (map tolower e)"
proof -
  let ?q = "req_line m u v" and ?e = "map tolower e"
  have dq: "tolower c = DQ \<longleftrightarrow> c = DQ" for c by (rule tolower_eq_iff) simp_all
  have l: "lower_hdr (k, DQ # e @ [DQ]) = (''if-none-match'', DQ # ?e @ [DQ])"
    using assms(4) by (simp add: lower_hdr_def dq [THEN iffD2])
  have ne: "DQ \<notin> set ?e" using in_lower [OF dq, of "set e"] assms(5) by simp
  have nn: "NUL \<notin> set ?e"
    using assms(3) l by (auto simp: req_ok_def hdr_ok_def)
  have key: "hdr_key ''if-none-match'' = Some ETAG" by (simp add: hdr_key_def keyword_def)
  have et: "etag_text (DQ # ?e @ [DQ]) = Some ?e"
    using ne assms(6) by (simp add: etag_text_def)
  have "req_etag ?q = zbuf 32" by (simp add: req_line_def uri_split_def Let_def)
  then have "hdr_fold own [lower_hdr (k, DQ # e @ [DQ])] ?q =
      Some (0, ?q\<lparr>req_etag := \<lparr>bytes = ?e @ [NUL], cap = 32\<rparr>\<rparr>)"
    using key et assms(6) by (simp add: l hdr_set_def put_str_zbuf)
  moreover from req_parse_is [OF assms(1-3,7-11)] obtain b' where
    "net_http_req_parse b domain 128 =
     map_option (\<lambda>(c, q). (0, b', q)) (hdr_fold own [lower_hdr (k, DQ # e @ [DQ])] ?q)" by auto
  ultimately show ?thesis using cstr_lit [OF nn, of 32] assms(6) by auto
qed

theorem if_none_match_arrives_witness:
  "\<exists>b' q. net_http_req_parse
       \<lparr>bytes = req_text ''GET'' ''/x?k=1'' ''HTTP/1.1'' [(''If-None-Match'', DQ # ''1F'' @ [DQ])], cap = 8192\<rparr>
       \<lparr>bytes = ''a.io'', cap = 128\<rparr> 128 = Some (0, b', q) \<and> cstr (req_etag q) 0 = Some ''1f''"
proof -
  let ?h = "(''If-None-Match'', DQ # ''1F'' @ [DQ])"
  have l: "lower_hdr ?h = (''if-none-match'', [DQ, CHR ''1'', CHR ''f'', DQ])"
    by (simp add: lower_hdr_def tolower_def eval_simps)
  have k: "hdr_key ''if-none-match'' = Some ETAG" by (simp add: hdr_key_def keyword_def)
  have ok: "hdr_ok (lower_hdr ?h)" "host_ok ''a.io'' (lower_hdr ?h)"
    unfolding l using k by (simp_all add: hdr_ok_def host_ok_def)
  note ex = example_get [of ?h, OF _ ok]
  have "map tolower ''If-None-Match'' = ''if-none-match''" "map tolower ''1F'' = ''1f''"
    by (simp_all add: tolower_def eval_simps)
  then show ?thesis
    using if_none_match_arrives [OF ex(1) _ ex(2) _ _ _ ex(3,4)] by simp
qed

text \<open>
  C40. The \<open>Origin\<close> check, exactly: with the first occurrence of the own domain in the value at a
  position behind the start, the check holds iff a dot or slash stands before it and the value
  ends or a colon follows; without an occurrence it fails; with the occurrence at the start the
  byte before the array is read.
\<close>

theorem origin_check_exact:
  assumes "put_str (zbuf 512) s = Some (req_origin q)" "NUL \<notin> set s" "conf_domain_is c own"
  shows "net_http_origin_self_check q c =
    (case find_sub own s of None \<Rightarrow> Some False
     | Some 0 \<Rightarrow> None
     | Some (Suc i) \<Rightarrow> Some (s ! i \<in> {CHR ''.'', CHR ''/''} \<and>
          (Suc i + length own = length s \<or> s ! (Suc i + length own) = CHR '':'')))"
  using assms by (rule origin_check_is)

theorem origin_check_exact_witness:
  "net_http_origin_self_check
     (zero_http_req\<lparr>req_origin := \<lparr>bytes = ''https://www.a.io:443'' @ [NUL], cap = 512\<rparr>\<rparr>)
     (zero_conf\<lparr>conf_domain := \<lparr>bytes = ''a.io'', cap = 128\<rparr>\<rparr>) = Some True"
  using origin_check_exact [of "''https://www.a.io:443''"
      "zero_http_req\<lparr>req_origin := \<lparr>bytes = ''https://www.a.io:443'' @ [NUL], cap = 512\<rparr>\<rparr>"
      "zero_conf\<lparr>conf_domain := \<lparr>bytes = ''a.io'', cap = 128\<rparr>\<rparr>" "''a.io''"]
  by (simp add: put_str_zbuf conf_domain_is_def wf_buf_def cstr_def)

text \<open>
  A request line of 1024 bytes or more hides the headers: \<open>_header_parse\<close> gives up before the
  first of them, the request keeps no host, no entity tag, no origin, and is still accepted.
\<close>

theorem long_request_line_drops_headers:
  assumes "holds req_buf 0 line" "CR \<notin> set line" "1024 \<le> length line"
  shows "header_parse req_buf q domain n = Some (1, q)"
  using memchr_holds_None [OF assms(1,2), of 1024] assms(3) by (simp add: header_parse_def)

theorem long_request_line_drops_headers_witness:
  "header_parse \<lparr>bytes = replicate 2000 (CHR ''a''), cap = 8192\<rparr> zero_http_req (zbuf 128) 128 =
     Some (1, zero_http_req)"
proof -
  have "holds \<lparr>bytes = replicate 2000 (CHR ''a''), cap = 8192\<rparr> 0 (replicate 2000 (CHR ''a''))"
    using holds_pad [of "replicate 2000 (CHR ''a'')" 0 8192] by simp
  then show ?thesis by (rule long_request_line_drops_headers) simp_all
qed

text \<open>
  Only the first 8 bytes of a header name count, and only as a prefix: the search matches the
  name of an \<open>If-None-Match\<close> header exactly when it starts with \<open>if-none-\<close>.
\<close>

theorem etag_keyword_prefix:
  assumes "holds b p (k @ CHR '':'' # rest)" "8 \<le> length rest"
  shows "find_keyword b p keyword = Some (Some ETAG) \<longleftrightarrow> prefix ''if-none-'' k"
proof -
  have "hdr_key k = Some ETAG \<longleftrightarrow> prefix ''if-none-'' k"
  proof
    assume "prefix ''if-none-'' k"
    then obtain z where "k = ''if-none-'' @ z" by (auto simp: prefix_def)
    then show "hdr_key k = Some ETAG" by (simp add: hdr_key_def keyword_def)
  qed (simp add: hdr_key_def keyword_def split: if_splits)
  then show ?thesis
    using find_keyword_is [OF assms keyword_no_colon] by (simp add: hdr_key_def)
qed

theorem etag_keyword_prefix_witness:
  "find_keyword \<lparr>bytes = ''if-none-x: 12345678'', cap = 64\<rparr> 0 keyword = Some (Some ETAG)"
  using etag_keyword_prefix [of "\<lparr>bytes = ''if-none-x: 12345678'', cap = 64\<rparr>" 0 "''if-none-x''" "'' 12345678''"]
  by (simp add: holds_Cons eval_simps)

text \<open>
  A \<open>Host\<close> value without a dot takes bytes of the following headers into the subdomain: the
  search for the dot runs over the line end.
\<close>

theorem host_without_dot_leaks:
  "\<exists>q p. header_line \<lparr>bytes = ''a.io'', cap = 128\<rparr> 128
       \<lparr>bytes = ''host: box'' @ crlf @ ''dnt: 1.0'' @ crlf @ crlf, cap = 8192\<rparr> zero_http_req 0 =
     Some (Continue q p) \<and> cstr (req_subdomain q) 0 = Some (''box'' @ crlf @ ''dnt: 1'')"
  by (simp add: header_line_def keyword_def header_value_def host_value_def skip_spaces.simps header_end_def
      mem_eq_def rd_n_def put_str_eq wr_def zbuf_def cstr_def eval_simps)


end
