(* ===== verification/Printf.thy ===== *)
theory Printf
  imports Types
begin

text \<open>
  \<open>snprintf\<close> with the directives the program uses: \<open>%s\<close>, \<open>%d\<close>, \<open>%u\<close>, \<open>%hu\<close>, \<open>%lu\<close>, \<open>%ld\<close> and
  \<open>%02u\<close>.  A format is the string of the source; \<open>fmt\<close> gives the text it produces, \<open>None\<close>
  for a directive that is not one of these or has no argument of its kind.
\<close>

section \<open>Formats\<close>

datatype arg = AStr string | AInt int

text \<open>\<open>%02u\<close> pads to two digits with a zero.\<close>

definition pad2 :: "string \<Rightarrow> string" where
  "pad2 s = replicate (2 - length s) (CHR ''0'') @ s"

definition conv :: "string \<Rightarrow> char \<Rightarrow> arg \<Rightarrow> string option" where
  "conv flags k a =
     (case a of
        AStr s \<Rightarrow> if k = CHR ''s'' \<and> flags = [] then Some s else None
      | AInt i \<Rightarrow>
          if k = CHR ''d'' then Some (dec_int i)
          else if k = CHR ''u'' \<and> 0 \<le> i then
            Some (if flags = ''02'' then pad2 (dec_int i) else dec_int i)
          else None)"

definition is_flag :: "char \<Rightarrow> bool" where
  "is_flag c \<longleftrightarrow> c \<in> {CHR ''0'', CHR ''2'', CHR ''l'', CHR ''h''}"

text \<open>A \<open>%lu\<close> argument of type \<open>s64\<close>.\<close>

definition lu :: "s64 \<Rightarrow> arg" where
  "lu i = AInt (uint (word_of_int i :: 64 word))"

function fmt :: "string \<Rightarrow> arg list \<Rightarrow> string option" where
  "fmt [] as = Some []"
| "fmt (c # f) as =
     (if c \<noteq> CHR ''%'' then map_option (Cons c) (fmt f as)
      else case (dropWhile is_flag f, as) of
          (k # f', a # as') \<Rightarrow>
            do { s \<leftarrow> conv (filter (\<lambda>c. c \<notin> {CHR ''l'', CHR ''h''}) (takeWhile is_flag f)) k a;
                 t \<leftarrow> fmt f' as'; Some (s @ t) }
        | _ \<Rightarrow> None)"
  by pat_completeness auto
termination
proof (relation "measure (\<lambda>(f, as). length f)", goal_cases)
  case (3 c f as b l k f' a as' s)
  then have "length (k # f') \<le> length f" by (metis length_dropWhile_le prod.inject)
  then show ?case by simp
qed simp_all

declare fmt.simps(2) [simp del]

lemma fmt_lit: "c \<noteq> CHR ''%'' \<Longrightarrow> fmt (c # f) as = map_option (Cons c) (fmt f as)"
  by (simp add: fmt.simps)

lemma fmt_text: "CHR ''%'' \<notin> set f \<Longrightarrow> fmt (f @ g) as = map_option ((@) f) (fmt g as)"
proof (induction f)
  case Nil
  then show ?case by (cases "fmt g as") simp_all
next
  case (Cons c f)
  then have "c \<noteq> CHR ''%''" "CHR ''%'' \<notin> set f" by auto
  with Cons.IH show ?case by (cases "fmt g as") (simp_all add: fmt_lit)
qed

lemma fmt_s [eval_simps]: "fmt (CHR ''%'' # CHR ''s'' # f) (AStr s # as) = map_option ((@) s) (fmt f as)"
  by (cases "fmt f as") (simp_all add: fmt.simps(2) is_flag_def conv_def)

lemma fmt_d [eval_simps]:
  "fmt (CHR ''%'' # CHR ''d'' # f) (AInt i # as) = map_option ((@) (dec_int i)) (fmt f as)"
  by (cases "fmt f as") (simp_all add: fmt.simps(2) is_flag_def conv_def)

lemma fmt_u [eval_simps]:
  "0 \<le> i \<Longrightarrow> fmt (CHR ''%'' # CHR ''u'' # f) (AInt i # as) = map_option ((@) (dec_int i)) (fmt f as)"
  "0 \<le> i \<Longrightarrow> fmt (CHR ''%'' # CHR ''l'' # CHR ''u'' # f) (AInt i # as) = map_option ((@) (dec_int i)) (fmt f as)"
  "0 \<le> i \<Longrightarrow> fmt (CHR ''%'' # CHR ''h'' # CHR ''u'' # f) (AInt i # as) = map_option ((@) (dec_int i)) (fmt f as)"
  by (cases "fmt f as"; simp add: fmt.simps(2) is_flag_def conv_def)+

lemmas fmt_simps [eval_simps] = fmt.simps(1) fmt_lit

section \<open>Printing into an array\<close>

text \<open>
  \<open>snprintf(b + p, n, ...)\<close> of the text \<open>s\<close>: at most \<open>n - 1\<close> bytes and a zero byte are written;
  the result is the length of the whole text.
\<close>

definition snprintf :: "cbuf \<Rightarrow> nat \<Rightarrow> nat \<Rightarrow> string \<Rightarrow> (nat \<times> cbuf) option" where
  "snprintf b p n s =
     (if n = 0 then Some (length s, b)
      else do { b \<leftarrow> wr b p (take (n - 1) s @ [NUL]); Some (length s, b) })"

lemma snprintf_fits:
  "length s < n \<Longrightarrow> snprintf b p n s = map_option (Pair (length s)) (wr b p (s @ [NUL]))"
  by (cases "wr b p (s @ [NUL])") (simp_all add: snprintf_def)

text \<open>
  Text appended to what an array starts with: the array of \<open>n\<close> bytes that holds \<open>s\<close> and zeros.
  This is how the program builds its messages, piece by piece.
\<close>

definition text_buf :: "nat \<Rightarrow> string \<Rightarrow> cbuf" where
  "text_buf n s = \<lparr>bytes = s @ [NUL], cap = n\<rparr>"

lemma text_buf_start: "length s < n \<Longrightarrow> wr (zbuf n) 0 (s @ [NUL]) = Some (text_buf n s)"
  by (simp add: wr_def zbuf_def text_buf_def)

lemma text_buf_append:
  assumes "length s + length t < n"
  shows "wr (text_buf n s) (length s) (t @ [NUL]) = Some (text_buf n (s @ t))"
proof -
  have "drop (length s + (length t + 1)) (s @ [NUL]) = []" by simp
  then show ?thesis using assms by (simp add: wr_def text_buf_def)
qed

lemma text_buf_snprintf:
  "length s + length t < n \<Longrightarrow> length t < k \<Longrightarrow>
     snprintf (text_buf n s) (length s) k t = Some (length t, text_buf n (s @ t))"
  by (simp add: snprintf_fits text_buf_append)

lemma text_buf_simps [simp]: "cap (text_buf n s) = n" "length s < n \<Longrightarrow> wf_buf (text_buf n s)"
  by (simp_all add: text_buf_def wf_buf_def)

lemma text_buf_cstr: "NUL \<notin> set s \<Longrightarrow> length s < n \<Longrightarrow> cstr (text_buf n s) 0 = Some s"
  by (simp add: text_buf_def cstr_def)

lemma text_buf_strnlen: "NUL \<notin> set s \<Longrightarrow> length s < n \<Longrightarrow> strnlen (text_buf n s) 0 k = Some (min k (length s))"
  by (rule strnlen_cstr [OF _ text_buf_cstr]) simp_all

lemma NUL_dec [simp]: "NUL \<notin> set (dec n)" and NUL_dec_int [simp]: "NUL \<notin> set (dec_int i)"
proof -
  show n: "NUL \<notin> set (dec n)" for n using dec_isdigit [of NUL n] by (auto simp: isdigit_def)
  show "NUL \<notin> set (dec_int i)" using n by (simp add: dec_int_def)
qed

text \<open>The idiom \<open>n = snprintf(nullptr, 0, ...); buf = calloc(n + 1, 1); snprintf(buf, n + 1, ...)\<close>.\<close>

lemma snprintf_whole:
  "Option.bind (snprintf (zbuf (length t + 1)) 0 (length t + 1) t) (\<lambda>(_, b). rd_n b 0 (length t)) = Some t"
proof -
  have w: "wr (zbuf (length t + 1)) 0 (t @ [NUL]) = Some (text_buf (length t + 1) t)"
    by (rule text_buf_start) simp
  from holds_rd_n [OF holds_wr [OF w], of "length t"] w show ?thesis
    by (simp add: snprintf_fits)
qed

text \<open>How long a printed machine number is.\<close>

lemma length_dec_ge: "10 ^ k \<le> n \<Longrightarrow> k < length (dec n)"
proof (induction n arbitrary: k rule: dec.induct)
  case (1 n)
  show ?case
  proof (cases "n < 10")
    case True
    with 1 have "(10 :: nat) ^ k < 10" by simp
    then have "k = 0" by (cases k) simp_all
    then show ?thesis by simp
  next
    case False
    show ?thesis
    proof (cases k)
      case (Suc j)
      with "1.prems" have "10 ^ j \<le> n div 10" by (simp add: less_eq_div_iff_mult_less_eq mult.commute)
      from "1.IH" [OF False this] Suc False show ?thesis by (simp add: dec.simps [of n])
    qed (simp add: False)
  qed
qed

lemma length_dec_int_u32: "length (dec_int (uint (w :: u32))) \<le> 10"
proof -
  have "unat w < 2 ^ 32" using unsigned_less [of w] by simp
  then show ?thesis using length_dec_bound [of "unat w" 10] by (simp add: dec_int_def)
qed

lemma length_dec_int_u16: "length (dec_int (uint (w :: u16))) \<le> 5"
proof -
  have "unat w < 2 ^ 16" using unsigned_less [of w] by simp
  then show ?thesis using length_dec_bound [of "unat w" 5] by (simp add: dec_int_def)
qed

lemma length_dec_int_u64: "0 \<le> i \<Longrightarrow> i < 2 ^ 64 \<Longrightarrow> length (dec_int i) \<le> 20"
  using length_dec_bound [of "nat i" 20] by (simp add: dec_int_def)

end
