(* ===== verification/Http_Response.thy ===== *)
theory Http_Response
  imports Printf
begin

text \<open>
  The response side of \<open>src/net_http.c\<close> and \<open>net_host_build\<close> of \<open>src/net.c\<close>: the entity tag, the
  content type from the configured table of extensions, the date, and the host part of a
  redirect.  The file system is an argument: \<open>open_stat name\<close> is \<open>None\<close> when \<open>open\<close> fails,
  \<open>Some None\<close> when \<open>fstat\<close> fails, and otherwise the modification time and the size.
\<close>

section \<open>The date\<close>

record tm =
  tm_sec :: int
  tm_min :: int
  tm_hour :: int
  tm_mday :: int
  tm_mon :: int
  tm_year :: int
  tm_wday :: int

definition wday_names :: "string list" where
  "wday_names = [''Sun'', ''Mon'', ''Tue'', ''Wed'', ''Thu'', ''Fri'', ''Sat'']"

definition mon_names :: "string list" where
  "mon_names = [''Jan'', ''Feb'', ''Mar'', ''Apr'', ''May'', ''Jun'', ''Jul'', ''Aug'', ''Sep'', ''Oct'',
     ''Nov'', ''Dec'']"

text \<open>A name of \<open>strftime\<close>'s tables; a question mark for a value out of range.\<close>

definition name_at :: "string list \<Rightarrow> int \<Rightarrow> string" where
  "name_at names i = (if 0 \<le> i \<and> i < int (length names) then names ! nat i else ''?'')"

text \<open>\<open>strftime\<close> with the format \<open>"%a, %d %b %Y %H:%M:%S GMT"\<close> in the C locale.\<close>

definition date_text :: "tm \<Rightarrow> string" where
  "date_text t =
     name_at wday_names (tm_wday t) @ '', '' @ pad2 (dec_int (tm_mday t)) @ '' '' @
     name_at mon_names (tm_mon t) @ '' '' @ dec_int (1900 + tm_year t) @ '' '' @
     pad2 (dec_int (tm_hour t)) @ '':'' @ pad2 (dec_int (tm_min t)) @ '':'' @
     pad2 (dec_int (tm_sec t)) @ '' GMT''"

definition strftime :: "cbuf \<Rightarrow> tm \<Rightarrow> cbuf option" where
  "strftime b t = (if length (date_text t) < cap b then wr b 0 (date_text t @ [NUL]) else None)"

section \<open>The entity tag\<close>

definition get_etag ::
  "(string \<Rightarrow> (s64 \<times> s64) option option) \<Rightarrow> cbuf \<Rightarrow> cbuf \<Rightarrow> cbuf \<Rightarrow> (s32 \<times> cbuf) option" where
  "get_etag open_stat dst src path = do {
     let etag_n = 32;
     etag_len \<leftarrow> strnlen src 0 etag_n;
     if etag_len = etag_n then Some (-1, dst)
     else do {
       name \<leftarrow> cstr path 0;
       case open_stat name of
         None \<Rightarrow> Some (-1, dst)
       | Some None \<Rightarrow> Some (-1, dst)
       | Some (Some (st_mtime, st_size)) \<Rightarrow> do {
           text \<leftarrow> fmt ''%lu_%lu'' [lu st_mtime, lu st_size];
           (_, dst) \<leftarrow> snprintf dst 0 etag_n text;
           s \<leftarrow> rd_n src 0 (etag_len + 1);
           same \<leftarrow> mem_eq dst 0 s;
           if same then do { dst \<leftarrow> wr dst 0 s; Some (304, dst) }
           else Some (0, dst)
         }
     }
   }"

section \<open>The content type\<close>

text \<open>The start of the extension: behind the last dot of the path.\<close>

function path_ext :: "cbuf \<Rightarrow> nat \<Rightarrow> nat \<Rightarrow> nat option" where
  "path_ext path p1 n = do {
     r \<leftarrow> memchr path p1 (CHR ''.'') n;
     case r of None \<Rightarrow> Some p1
     | Some p2 \<Rightarrow> path_ext path (p2 + 1) (n - (p2 - p1 + 1))
   }"
  by pat_completeness auto
termination
proof (relation "measure (\<lambda>(path, p1, n). n)")
  fix path p1 n r p2
  assume "memchr path p1 (CHR ''.'') n = Some r" "r = Some p2"
  then have "p1 \<le> p2" "p2 < p1 + n" using memchr_SomeD(1,2) by blast+
  then show "((path, p2 + 1, n - (p2 - p1 + 1)), path, p1, n) \<in> measure (\<lambda>(path, p1, n). n)"
    by simp
qed simp

declare path_ext.simps [simp del]

text \<open>
  The two loops over \<open>conf_p->mime\<close>: an error (\<open>return -1\<close>), a match, or the end of the list.
\<close>

datatype ext_result = ExtErr | ExtFound | ExtMiss

function ext_scan :: "cbuf \<Rightarrow> nat \<Rightarrow> cbuf \<Rightarrow> nat \<Rightarrow> nat \<Rightarrow> ext_result option" where
  "ext_scan path p1 mime p_ext_start ext_n =
     (if ext_n = 0 then Some ExtMiss
      else do {
        r \<leftarrow> memchr mime p_ext_start (CHR '','') ext_n;
        r \<leftarrow> (case r of None \<Rightarrow> memchr mime p_ext_start (CHR '']'') ext_n | Some q \<Rightarrow> Some (Some q));
        case r of None \<Rightarrow> Some ExtErr
        | Some p_ext_end \<Rightarrow>
            (let ext_len = p_ext_end - p_ext_start in
             if 32 \<le> ext_len then Some ExtErr
             else do {
               ext \<leftarrow> rd_n mime p_ext_start ext_len;
               same \<leftarrow> mem_eq path p1 (ext @ [NUL]);
               if same then Some ExtFound
               else do {
                 c \<leftarrow> rd mime (p_ext_start + (ext_len + 1));
                 if c = CHR '']'' then Some ExtMiss
                 else ext_scan path p1 mime (p_ext_start + (ext_len + 1)) (ext_n - (ext_len + 1))
               }
             })
      })"
  by pat_completeness auto
termination by (relation "measure (\<lambda>(path, p1, mime, p, n). n)") auto

declare ext_scan.simps [simp del]

datatype mime_result = MimeErr | MimeFound string | MimeMiss

function mime_scan :: "cbuf \<Rightarrow> nat \<Rightarrow> cbuf \<Rightarrow> nat \<Rightarrow> nat \<Rightarrow> mime_result option" where
  "mime_scan path p1 mime p_start mime_n =
     (if mime_n = 0 then Some MimeMiss
      else do {
        r \<leftarrow> memchr mime p_start (CHR ''['') mime_n;
        case r of None \<Rightarrow> Some MimeErr
        | Some p_ext_start \<Rightarrow> do {
            let mime_len = p_ext_start - p_start;
            r \<leftarrow> memchr mime p_ext_start (CHR '']'') (mime_n - mime_len);
            case r of None \<Rightarrow> Some MimeErr
            | Some p_ext_end \<Rightarrow> do {
                let ext_n = p_ext_end - p_ext_start;
                let mime_next_off = (p_ext_end + 1) - p_start;
                found \<leftarrow> ext_scan path p1 mime (p_ext_start + 1) ext_n;
                case found of
                  ExtErr \<Rightarrow> Some MimeErr
                | ExtFound \<Rightarrow>
                    if 64 \<le> mime_len then Some MimeErr
                    else do { name \<leftarrow> rd_n mime p_start mime_len; Some (MimeFound name) }
                | ExtMiss \<Rightarrow>
                    mime_scan path p1 mime (p_start + mime_next_off) (mime_n - mime_next_off)
              }
          }
      })"
  by pat_completeness auto
termination
proof (relation "measure (\<lambda>(path, p1, mime, p, n). n)", goal_cases)
  case (2 path p1 mime p_start mime_n r s len r' e ext_n off found)
  then have "p_start \<le> s" "s \<le> e" using memchr_SomeD(1) by blast+
  with 2 show ?case by simp
qed simp

declare mime_scan.simps [simp del]

section \<open>The response\<close>

definition net_http_res_build ::
  "(string \<Rightarrow> (s64 \<times> s64) option option) \<Rightarrow> fws_conf \<Rightarrow> tm \<Rightarrow> fws_http_req \<Rightarrow> cbuf \<Rightarrow> nat
     \<Rightarrow> (s32 \<times> fws_http_res) option" where
  "net_http_res_build open_stat conf_p fws_time http_req path path_n = do {
     let http_res = zero_http_res;
     d \<leftarrow> strftime (res_date http_res) fws_time;
     let http_res = http_res\<lparr>res_date := d\<rparr>;
     (etag_ret, e) \<leftarrow> get_etag open_stat (res_etag http_res) (req_etag http_req) path;
     let http_res = http_res\<lparr>res_etag := e\<rparr>;
     if etag_ret < 0 then Some (-1, http_res)
     else if etag_ret = 304 then Some (304, http_res\<lparr>res_code := 304\<rparr>)
     else do {
       let http_res = http_res\<lparr>res_code := 200, res_connection := 0\<rparr>;
       n \<leftarrow> strnlen path 0 path_n;
       p1 \<leftarrow> path_ext path 0 n;
       mime_n \<leftarrow> strnlen (conf_mime conf_p) 0 (cap (conf_mime conf_p));
       r \<leftarrow> mime_scan path p1 (conf_mime conf_p) 0 mime_n;
       case r of
         MimeErr \<Rightarrow> Some (-1, http_res)
       | MimeFound name \<Rightarrow> do {
           c \<leftarrow> wr (zbuf 64) 0 name;
           Some (0, http_res\<lparr>res_content := c\<rparr>)
         }
       | MimeMiss \<Rightarrow> do {
           k \<leftarrow> strnlen (conf_mime_default conf_p) 0 (cap (conf_mime_default conf_p));
           s \<leftarrow> rd_n (conf_mime_default conf_p) 0 k;
           c \<leftarrow> wr (zbuf 64) 0 s;
           Some (0, http_res\<lparr>res_content := c\<rparr>)
         }
     }
   }"

section \<open>The host of a redirect\<close>

definition net_host_build :: "cbuf \<Rightarrow> fws_http_req \<Rightarrow> fws_conf \<Rightarrow> cbuf option" where
  "net_host_build host_buf http_req conf = do {
     port_text \<leftarrow> fmt '':%hu'' [AInt (uint (conf_https_port conf))];
     port_buf \<leftarrow> (if conf_https_port conf \<noteq> 443
                  then map_option snd (snprintf (zbuf 8) 0 8 port_text) else Some (zbuf 8));
     n \<leftarrow> strnlen (req_subdomain http_req) 0 (cap (req_subdomain http_req));
     let p = 0;
     host_buf \<leftarrow> wr host_buf p [NUL];
     s \<leftarrow> rd_n (req_subdomain http_req) 0 n;
     host_buf \<leftarrow> wr host_buf p s;
     let p = p + n;
     host_buf \<leftarrow> wr host_buf p (CHR ''.'' # [NUL]);
     let p = p + 1;
     n \<leftarrow> strnlen (conf_domain conf) 0 (cap (conf_domain conf));
     s \<leftarrow> rd_n (conf_domain conf) 0 n;
     host_buf \<leftarrow> wr host_buf p s;
     let p = p + n;
     host_buf \<leftarrow> wr host_buf p [NUL];
     n \<leftarrow> strnlen port_buf 0 8;
     s \<leftarrow> rd_n port_buf 0 n;
     host_buf \<leftarrow> wr host_buf p s;
     let p = p + n;
     wr host_buf p [NUL]
   }"

text \<open>The message of \<open>net_http_path_redir\<close>, as it is handed to \<open>net_443_write\<close>.\<close>

definition res_301_fmt :: string where
  "res_301_fmt = ''HTTP/1.1 301 Moved permanently'' @ crlf @ ''Location: https://%s%s'' @ crlf @
     ''Content-Length: 0'' @ crlf @ ''Connection: keep-alive'' @ crlf @
     ''Keep-Alive: timeout=3'' @ crlf @ crlf"

definition path_redir_text :: "fws_http_req \<Rightarrow> fws_conf \<Rightarrow> fws_file \<Rightarrow> string option" where
  "path_redir_text http_req conf file = do {
     host_buf \<leftarrow> net_host_build (zbuf 512) http_req conf;
     host \<leftarrow> cstr host_buf 0;
     uri \<leftarrow> cstr (file_uri_path file) 0;
     text \<leftarrow> fmt res_301_fmt [AStr host, AStr uri];
     let n = length text;
     (_, res_buf) \<leftarrow> snprintf (zbuf (n + 1)) 0 (n + 1) text;
     rd_n res_buf 0 n
   }"

section \<open>Entity tags\<close>

definition u64_of :: "s64 \<Rightarrow> nat" where
  "u64_of i = unat (word_of_int i :: 64 word)"

definition etag_of :: "s64 \<Rightarrow> s64 \<Rightarrow> string" where
  "etag_of mtime sz = dec (u64_of mtime) @ CHR ''_'' # dec (u64_of sz)"

lemma fmt_etag: "fmt ''%lu_%lu'' [lu m, lu s] = Some (etag_of m s)"
  by (simp add: eval_simps lu_def etag_of_def u64_of_def dec_int_def)

lemma dec_inj: "dec m = dec n \<longleftrightarrow> m = n"
  by (metis digits_val_dec)

lemma dec_takeWhile: "takeWhile isdigit (dec n) = dec n"
  using dec_isdigit by (simp add: takeWhile_eq_all_conv)

lemma etag_of_inj: "etag_of m s = etag_of m' s' \<longleftrightarrow> u64_of m = u64_of m' \<and> u64_of s = u64_of s'"
proof
  assume e: "etag_of m s = etag_of m' s'"
  have tw: "takeWhile isdigit (dec k @ CHR ''_'' # r) = dec k" for k r
    using dec_isdigit by (simp add: takeWhile_append isdigit_def)
  from arg_cong [OF e, of "takeWhile isdigit"] have "dec (u64_of m) = dec (u64_of m')"
    by (simp only: etag_of_def tw)
  with e show "u64_of m = u64_of m' \<and> u64_of s = u64_of s'"
    by (auto simp: etag_of_def dec_inj)
qed (simp add: etag_of_def)

lemma NUL_etag [simp]: "NUL \<notin> set (etag_of m s)"
  by (simp add: etag_of_def)

text \<open>An array of \<open>n\<close> bytes that holds the string \<open>s\<close>.\<close>

definition field_is :: "cbuf \<Rightarrow> nat \<Rightarrow> string \<Rightarrow> bool" where
  "field_is b n s \<longleftrightarrow> wf_buf b \<and> cap b = n \<and> cstr b 0 = Some s"

lemma field_isD:
  assumes "field_is b n s"
  shows "strnlen b 0 n = Some (length s)" "rd_n b 0 (length s) = Some s" "length s < n" "NUL \<notin> set s"
    "cap b = n"
proof -
  have h: "holds b 0 (s @ [NUL])" "NUL \<notin> set s" and c: "cap b = n"
    using assms cstr_iff by (auto simp: field_is_def)
  then show "length s < n" "cap b = n" using holds_le_cap [OF h(1)] by simp_all
  then show "strnlen b 0 n = Some (length s)" "rd_n b 0 (length s) = Some s" "NUL \<notin> set s"
    using strnlen_holds [OF h, of n] holds_rd_n [OF h(1), of "length s"] h(2) by simp_all
qed

lemma get_etag_is:
  assumes src: "field_is src 32 tag" and path: "cstr path 0 = Some name"
    and st: "open_stat name = Some (Some (m, s))"
  shows "\<exists>dst. get_etag open_stat (zbuf 32) src path =
      Some (if tag = take 31 (etag_of m s) then 304 else 0, dst) \<and>
     wf_buf dst \<and> cap dst = 32 \<and> dst = text_buf 32 (take 31 (etag_of m s))"
proof -
  let ?t = "take 31 (etag_of m s)"
  note sf = field_isD [OF src]
  have len: "length tag < 32" and n: "strnlen src 0 32 = Some (length tag)" by (fact sf(3), fact sf(1))
  have hs: "holds src 0 (tag @ [NUL])" using src cstr_iff by (auto simp: field_is_def)
  have r: "rd_n src 0 (length tag + 1) = Some (tag @ [NUL])"
    using holds_rd_n [OF hs, of "length tag + 1"] by simp
  have dst: "wr (zbuf 32) 0 (?t @ [NUL]) = Some (text_buf 32 ?t)"
    by (rule text_buf_start) simp
  have nt: "NUL \<notin> set ?t" by (auto dest: in_set_takeD)
  have lt: "length ?t < 32" by simp
  have "(?t @ [NUL]) @ replicate (32 - length (?t @ [NUL])) NUL = ?t @ replicate (32 - length ?t) NUL"
    using lt by (simp add: Suc_diff_Suc flip: replicate_Suc)
  with holds_zbuf_wr(1) [OF dst] have h: "holds (text_buf 32 ?t) 0 (?t @ replicate (32 - length ?t) NUL)"
    by simp
  have "mem_eq (text_buf 32 ?t) 0 (tag @ [NUL]) = Some (tag = ?t)"
    using mem_eq_holds [OF h, of "tag @ [NUL]"] prefix_term_iff [OF sf(4) nt, of "32 - length ?t"] len
    by (simp add: min_def)
  moreover have "wr (text_buf 32 ?t) 0 (?t @ [NUL]) = Some (text_buf 32 ?t)"
    by (simp add: wr_def text_buf_def)
  ultimately show ?thesis
    using n len path st r dst
    by (auto simp: get_etag_def fmt_etag snprintf_def)
qed

section \<open>The extension table\<close>

type_synonym mime_table = "(string \<times> string list) list"

fun join :: "string list \<Rightarrow> string" where
  "join [] = []"
| "join [e] = e"
| "join (e # es) = e @ CHR '','' # join es"

definition mime_entry :: "string \<times> string list \<Rightarrow> string" where
  "mime_entry t = fst t @ CHR ''['' # join (snd t) @ '']''"

definition mime_text :: "mime_table \<Rightarrow> string" where
  "mime_text t = concat (map mime_entry t)"

definition ext_ok :: "string \<Rightarrow> bool" where
  "ext_ok e \<longleftrightarrow> e \<noteq> [] \<and> length e < 32 \<and> set e \<inter> {CHR '','', CHR '']'', NUL} = {}"

definition entry_ok :: "string \<times> string list \<Rightarrow> bool" where
  "entry_ok t \<longleftrightarrow> CHR ''['' \<notin> set (fst t) \<and> NUL \<notin> set (fst t) \<and> snd t \<noteq> [] \<and> list_all ext_ok (snd t)"

definition ext_of :: "string \<Rightarrow> string" where
  "ext_of s = (let t = takeWhile (\<lambda>c. c \<noteq> CHR ''.'') (rev s) in rev t)"

lemma ext_of_last: "CHR ''.'' \<notin> set y \<Longrightarrow> ext_of (x @ CHR ''.'' # y) = y"
  by (simp add: ext_of_def)

lemma ext_of_none: "CHR ''.'' \<notin> set s \<Longrightarrow> ext_of s = s"
proof -
  assume "CHR ''.'' \<notin> set s"
  then have "takeWhile (\<lambda>c. c \<noteq> CHR ''.'') (rev s) = rev s"
    by (intro takeWhile_eq_all_conv [THEN iffD2]) auto
  then show ?thesis unfolding ext_of_def Let_def by (simp only: rev_rev_ident)
qed

lemma ext_of_split: "CHR ''.'' \<notin> set x \<Longrightarrow> ext_of (x @ CHR ''.'' # y) = ext_of y"
proof (cases "CHR ''.'' \<in> set y")
  case True
  then obtain a b where "y = a @ CHR ''.'' # b" "CHR ''.'' \<notin> set b" by (meson split_list_last)
  then show ?thesis
    using ext_of_last [of b a] ext_of_last [of b "x @ CHR ''.'' # a"] by simp
qed (simp add: ext_of_last ext_of_none)

lemma path_ext_is:
  "holds path p (s @ NUL # z) \<Longrightarrow>
     \<exists>q. path_ext path p (length s) = Some q \<and> holds path q (ext_of s @ NUL # z)"
proof (induction "length s" arbitrary: p s rule: less_induct)
  case less
  show ?case
  proof (cases "CHR ''.'' \<in> set s")
    case False
    then have "memchr path p (CHR ''.'') (length s) = Some None"
      using memchr_holds_None [of path p s] less.prems by (simp add: holds_append)
    then show ?thesis using False less.prems
      by (subst path_ext.simps) (simp add: ext_of_none)
  next
    case True
    then obtain x y where s: "s = x @ CHR ''.'' # y" "CHR ''.'' \<notin> set x" by (meson split_list_first)
    have m: "memchr path p (CHR ''.'') (length s) = Some (Some (p + length x))"
      using memchr_holds [of path p x "CHR ''.''" "y @ NUL # z" "length s"] less.prems s by simp
    have "holds path (p + length x + 1) (y @ NUL # z)"
      using less.prems s(1) by (simp add: holds_append holds_Cons)
    from less.hyps [OF _ this] s obtain q where
      "path_ext path (p + length x + 1) (length y) = Some q" "holds path q (ext_of y @ NUL # z)" by auto
    with m s show ?thesis
      by (subst path_ext.simps) (simp add: ext_of_split)
  qed
qed

lemma prefix_NUL: "NUL \<notin> set x \<Longrightarrow> NUL \<notin> set y \<Longrightarrow> prefix (x @ [NUL]) (y @ NUL # z) \<longleftrightarrow> x = y"
proof (induction x arbitrary: y)
  case Nil
  then show ?case by (cases y) auto
next
  case (Cons a x)
  then show ?case by (cases y) auto
qed

lemma ext_scan_is:
  assumes path: "holds path p1 (ext @ NUL # z)" "NUL \<notin> set ext" "32 \<le> length z"
  shows "es \<noteq> [] \<Longrightarrow> list_all ext_ok es \<Longrightarrow> holds mime p (join es @ CHR '']'' # c # rest) \<Longrightarrow>
     ext_scan path p1 mime p (Suc (length (join es))) =
       Some (if ext \<in> set es then ExtFound else ExtMiss)"
proof (induction es arbitrary: p rule: join.induct)
  case (2 e)
  then have e: "ext_ok e" and h: "holds mime p (e @ CHR '']'' # c # rest)" by simp_all
  have "memchr mime p (CHR '','') (Suc (length e)) = Some None"
    by (rule memchr_holds_None [of mime p "e @ [CHR '']'']"])
      (use h e in \<open>auto simp: ext_ok_def holds_append holds_Cons\<close>)
  moreover have "memchr mime p (CHR '']'') (Suc (length e)) = Some (Some (p + length e))"
    by (rule memchr_holds [OF h]) (use e in \<open>auto simp: ext_ok_def\<close>)
  moreover have "rd_n mime p (length e) = Some e" using holds_rd_n [OF h, of "length e"] by simp
  moreover have "mem_eq path p1 (e @ [NUL]) = Some (e = ext)"
    using mem_eq_holds [OF path(1), of "e @ [NUL]"] path e prefix_NUL [of e ext z] by (simp add: ext_ok_def)
  moreover have "rd mime (p + Suc (length e)) = Some c" using h by (simp add: holds_append holds_Cons)
  ultimately show ?case
    using e by (subst ext_scan.simps)
      (auto simp: ext_ok_def Let_def ext_scan.simps [of path p1 mime _ 0] simp del: memchr.simps)
next
  case (3 e e2 es)
  let ?j = "join (e2 # es)"
  have e: "ext_ok e" "ext_ok e2" and h: "holds mime p (e @ CHR '','' # ?j @ CHR '']'' # c # rest)"
    using "3.prems" by simp_all
  obtain d j where j: "?j = d # j" "d \<noteq> CHR '']''"
    using e(2) by (cases e2; cases es) (auto simp: ext_ok_def)
  have "memchr mime p (CHR '','') (Suc (length (join (e # e2 # es)))) = Some (Some (p + length e))"
    by (rule memchr_holds [OF h]) (use e in \<open>auto simp: ext_ok_def\<close>)
  moreover have "rd_n mime p (length e) = Some e" using holds_rd_n [OF h, of "length e"] by simp
  moreover have "mem_eq path p1 (e @ [NUL]) = Some (e = ext)"
    using mem_eq_holds [OF path(1), of "e @ [NUL]"] path e prefix_NUL [of e ext z] by (simp add: ext_ok_def)
  moreover have "rd mime (p + Suc (length e)) = Some d"
    using h unfolding j(1) by (simp add: holds_append holds_Cons)
  moreover have "holds mime (p + Suc (length e)) (?j @ CHR '']'' # c # rest)"
    using h by (simp add: holds_append holds_Cons)
  from "3.IH" [OF _ _ this] "3.prems" have "ext_scan path p1 mime (p + Suc (length e)) (Suc (length ?j)) =
      Some (if ext \<in> set (e2 # es) then ExtFound else ExtMiss)" by simp
  ultimately show ?case
    using e j(2) by (subst ext_scan.simps) (auto simp: ext_ok_def Let_def simp del: memchr.simps)
qed simp

definition lookup :: "string \<Rightarrow> mime_table \<Rightarrow> mime_result" where
  "lookup ext t =
     (case find (\<lambda>e. ext \<in> set (snd e)) t of
        None \<Rightarrow> MimeMiss
      | Some e \<Rightarrow> if 64 \<le> length (fst e) then MimeErr else MimeFound (fst e))"

lemma mime_scan_is:
  assumes path: "holds path p1 (ext @ NUL # z)" "NUL \<notin> set ext" "32 \<le> length z"
  shows "list_all entry_ok t \<Longrightarrow> holds mime p (mime_text t @ NUL # rest) \<Longrightarrow>
     mime_scan path p1 mime p (length (mime_text t)) = Some (lookup ext t)"
proof (induction t arbitrary: p)
  case Nil
  then show ?case by (subst mime_scan.simps) (simp add: mime_text_def lookup_def)
next
  case (Cons e t)
  obtain name es where e: "e = (name, es)" by (cases e)
  have ok: "CHR ''['' \<notin> set name" "es \<noteq> []" "list_all ext_ok es"
    using Cons.prems e by (simp_all add: entry_ok_def)
  have nb: "CHR '']'' \<notin> set (join es)"
    using ok(3) by (induction es rule: join.induct) (auto simp: ext_ok_def)
  let ?T = "mime_text t @ NUL # rest"
  have h: "holds mime p (name @ CHR ''['' # join es @ CHR '']'' # ?T)"
    using Cons.prems(2) e by (simp add: mime_text_def mime_entry_def)
  have len: "length (mime_text (e # t)) = length name + (length (join es) + 2) + length (mime_text t)"
    by (simp add: mime_text_def mime_entry_def e)
  have o: "memchr mime p (CHR ''['') (length (mime_text (e # t))) = Some (Some (p + length name))"
    by (rule memchr_holds [OF h ok(1)]) (simp add: len)
  have hb: "holds mime (p + length name) ((CHR ''['' # join es) @ CHR '']'' # ?T)"
    using h by (simp add: holds_append)
  have c: "memchr mime (p + length name) (CHR '']'') (length (mime_text (e # t)) - length name) =
      Some (Some (p + length name + Suc (length (join es))))"
    using memchr_holds [OF hb, of "length (mime_text (e # t)) - length name"] nb by (simp add: len)
  obtain d r where T: "?T = d # r" by (cases "mime_text t") auto
  have he: "holds mime (Suc (p + length name)) (join es @ CHR '']'' # d # r)"
    using hb unfolding T by (simp add: holds_Cons)
  note ext = ext_scan_is [OF path ok(2,3) he]
  have nm: "rd_n mime p (length name) = Some name" using holds_rd_n [OF h, of "length name"] by simp
  have nx: "holds mime (p + (length name + (length (join es) + 2))) ?T"
    using h by (simp add: holds_append holds_Cons add.assoc)
  have "mime_scan path p1 mime (p + (length name + (length (join es) + 2))) (length (mime_text t)) =
      Some (lookup ext t)"
    by (rule Cons.IH [OF _ nx]) (use Cons.prems in simp)
  then show ?case
    using o c ext nm e len
    by (subst mime_scan.simps) (auto simp: lookup_def add.assoc)
qed


section \<open>The response as a whole\<close>

text \<open>What a response needs to know: the date, the file, its tag, the table.\<close>

definition tag_of :: "s64 \<Rightarrow> s64 \<Rightarrow> string" where
  "tag_of mtime sz = take 31 (etag_of mtime sz)"

definition res_base :: "tm \<Rightarrow> s64 \<Rightarrow> s64 \<Rightarrow> fws_http_res" where
  "res_base t mtime sz =
     zero_http_res\<lparr>res_date := text_buf 32 (date_text t), res_etag := text_buf 32 (tag_of mtime sz)\<rparr>"

definition res_200 :: "tm \<Rightarrow> s64 \<Rightarrow> s64 \<Rightarrow> fws_http_res" where
  "res_200 t mtime sz = (res_base t mtime sz)\<lparr>res_code := 200, res_connection := 0\<rparr>"

definition conf_mime_is :: "fws_conf \<Rightarrow> mime_table \<Rightarrow> string \<Rightarrow> bool" where
  "conf_mime_is c t d \<longleftrightarrow>
     (\<exists>rest. holds (conf_mime c) 0 (mime_text t @ NUL # rest)) \<and> cap (conf_mime c) = 1024 \<and>
     list_all entry_ok t \<and>
     wf_buf (conf_mime_default c) \<and> cap (conf_mime_default c) = 128 \<and>
     cstr (conf_mime_default c) 0 = Some d"

text \<open>A path as \<open>file_parse\<close> leaves it: a C string with zero bytes behind it.\<close>

definition path_is :: "cbuf \<Rightarrow> string \<Rightarrow> bool" where
  "path_is b name \<longleftrightarrow> wf_buf b \<and> cstr b 0 = Some name \<and>
     (\<exists>z. 32 \<le> length z \<and> holds b 0 (name @ NUL # z))"

lemma NUL_join: "list_all ext_ok es \<Longrightarrow> NUL \<notin> set (join es)"
  by (induction es rule: join.induct) (auto simp: ext_ok_def)

lemma NUL_mime_text: "list_all entry_ok t \<Longrightarrow> NUL \<notin> set (mime_text t)"
  by (induction t) (auto simp: mime_text_def mime_entry_def entry_ok_def dest: NUL_join)

lemma strftime_is:
  "length (date_text t) < 32 \<Longrightarrow> strftime (zbuf 32) t = Some (text_buf 32 (date_text t))"
  by (simp add: strftime_def text_buf_start)

lemma res_build_is:
  assumes path: "path_is path name" "length name < n"
    and conf: "conf_mime_is c t d"
    and tag: "field_is (req_etag q) 32 tag"
    and st: "open_stat name = Some (Some (m, s))" and date: "length (date_text tm) < 32"
  shows "net_http_res_build open_stat c tm q path n =
    (if tag = tag_of m s then Some (304, (res_base tm m s)\<lparr>res_code := 304\<rparr>)
     else case lookup (ext_of name) t of
       MimeErr \<Rightarrow> Some (-1, res_200 tm m s)
     | MimeFound f \<Rightarrow> Some (0, (res_200 tm m s)\<lparr>res_content := \<lparr>bytes = f, cap = 64\<rparr>\<rparr>)
     | MimeMiss \<Rightarrow> map_option (\<lambda>c. (0, (res_200 tm m s)\<lparr>res_content := c\<rparr>)) (wr (zbuf 64) 0 d))"
proof -
  obtain z where z: "32 \<le> length z" "holds path 0 (name @ NUL # z)" and w: "wf_buf path" "cstr path 0 = Some name"
    using path(1) by (auto simp: path_is_def)
  have nn: "NUL \<notin> set name" using w cstr_iff by blast
  then have ne: "NUL \<notin> set (ext_of name)"
    using set_takeWhileD by (fastforce simp: ext_of_def)
  obtain dst where e: "get_etag open_stat (zbuf 32) (req_etag q) path =
      Some (if tag = tag_of m s then 304 else 0, dst)" "dst = text_buf 32 (tag_of m s)"
    using get_etag_is [where open_stat = open_stat and name = name, OF tag w(2) st] by (auto simp: tag_of_def)
  have zr: "res_date zero_http_res = zbuf 32" "res_etag zero_http_res = zbuf 32"
    by (simp_all add: zero_http_res_def)
  have sl: "strnlen path 0 n = Some (length name)" using strnlen_cstr [OF w, of n] path(2) by simp
  obtain q' where pe: "path_ext path 0 (length name) = Some q'" "holds path q' (ext_of name @ NUL # z)"
    using path_ext_is [OF z(2)] by blast
  obtain rest where mh: "holds (conf_mime c) 0 (mime_text t @ NUL # rest)" "list_all entry_ok t"
    and mc: "cap (conf_mime c) = 1024" and dd: "wf_buf (conf_mime_default c)"
      "cap (conf_mime_default c) = 128" "cstr (conf_mime_default c) 0 = Some d"
    using conf by (auto simp: conf_mime_is_def)
  have "length (mime_text t) < 1024" using holds_le_cap [OF mh(1)] mc by simp
  moreover have "holds (conf_mime c) 0 (mime_text t @ [NUL])"
    using mh(1) by (simp add: holds_append holds_Cons)
  ultimately have ml: "strnlen (conf_mime c) 0 1024 = Some (length (mime_text t))"
    using strnlen_holds [of "conf_mime c" 0 "mime_text t" 1024] NUL_mime_text [OF mh(2)] by simp
  note ms = mime_scan_is [OF pe(2) ne z(1) mh(2,1)]
  have hd: "holds (conf_mime_default c) 0 (d @ [NUL])" using dd cstr_iff by blast
  have dl: "strnlen (conf_mime_default c) 0 128 = Some (length d)"
      "rd_n (conf_mime_default c) 0 (length d) = Some d"
    using strnlen_cstr [OF dd(1,3), of 128] holds_le_cap [OF hd] dd(2) holds_rd_n [OF hd, of "length d"]
    by simp_all
  have put: "length f \<le> 64 \<Longrightarrow> wr (zbuf 64) 0 f = Some \<lparr>bytes = f, cap = 64\<rparr>" for f
    by (simp add: wr_def zbuf_def)
  show ?thesis
    using e sl pe(1) ml ms dl put date mc dd(2)
    by (cases "wr (zbuf 64) 0 d")
      (auto simp: net_http_res_build_def zr strftime_is res_base_def res_200_def lookup_def
        split: option.split)
qed

section \<open>The host of a redirect\<close>

definition host_text_of :: "string \<Rightarrow> string \<Rightarrow> u16 \<Rightarrow> string" where
  "host_text_of sub own port =
     sub @ CHR ''.'' # own @ (if port = 443 then [] else CHR '':'' # dec (unat port))"

lemma net_host_build_is:
  assumes sub: "field_is (req_subdomain q) 64 sub" and own: "field_is (conf_domain c) 128 own"
  shows "\<exists>b. net_host_build (zbuf 512) q c = Some b \<and> wf_buf b \<and>
     cstr b 0 = Some (host_text_of sub own (conf_https_port c))"
proof -
  let ?p = "if conf_https_port c = 443 then [] else CHR '':'' # dec (unat (conf_https_port c))"
  note s = field_isD [OF sub] and d = field_isD [OF own]
  have lp: "length (dec (unat (conf_https_port c))) \<le> 5"
    using length_dec_int_u16 [of "conf_https_port c"] by (simp add: dec_int_def)
  have np: "NUL \<notin> set ?p" by simp
  obtain pb where pb: "(if conf_https_port c \<noteq> 443
      then map_option snd (snprintf (zbuf 8) 0 8 (CHR '':'' # dec (unat (conf_https_port c))))
      else Some (zbuf 8)) = Some pb"
    and pl: "strnlen pb 0 8 = Some (length ?p)" "rd_n pb 0 (length ?p) = Some ?p"
  proof (cases "conf_https_port c = 443")
    case True
    then show ?thesis using that [of "zbuf 8"] by (simp add: eval_simps zbuf_def rd_n_def)
  next
    case False
    let ?t = "CHR '':'' # dec (unat (conf_https_port c))"
    have w: "wr (zbuf 8) 0 (?t @ [NUL]) = Some (text_buf 8 ?t)" by (rule text_buf_start) (use lp in simp)
    have h: "holds (text_buf 8 ?t) 0 (?t @ [NUL])" by (rule holds_wr [OF w])
    show ?thesis
    proof (rule that [of "text_buf 8 ?t"])
      show "(if conf_https_port c \<noteq> 443 then map_option snd (snprintf (zbuf 8) 0 8 ?t) else Some (zbuf 8)) =
          Some (text_buf 8 ?t)"
        using False w lp by (simp add: snprintf_fits)
      show "strnlen (text_buf 8 ?t) 0 8 = Some (length ?p)"
        using strnlen_holds [OF h, of 8] lp False by simp
      show "rd_n (text_buf 8 ?t) 0 (length ?p) = Some ?p"
        using holds_rd_n [OF h, of "length ?t"] False by simp
    qed
  qed
  have f: "fmt '':%hu'' [AInt (uint (conf_https_port c))] = Some (CHR '':'' # dec (unat (conf_https_port c)))"
    by (simp add: eval_simps dec_int_def)
  let ?h = "sub @ CHR ''.'' # own @ ?p"
  have lim: "length ?h < 512" using s(3) d(3) lp by simp
  have "net_host_build (zbuf 512) q c = Some (text_buf 512 ?h)"
    unfolding text_buf_def net_host_build_def f Option.bind.bind_lunit pb Let_def s(5) d(5)
    using s d pl lim by (simp add: wr_def zbuf_def min_def)
  moreover have "NUL \<notin> set ?h" using s(4) d(4) np by simp
  ultimately show ?thesis using lim text_buf_cstr [of ?h 512] text_buf_simps(2) [of ?h 512]
    unfolding host_text_of_def by blast
qed


lemma res_build_default_overflow:
  assumes path: "path_is path name" "length name < n"
    and conf: "conf_mime_is c t d" "64 < length d"
    and tag: "field_is (req_etag q) 32 tag" "tag \<noteq> tag_of m s"
    and st: "open_stat name = Some (Some (m, s))" and date: "length (date_text tm) < 32"
    and miss: "lookup (ext_of name) t = MimeMiss"
  shows "net_http_res_build open_stat c tm q path n = None"
  using res_build_is [where open_stat = open_stat, OF path conf(1) tag(1) st date] tag(2) miss conf(2)
  by (simp add: wr_def)

lemma path_redir_text_is:
  assumes "field_is (req_subdomain q) 64 sub" "field_is (conf_domain c) 128 own"
    and "cstr (file_uri_path f) 0 = Some uri"
  shows "path_redir_text q c f = Some (''HTTP/1.1 301 Moved permanently'' @ crlf @ ''Location: https://'' @
    host_text_of sub own (conf_https_port c) @ uri @ crlf @ ''Content-Length: 0'' @ crlf @
    ''Connection: keep-alive'' @ crlf @ ''Keep-Alive: timeout=3'' @ crlf @ crlf)"
proof -
  obtain b where b: "net_host_build (zbuf 512) q c = Some b"
    "cstr b 0 = Some (host_text_of sub own (conf_https_port c))"
    using net_host_build_is [OF assms(1,2)] by blast
  let ?h = "host_text_of sub own (conf_https_port c)"
  have f: "fmt res_301_fmt [AStr ?h, AStr uri] = Some (''HTTP/1.1 301 Moved permanently'' @ crlf @
    ''Location: https://'' @ ?h @ uri @ crlf @ ''Content-Length: 0'' @ crlf @
    ''Connection: keep-alive'' @ crlf @ ''Keep-Alive: timeout=3'' @ crlf @ crlf)"
    by (simp add: res_301_fmt_def eval_simps)
  show ?thesis
    unfolding path_redir_text_def b assms(3) Option.bind.bind_lunit f Let_def
    by (rule snprintf_whole)
qed

lemma pad2_length: "0 \<le> i \<Longrightarrow> i < 100 \<Longrightarrow> length (pad2 (dec_int i)) = 2"
proof -
  assume i: "0 \<le> i" "i < 100"
  then have "length (dec (nat i)) \<le> 2" using length_dec_bound [of "nat i" 2] by simp
  moreover have "dec (nat i) \<noteq> []" by simp
  ultimately show ?thesis using i(1) by (simp add: pad2_def dec_int_def)
qed

lemma dec4_length: "1000 \<le> i \<Longrightarrow> i < 10000 \<Longrightarrow> length (dec_int i) = 4"
proof -
  assume "1000 \<le> i" "i < 10000"
  then have "nat i < 10 ^ 4" "10 ^ 3 \<le> nat i" by auto
  then have "length (dec (nat i)) = 4" using length_dec_bound [of "nat i" 4] length_dec_ge [of 3 "nat i"] by simp
  then show ?thesis using \<open>1000 \<le> i\<close> by (simp add: dec_int_def)
qed

lemma date_length:
  assumes "0 \<le> tm_sec t" "tm_sec t \<le> 60" "0 \<le> tm_min t" "tm_min t < 60" "0 \<le> tm_hour t" "tm_hour t < 24"
    "1 \<le> tm_mday t" "tm_mday t \<le> 31" "0 \<le> tm_mon t" "tm_mon t < 12" "0 \<le> tm_wday t" "tm_wday t < 7"
    "-900 \<le> tm_year t" "tm_year t \<le> 8099"
  shows "length (date_text t) = 29"
proof -
  have n: "length (name_at names i) = 3"
    if "0 \<le> i" "i < int (length names)" "list_all (\<lambda>s. length s = 3) names" for i names
    using that by (simp add: name_at_def list_all_length)
  have "length (name_at wday_names (tm_wday t)) = 3" "length (name_at mon_names (tm_mon t)) = 3"
    by (rule n; use assms in \<open>simp add: wday_names_def mon_names_def\<close>)+
  then show ?thesis
    using assms dec4_length [of "1900 + tm_year t"]
    by (simp add: date_text_def pad2_length)
qed

lemma path_is_lit:
  assumes "NUL \<notin> set s" "length s + 33 \<le> n" shows "path_is \<lparr>bytes = s, cap = n\<rparr> s"
proof -
  have "holds \<lparr>bytes = s, cap = n\<rparr> 0 (s @ NUL # replicate 32 NUL)"
    by (rule holds_pad [of s "Suc 32" n, unfolded replicate_Suc]) (use assms(2) in simp)
  then have "\<exists>z. 32 \<le> length z \<and> holds \<lparr>bytes = s, cap = n\<rparr> 0 (s @ NUL # z)"
    by (intro exI conjI) simp_all
  moreover have "wf_buf \<lparr>bytes = s, cap = n\<rparr>" "cstr \<lparr>bytes = s, cap = n\<rparr> 0 = Some s"
    using assms by (simp_all add: wf_buf_def cstr_bytes)
  ultimately show ?thesis unfolding path_is_def by blast
qed

definition example_conf :: "string \<Rightarrow> fws_conf" where
  "example_conf d = zero_conf\<lparr>conf_domain := \<lparr>bytes = ''a.io'', cap = 128\<rparr>, conf_https_port := 8443,
     conf_mime := \<lparr>bytes = ''text/html[html,htm]text/css[css]'', cap = 1024\<rparr>,
     conf_mime_default := \<lparr>bytes = d, cap = 128\<rparr>\<rparr>"

definition example_tm :: tm where
  "example_tm = \<lparr>tm_sec = 5, tm_min = 30, tm_hour = 9, tm_mday = 4, tm_mon = 6, tm_year = 126, tm_wday = 6\<rparr>"

definition example_table :: mime_table where
  "example_table = [(''text/html'', [''html'', ''htm'']), (''text/css'', [''css''])]"

lemma example_conf_mime:
  assumes "NUL \<notin> set d" "length d < 128"
  shows "conf_mime_is (example_conf d) example_table d"
proof -
  have m: "mime_text example_table = ''text/html[html,htm]text/css[css]''"
    by (simp add: mime_text_def mime_entry_def example_table_def)
  have "holds \<lparr>bytes = mime_text example_table, cap = 1024\<rparr> 0 (mime_text example_table @ NUL # [])"
    by (rule holds_pad [of _ "Suc 0", unfolded replicate_Suc replicate_0]) (simp add: m)
  then have "\<exists>rest. holds (conf_mime (example_conf d)) 0 (mime_text example_table @ NUL # rest)"
    unfolding m by (intro exI [of _ "[]"]) (simp add: example_conf_def)
  moreover have "list_all entry_ok example_table"
    by (simp add: example_table_def entry_ok_def ext_ok_def)
  moreover have "wf_buf (conf_mime_default (example_conf d))" "cstr (conf_mime_default (example_conf d)) 0 = Some d"
    using assms by (simp_all add: example_conf_def wf_buf_def cstr_bytes)
  moreover have "cap (conf_mime (example_conf d)) = 1024" "cap (conf_mime_default (example_conf d)) = 128"
    by (simp_all add: example_conf_def)
  ultimately show ?thesis unfolding conf_mime_is_def by blast
qed

lemma example_date: "length (date_text example_tm) < 32"
  using date_length [of example_tm] by (simp add: example_tm_def)

section \<open>Properties\<close>

text \<open>
  C29. Conditional requests: when a client returns the tag of an earlier answer (file modified at
  \<open>m\<close>, size \<open>s\<close>), \<open>_get_etag\<close> answers 304 exactly when the file still has that modification time
  and that size; this holds while both tags fit the 31 bytes of the field.
\<close>

theorem not_modified_iff_unchanged:
  assumes "field_is src 32 (etag_of m s)" "cstr path 0 = Some name"
    and "open_stat name = Some (Some (m', s'))"
    and "0 \<le> m" "m < 2 ^ 63" "0 \<le> m'" "m' < 2 ^ 63" "0 \<le> s" "s < 2 ^ 63" "0 \<le> s'" "s' < 2 ^ 63"
    and "length (etag_of m' s') < 32"
  shows "\<exists>dst. get_etag open_stat (zbuf 32) src path =
     Some (if m' = m \<and> s' = s then 304 else 0, dst) \<and> cstr dst 0 = Some (etag_of m' s')"
proof -
  have u: "u64_of i = nat i" if "0 \<le> i" "i < 2 ^ 63" for i
    using that by (simp add: u64_of_def unat_eq_nat_uint unsigned_of_int take_bit_int_eq_self)
  have "etag_of m s = etag_of m' s' \<longleftrightarrow> m' = m \<and> s' = s"
    using assms(4-11) by (auto simp: etag_of_inj u)
  moreover have "take 31 (etag_of m' s') = etag_of m' s'" using assms(12) by simp
  moreover note get_etag_is [where open_stat = open_stat and name = name, OF assms(1,2,3)]
  ultimately show ?thesis using assms(12) text_buf_cstr [of "etag_of m' s'" 32] by auto
qed

theorem not_modified_iff_unchanged_witness:
  "\<exists>dst. get_etag (\<lambda>n. Some (Some (1700000001, 512))) (zbuf 32)
     \<lparr>bytes = ''1700000000_512'' @ [NUL], cap = 32\<rparr> \<lparr>bytes = ''/srv/a'', cap = 4096\<rparr> = Some (0, dst) \<and>
     cstr dst 0 = Some ''1700000001_512''"
proof -
  have e: "etag_of 1700000000 512 = ''1700000000_512''" "etag_of 1700000001 512 = ''1700000001_512''"
    by (simp_all add: etag_of_def u64_of_def eval_simps)
  show ?thesis
    using not_modified_iff_unchanged [of "\<lparr>bytes = ''1700000000_512'' @ [NUL], cap = 32\<rparr>" 1700000000 512
      "\<lparr>bytes = ''/srv/a'', cap = 4096\<rparr>" "''/srv/a''" "\<lambda>n. Some (Some (1700000001, 512))" 1700000001 512]
    unfolding e by (simp add: field_is_def wf_buf_def cstr_def)
qed

text \<open>
  The response to a file, for every extension table in the form the configuration parser
  writes: 304 for the current tag, otherwise the type of the first entry that lists the part of
  the path behind its last dot, the default type when none does, and -1 for a type of 64 bytes
  or more.
\<close>

theorem content_type_by_extension:
  assumes "path_is path name" "length name < n" "conf_mime_is c t d"
    and "field_is (req_etag q) 32 tag"
    and "open_stat name = Some (Some (m, s))" "length (date_text tm) < 32"
  shows "net_http_res_build open_stat c tm q path n =
    (if tag = tag_of m s then Some (304, (res_base tm m s)\<lparr>res_code := 304\<rparr>)
     else case lookup (ext_of name) t of
       MimeErr \<Rightarrow> Some (-1, res_200 tm m s)
     | MimeFound f \<Rightarrow> Some (0, (res_200 tm m s)\<lparr>res_content := \<lparr>bytes = f, cap = 64\<rparr>\<rparr>)
     | MimeMiss \<Rightarrow> map_option (\<lambda>c. (0, (res_200 tm m s)\<lparr>res_content := c\<rparr>)) (wr (zbuf 64) 0 d))"
  using assms by (rule res_build_is)

theorem content_type_by_extension_witness:
  "net_http_res_build (\<lambda>n. Some (Some (7, 9))) (example_conf ''text/plain'') example_tm
     zero_http_req
     \<lparr>bytes = ''/srv/x.min.css'', cap = 4096\<rparr> 4096 =
   Some (0, (res_200 example_tm 7 9)\<lparr>res_content := \<lparr>bytes = ''text/css'', cap = 64\<rparr>\<rparr>)"
proof -
  have l: "lookup (ext_of ''/srv/x.min.css'') example_table = MimeFound ''text/css''"
    by (simp add: lookup_def ext_of_def example_table_def)
  have t: "[] \<noteq> tag_of 7 9" by (simp add: tag_of_def etag_of_def)
  show ?thesis
    using content_type_by_extension [of "\<lparr>bytes = ''/srv/x.min.css'', cap = 4096\<rparr>" "''/srv/x.min.css''" 4096
        "example_conf ''text/plain''" example_table "''text/plain''" zero_http_req "[]" "\<lambda>n. Some (Some (7, 9))" 7 9 example_tm]
      example_conf_mime [of "''text/plain''"] path_is_lit [of "''/srv/x.min.css''" 4096] example_date l t
    by (simp add: field_is_def)
qed

text \<open>
  The bound of \<open>content\<close>: a configured default type of more than 64 bytes overflows the 64
  bytes of the field for every file whose extension is not in the table (the types of the table
  are checked, the default is not).
\<close>

theorem default_type_overflow:
  assumes "path_is path name" "length name < n" "conf_mime_is c t d" "64 < length d"
    and "field_is (req_etag q) 32 tag" "tag \<noteq> tag_of m s"
    and "open_stat name = Some (Some (m, s))" "length (date_text tm) < 32"
    and "lookup (ext_of name) t = MimeMiss"
  shows "net_http_res_build open_stat c tm q path n = None"
  using assms by (rule res_build_default_overflow)

theorem default_type_overflow_witness:
  "net_http_res_build (\<lambda>n. Some (Some (7, 9))) (example_conf (replicate 65 (CHR ''a''))) example_tm
     zero_http_req
     \<lparr>bytes = ''/srv/x'', cap = 4096\<rparr> 4096 = None"
proof -
  have l: "lookup (ext_of ''/srv/x'') example_table = MimeMiss"
    by (simp add: lookup_def ext_of_def example_table_def)
  have t: "[] \<noteq> tag_of 7 9" by (simp add: tag_of_def etag_of_def)
  show ?thesis
    by (rule default_type_overflow [where tag = "[]" and m = 7 and s = 9 and t = example_table
          and name = "''/srv/x''" and d = "replicate 65 (CHR ''a'')", OF path_is_lit _ example_conf_mime])
      (use l t example_date in \<open>simp_all add: field_is_def\<close>)
qed

text \<open>
  The host of a redirect: \<open>subdomain.domain\<close>, with \<open>:port\<close> unless the port is 443; it fits the
  512 bytes of \<open>host_buf\<close> for every subdomain, domain and port.
\<close>

theorem host_build_exact:
  assumes "field_is (req_subdomain q) 64 sub" "field_is (conf_domain c) 128 own"
  shows "\<exists>b. net_host_build (zbuf 512) q c = Some b \<and>
     cstr b 0 = Some (host_text_of sub own (conf_https_port c))"
  using net_host_build_is [OF assms] by blast

theorem host_build_exact_witness:
  "\<exists>b. net_host_build (zbuf 512) (zero_http_req\<lparr>req_subdomain := \<lparr>bytes = ''www'', cap = 64\<rparr>\<rparr>)
     (example_conf []) = Some b \<and> cstr b 0 = Some ''www.a.io:8443''"
  using host_build_exact [of "zero_http_req\<lparr>req_subdomain := \<lparr>bytes = ''www'', cap = 64\<rparr>\<rparr>" "''www''"
      "example_conf []" "''a.io''"]
  by (simp add: field_is_def wf_buf_def cstr_def example_conf_def host_text_of_def eval_simps)

text \<open>
  The redirect message: \<open>net_http_path_redir\<close> sends one 301 response with the canonical path
  behind the host, byte for byte, whatever the path is; the buffer it allocates is exactly large
  enough.
\<close>

theorem redirect_message:
  assumes "field_is (req_subdomain q) 64 sub" "field_is (conf_domain c) 128 own"
    and "cstr (file_uri_path f) 0 = Some uri"
  shows "path_redir_text q c f = Some (''HTTP/1.1 301 Moved permanently'' @ crlf @ ''Location: https://'' @
    host_text_of sub own (conf_https_port c) @ uri @ crlf @ ''Content-Length: 0'' @ crlf @
    ''Connection: keep-alive'' @ crlf @ ''Keep-Alive: timeout=3'' @ crlf @ crlf)"
  using assms by (rule path_redir_text_is)

theorem redirect_message_witness:
  "path_redir_text (zero_http_req\<lparr>req_subdomain := \<lparr>bytes = ''www'', cap = 64\<rparr>\<rparr>) (example_conf [])
     (zero_file\<lparr>file_uri_path := \<lparr>bytes = ''/docs/'', cap = 4096\<rparr>\<rparr>) =
   Some (''HTTP/1.1 301 Moved permanently'' @ crlf @ ''Location: https://www.a.io:8443/docs/'' @ crlf @
     ''Content-Length: 0'' @ crlf @ ''Connection: keep-alive'' @ crlf @ ''Keep-Alive: timeout=3'' @ crlf @ crlf)"
  using redirect_message [of "zero_http_req\<lparr>req_subdomain := \<lparr>bytes = ''www'', cap = 64\<rparr>\<rparr>" "''www''"
      "example_conf []" "''a.io''" "zero_file\<lparr>file_uri_path := \<lparr>bytes = ''/docs/'', cap = 4096\<rparr>\<rparr>" "''/docs/''"]
  by (simp add: field_is_def wf_buf_def cstr_def example_conf_def host_text_of_def eval_simps)

text \<open>
  The date of a response: for every calendar time up to the year 9999 it has 29 bytes, so
  \<open>strftime\<close> succeeds in the 32 bytes of the field.
\<close>

theorem date_fits:
  assumes "0 \<le> tm_sec t" "tm_sec t \<le> 60" "0 \<le> tm_min t" "tm_min t < 60" "0 \<le> tm_hour t" "tm_hour t < 24"
    "1 \<le> tm_mday t" "tm_mday t \<le> 31" "0 \<le> tm_mon t" "tm_mon t < 12" "0 \<le> tm_wday t" "tm_wday t < 7"
    "-900 \<le> tm_year t" "tm_year t \<le> 8099"
  shows "strftime (zbuf 32) t = Some (text_buf 32 (date_text t)) \<and> length (date_text t) = 29"
  using date_length [OF assms] by (simp add: strftime_is)

theorem date_fits_witness:
  "strftime (zbuf 32) example_tm = Some (text_buf 32 ''Sat, 04 Jul 2026 09:30:05 GMT'')"
  using date_fits [of example_tm]
  by (simp add: example_tm_def date_text_def pad2_def name_at_def wday_names_def mon_names_def dec_int_def eval_simps)


end
