(* ===== verification/Net_443.thy ===== *)
theory Net_443
  imports Printf
begin

text \<open>
  \<open>src/net_443.c\<close>: reading a request from a TLS connection, writing to it, and the three kinds of
  answers (response header, file, error page).  The TLS library is outside the program: a record
  of its functions on a state \<open>'w\<close> of its own, an argument of every definition that calls it.
  The registration of the connection with epoll is a field of the connection.
\<close>

section \<open>The TLS library\<close>

datatype ssl_error =
  SSL_ERROR_NONE | SSL_ERROR_WANT_READ | SSL_ERROR_WANT_WRITE | SSL_ERROR_SYSCALL
  | SSL_ERROR_ZERO_RETURN | SSL_ERROR_SSL | SSL_ERROR_OTHER

record 'w tls =
  ssl_read :: "'w \<Rightarrow> nat \<Rightarrow> s32 \<times> string \<times> 'w"
  ssl_write :: "'w \<Rightarrow> string \<Rightarrow> s32 \<times> 'w"
  ssl_get_error :: "'w \<Rightarrow> s32 \<Rightarrow> ssl_error"

section \<open>The connection\<close>

datatype epoll_event = EPOLLIN | EPOLLOUT

text \<open>The part of \<open>struct fws_data_ctx\<close> the connection code works on.\<close>

datatype ssl_stat =
  SSL_STATUS_NEW | SSL_STATUS_INIT | SSL_STATUS_ACCEPT | SSL_STATUS_WANT_READ | SSL_STATUS_WANT_WRITE

record fws_data_ctx =
  ctx_file_len :: s32
  ctx_req_buf :: cbuf
  ctx_acc_read_n :: s32
  ctx_want_write :: s32
  ctx_ssl_status :: ssl_stat
  ctx_events :: epoll_event
  ctx_file_path :: cbuf
  ctx_client_ip_buf :: "u8 list"
  ctx_conf :: fws_conf

section \<open>Reading a request\<close>

definition crlf2 :: string where
  "crlf2 = crlf @ crlf"

text \<open>The \<open>while\<close> loop of \<open>net_443_read\<close>: the return code and the error code at its end.\<close>

function read_loop ::
  "'w tls \<Rightarrow> 'w \<Rightarrow> fws_data_ctx \<Rightarrow> nat \<Rightarrow> (s32 \<times> ssl_error \<times> fws_data_ctx \<times> 'w) option" where
  "read_loop T w ctx acc_read_n =
     (case ssl_read T w (8192 - acc_read_n - 1) of (read_ret, data, w) \<Rightarrow>
        if read_ret \<le> 0 then
          (let err_code = ssl_get_error T w read_ret in
           if err_code = SSL_ERROR_WANT_READ then
             Some (0, err_code, ctx\<lparr>ctx_events := EPOLLIN, ctx_acc_read_n := int acc_read_n\<rparr>, w)
           else if err_code = SSL_ERROR_WANT_WRITE then
             Some (0, err_code, ctx\<lparr>ctx_events := EPOLLOUT, ctx_acc_read_n := int acc_read_n\<rparr>, w)
           else Some (-1, err_code, ctx, w))
        else do {
          b \<leftarrow> wr (ctx_req_buf ctx) acc_read_n data;
          let ctx = ctx\<lparr>ctx_req_buf := b\<rparr>;
          let acc_read_n = acc_read_n + nat read_ret;
          if 8191 \<le> acc_read_n then Some (-431, SSL_ERROR_NONE, ctx, w)
          else do {
            end_ret \<leftarrow> memmem b 0 acc_read_n crlf2;
            if end_ret \<noteq> None then do {
              b \<leftarrow> wr b acc_read_n [NUL];
              Some (1, SSL_ERROR_NONE, ctx\<lparr>ctx_req_buf := b, ctx_acc_read_n := 0\<rparr>, w)
            } else read_loop T w ctx acc_read_n
          }
        })"
  by pat_completeness auto
termination by (relation "measure (\<lambda>(T, w, ctx, n). 8191 - n)") auto

declare read_loop.simps [simp del]

definition net_443_read ::
  "'w tls \<Rightarrow> 'w \<Rightarrow> fws_data_ctx \<Rightarrow> (s32 \<times> fws_data_ctx \<times> 'w) option" where
  "net_443_read T w client_ctx = do {
     let acc_read_n = (if ctx_acc_read_n client_ctx \<noteq> 0 then nat (ctx_acc_read_n client_ctx) else 0);
     (ret, err_code, client_ctx, w) \<leftarrow> read_loop T w client_ctx acc_read_n;
     let client_ctx =
       (if err_code \<noteq> SSL_ERROR_WANT_WRITE then client_ctx\<lparr>ctx_events := EPOLLIN\<rparr> else client_ctx);
     let client_ctx = (if ret < 0 then client_ctx\<lparr>ctx_acc_read_n := 0\<rparr> else client_ctx);
     Some (ret, client_ctx, w)
   }"

section \<open>Writing\<close>

text \<open>
  The source asks \<open>SSL_get_error\<close> about \<open>ret\<close>, which is still -1, and not about \<open>write_ret\<close>.
\<close>

definition net_443_write ::
  "'w tls \<Rightarrow> 'w \<Rightarrow> fws_data_ctx \<Rightarrow> string \<Rightarrow> s32 \<times> fws_data_ctx \<times> 'w" where
  "net_443_write T w client_ctx src_buf =
     (case ssl_write T w src_buf of (write_ret, w) \<Rightarrow>
        if 0 < write_ret then (1, client_ctx\<lparr>ctx_events := EPOLLIN\<rparr>, w)
        else
          (let err_code = ssl_get_error T w (-1) in
           if err_code = SSL_ERROR_WANT_WRITE then (0, client_ctx\<lparr>ctx_events := EPOLLOUT\<rparr>, w)
           else if err_code = SSL_ERROR_WANT_READ then (0, client_ctx\<lparr>ctx_events := EPOLLIN\<rparr>, w)
           else (-1, client_ctx\<lparr>ctx_events := EPOLLIN\<rparr>, w)))"

text \<open>The conversion of a wider integer to \<open>s32\<close>.\<close>

definition to_s32 :: "int \<Rightarrow> s32" where
  "to_s32 i = sint (word_of_int i :: 32 word)"

text \<open>The \<open>while\<close> loop of \<open>net_443_file_write\<close>; \<open>content\<close> is what the open file holds.\<close>

function file_loop ::
  "'w tls \<Rightarrow> 'w \<Rightarrow> fws_data_ctx \<Rightarrow> string \<Rightarrow> nat \<Rightarrow> s32 \<times> fws_data_ctx \<times> 'w" where
  "file_loop T w client_ctx content read_acc_size =
     (let chunk = take 4096 (drop read_acc_size content) in
      if chunk = [] then (0, client_ctx\<lparr>ctx_file_len := 0\<rparr>, w)
      else case net_443_write T w client_ctx chunk of (ret, client_ctx, w) \<Rightarrow>
        if ret = 0 then (1, client_ctx\<lparr>ctx_file_len := to_s32 (int read_acc_size)\<rparr>, w)
        else if ret < 0 then (-1, client_ctx\<lparr>ctx_file_len := 0\<rparr>, w)
        else file_loop T w client_ctx content (read_acc_size + length chunk))"
  by pat_completeness auto
termination
  by (relation "measure (\<lambda>(T, w, ctx, content, n). length content - n)") auto

declare file_loop.simps [simp del]

definition net_443_file_write ::
  "'w tls \<Rightarrow> (string \<Rightarrow> string option) \<Rightarrow> 'w \<Rightarrow> fws_data_ctx \<Rightarrow> string
     \<Rightarrow> s32 \<times> fws_data_ctx \<times> 'w" where
  "net_443_file_write T open_read w client_ctx path =
     (case open_read path of None \<Rightarrow> (-1, client_ctx, w)
      | Some content \<Rightarrow>
          (let read_acc_size = (if 0 < ctx_file_len client_ctx then nat (ctx_file_len client_ctx) else 0);
               ret = to_s32 (int read_acc_size)
           in if ret < 0 then (-1, client_ctx, w)
              else file_loop T w client_ctx content read_acc_size))"

section \<open>The response header\<close>

text \<open>
  One \<open>snprintf(res_buf_p, res_buf_cap, ...)\<close> and the step of \<open>res_buf_p\<close>; the capacity the
  source passes is the one of the whole array in every call.
\<close>

definition put_fmt :: "nat \<times> cbuf \<Rightarrow> string \<Rightarrow> arg list \<Rightarrow> (nat \<times> cbuf) option" where
  "put_fmt pb f as = do {
     s \<leftarrow> fmt f as;
     (n, b) \<leftarrow> snprintf (snd pb) (fst pb) 8192 s;
     Some (fst pb + n, b)
   }"

definition res_status_fmt :: string where "res_status_fmt = ''HTTP/1.1 %d %s'' @ crlf"
definition res_content_fmt :: string where
  "res_content_fmt = ''Content-Type: %s'' @ crlf @ ''Content-Length: %lu'' @ crlf"
definition res_date_fmt :: string where "res_date_fmt = ''Date: %s'' @ crlf"
definition res_cache_fmt :: string where
  "res_cache_fmt = ''Cache-Control: max-age=%u'' @ crlf @ ''ETag: '' @ DQ # ''%s'' @ DQ # crlf"
definition res_hsts_fmt :: string where
  "res_hsts_fmt = ''Strict-Transport-Security: max-age=%u;'' @ crlf"
definition res_acao_fmt :: string where "res_acao_fmt = ''Access-Control-Allow-Origin: %s'' @ crlf"
definition res_server_str :: string where "res_server_str = ''Server: Facooya-Web-Server'' @ crlf"
definition res_connection_str :: string where
  "res_connection_str = ''Connection: keep-alive'' @ crlf @ ''Keep-Alive: timeout=3'' @ crlf"

lemmas res_fmt_defs = res_status_fmt_def res_content_fmt_def res_date_fmt_def res_cache_fmt_def
  res_hsts_fmt_def res_acao_fmt_def res_server_str_def res_connection_str_def

definition net_443_res_write ::
  "'w tls \<Rightarrow> 'w \<Rightarrow> fws_data_ctx \<Rightarrow> fws_http_res \<Rightarrow> s64 \<Rightarrow> fws_http_req
     \<Rightarrow> (s32 \<times> fws_data_ctx \<times> 'w) option" where
  "net_443_res_write T w client_ctx http_res file_sz http_req = do {
     let etag_n = 32;
     e \<leftarrow> rd_n (req_etag http_req) 0 etag_n;
     same \<leftarrow> mem_eq (res_etag http_res) 0 e;
     let res_status = (if same then (304, ''Not Modified'') else (200, ''OK''));
     let pb = (0, zbuf 8192);
     pb \<leftarrow> put_fmt pb res_status_fmt [AInt (fst res_status), AStr (snd res_status)];
     pb \<leftarrow> put_fmt pb ''%s%s'' [AStr res_server_str, AStr res_connection_str];
     date \<leftarrow> cstr (res_date http_res) 0;
     pb \<leftarrow> put_fmt pb res_date_fmt [AStr date];
     etag \<leftarrow> cstr (res_etag http_res) 0;
     pb \<leftarrow> put_fmt pb res_cache_fmt [AInt (uint (conf_cache_max_age (ctx_conf client_ctx))), AStr etag];
     pb \<leftarrow> (if \<not> same then do {
              content \<leftarrow> cstr (res_content http_res) 0;
              put_fmt pb res_content_fmt [AStr content, lu file_sz]
            } else Some pb);
     pb \<leftarrow> (if res_hsts_max_age http_res \<noteq> 0
            then put_fmt pb res_hsts_fmt [AInt (uint (res_hsts_max_age http_res))] else Some pb);
     pb \<leftarrow> (if res_is_origin_self http_res then do {
              origin \<leftarrow> cstr (req_origin http_req) 0;
              put_fmt pb res_acao_fmt [AStr origin]
            } else Some pb);
     b \<leftarrow> wr (snd pb) (fst pb) crlf;
     res_len \<leftarrow> strnlen b 0 8192;
     if res_len = 8192 then Some (-1, client_ctx, w)
     else do {
       s \<leftarrow> rd_n b 0 res_len;
       let (ret, client_ctx, w) = net_443_write T w client_ctx s;
       if ret \<le> 0 then Some (-1, client_ctx, w) else Some (0, client_ctx, w)
     }
   }"

section \<open>The error page\<close>

definition http_msg :: "(s32 \<times> string) list" where
  "http_msg = [(500, ''Internal Server Error''), (400, ''Bad Request''), (403, ''Forbidden''),
     (404, ''File Not Found''), (405, ''Method Not Allowed''), (414, ''URI Too Long''),
     (429, ''Too Many Requests''), (431, ''Request Header Fields Too Large''),
     (501, ''Not Implemented'')]"

definition res_err_fmt :: string where
  "res_err_fmt = ''HTTP/1.1 %d %s'' @ crlf @ ''Content-Type: text/html'' @ crlf @
     ''Content-Length: %lu'' @ crlf @ ''Server: Facooya-Web-Server'' @ crlf @
     ''Connection: close'' @ crlf @ crlf"

definition res_429_fmt :: string where
  "res_429_fmt = ''HTTP/1.1 %d %s'' @ crlf @ ''Content-Type: text/html'' @ crlf @
     ''Content-Length: %lu'' @ crlf @ ''Retry-After: 60'' @ crlf @
     ''Server: Facooya-Web-Server'' @ crlf @ ''Connection: close'' @ crlf @ crlf"

definition err_page_path :: string where
  "err_page_path = ''/usr/share/facows/error_page.html''"

text \<open>
  \<open>snprintf(nullptr, 0, ...)\<close>, \<open>calloc\<close> of that size plus one and the second \<open>snprintf\<close>: the
  bytes that are sent.  The content of the page is the format of the body; it is read up to its
  first zero byte.
\<close>

definition print_alloc :: "string \<Rightarrow> string option" where
  "print_alloc s = do {
     (_, b) \<leftarrow> snprintf (zbuf (length s + 1)) 0 (length s + 1) s;
     rd_n b 0 (length s)
   }"

definition net_443_err_write ::
  "'w tls \<Rightarrow> (string \<Rightarrow> string option) \<Rightarrow> 'w \<Rightarrow> fws_data_ctx \<Rightarrow> s32
     \<Rightarrow> (s32 \<times> fws_data_ctx \<times> 'w) option" where
  "net_443_err_write T open_read w client_ctx code =
     (case open_read err_page_path of None \<Rightarrow> Some (-1, client_ctx, w)
      | Some html \<Rightarrow>
          if html = [] then Some (-1, client_ctx, w)
          else do {
            let html_fmt = takeWhile (\<lambda>c. c \<noteq> NUL) html;
            let msg = (case find (\<lambda>m. fst m = code) http_msg of None \<Rightarrow> hd http_msg | Some m \<Rightarrow> m);
            body \<leftarrow> fmt html_fmt [AInt (fst msg), AInt (fst msg), AStr (snd msg)];
            html_buf \<leftarrow> print_alloc body;
            head \<leftarrow> fmt (if code = 429 then res_429_fmt else res_err_fmt)
                      [AInt (fst msg), AStr (snd msg), lu (int (length body))];
            res_buf \<leftarrow> print_alloc head;
            let (ret, client_ctx, w) = net_443_write T w client_ctx res_buf;
            if ret \<le> 0 then Some (-1, client_ctx, w)
            else do {
              let (ret, client_ctx, w) = net_443_write T w client_ctx html_buf;
              if ret \<le> 0 then Some (-1, client_ctx, w) else Some (0, client_ctx, w)
            }
          })"

section \<open>What the TLS library promises\<close>

text \<open>
  \<open>got w\<close> is the plain text the library has delivered, \<open>sent w\<close> the plain text it has accepted.
  \<open>SSL_read\<close> returns the number of bytes it stored, at most the size it was given; \<open>SSL_write\<close>
  accepts all bytes or none (partial writes are not enabled).
\<close>

definition tls_ok :: "'w tls \<Rightarrow> ('w \<Rightarrow> string) \<Rightarrow> ('w \<Rightarrow> string) \<Rightarrow> bool" where
  "tls_ok T got sent \<longleftrightarrow>
     (\<forall>w n r d w'. ssl_read T w n = (r, d, w') \<longrightarrow> sent w' = sent w \<and>
        (if 0 < r then nat r = length d \<and> length d \<le> n \<and> got w' = got w @ d else got w' = got w)) \<and>
     (\<forall>w s r w'. ssl_write T w s = (r, w') \<longrightarrow> got w' = got w \<and>
        sent w' = (if 0 < r then sent w @ s else sent w))"

lemma tls_readD:
  assumes "tls_ok T got sent" "ssl_read T w n = (r, d, w')"
  shows "sent w' = sent w" "0 < r \<Longrightarrow> nat r = length d" "0 < r \<Longrightarrow> length d \<le> n"
    "0 < r \<Longrightarrow> got w' = got w @ d" "\<not> 0 < r \<Longrightarrow> got w' = got w"
  using assms by (auto simp: tls_ok_def split: if_splits)

lemma tls_writeD:
  assumes "tls_ok T got sent" "ssl_write T w s = (r, w')"
  shows "got w' = got w" "sent w' = (if 0 < r then sent w @ s else sent w)"
  using assms by (auto simp: tls_ok_def)

section \<open>Reading\<close>

text \<open>The connection waits for the rest of a request of which \<open>rcv\<close> has arrived.\<close>

definition buf_has :: "fws_data_ctx \<Rightarrow> string \<Rightarrow> bool" where
  "buf_has c s \<longleftrightarrow> wf_buf (ctx_req_buf c) \<and> cap (ctx_req_buf c) = 8192 \<and> holds (ctx_req_buf c) 0 s"

definition pending :: "fws_data_ctx \<Rightarrow> string \<Rightarrow> bool" where
  "pending c rcv \<longleftrightarrow> buf_has c rcv \<and> ctx_acc_read_n c = int (length rcv) \<and> length rcv < 8191 \<and>
     find_sub crlf2 rcv = None"

text \<open>Neither an empty line nor too much: the reader has to go on.\<close>

definition unfinished :: "string \<Rightarrow> bool" where
  "unfinished s \<longleftrightarrow> length s < 8191 \<and> find_sub crlf2 s = None"

text \<open>
  Calls of \<open>SSL_read\<close> that succeed one after the other, each for the room that is left behind the
  \<open>n\<close> bytes that have arrived, deliver the pieces \<open>ds\<close>.
\<close>

primrec delivered :: "'w tls \<Rightarrow> 'w \<Rightarrow> nat \<Rightarrow> string list \<Rightarrow> 'w \<Rightarrow> bool" where
  "delivered T w n [] w' \<longleftrightarrow> w' = w"
| "delivered T w n (d # ds) w' \<longleftrightarrow> (case ssl_read T w (8192 - n - 1) of (r, d', w1) \<Rightarrow>
     0 < r \<and> d' = d \<and> delivered T w1 (n + length d) ds w')"

text \<open>
  What a call of \<open>net_443_read\<close> leaves behind when \<open>s\<close> has arrived in all, the last piece at the state
  \<open>w1\<close> of the library.  It ends with 1 and with -431 at once.  It ends with 0 or with -1
  only when the next \<open>SSL_read\<close> fails: with 0 when the library has to wait, with -1 for
  another error; in both cases the bytes that have arrived need more.
\<close>

definition read_result :: "'w tls \<Rightarrow> s32 \<Rightarrow> fws_data_ctx \<Rightarrow> 'w \<Rightarrow> 'w \<Rightarrow> string \<Rightarrow> bool" where
  "read_result T ret c w1 w' s \<longleftrightarrow>
     (if 8191 \<le> length s then ret = -431 \<and> w' = w1 \<and> ctx_acc_read_n c = 0 \<and> ctx_events c = EPOLLIN \<and>
         length s = 8191 \<and> buf_has c s
      else if find_sub crlf2 s \<noteq> None then ret = 1 \<and> w' = w1 \<and> ctx_acc_read_n c = 0 \<and> ctx_events c = EPOLLIN \<and>
         buf_has c (s @ [NUL])
      else (case ssl_read T w1 (8192 - length s - 1) of (r, d, w2) \<Rightarrow>
         r \<le> 0 \<and> w' = w2 \<and> buf_has c s \<and>
         ctx_events c = (if ssl_get_error T w2 r = SSL_ERROR_WANT_WRITE then EPOLLOUT else EPOLLIN) \<and>
         (if ssl_get_error T w2 r \<in> {SSL_ERROR_WANT_READ, SSL_ERROR_WANT_WRITE}
          then ret = 0 \<and> ctx_acc_read_n c = int (length s) else ret = -1 \<and> ctx_acc_read_n c = 0)))"

text \<open>The same for the loop in it, which returns the error code too.\<close>

definition loop_result :: "'w tls \<Rightarrow> s32 \<Rightarrow> ssl_error \<Rightarrow> fws_data_ctx \<Rightarrow> 'w \<Rightarrow> 'w \<Rightarrow> string \<Rightarrow> bool" where
  "loop_result T ret e c w1 w' s \<longleftrightarrow>
     (if 8191 \<le> length s then ret = -431 \<and> e = SSL_ERROR_NONE \<and> w' = w1 \<and> length s = 8191 \<and> buf_has c s
      else if find_sub crlf2 s \<noteq> None then ret = 1 \<and> e = SSL_ERROR_NONE \<and> w' = w1 \<and> ctx_acc_read_n c = 0 \<and>
         buf_has c (s @ [NUL])
      else (case ssl_read T w1 (8192 - length s - 1) of (r, d, w2) \<Rightarrow>
         r \<le> 0 \<and> w' = w2 \<and> buf_has c s \<and> e = ssl_get_error T w2 r \<and>
         (if e \<in> {SSL_ERROR_WANT_READ, SSL_ERROR_WANT_WRITE}
          then ret = 0 \<and> ctx_acc_read_n c = int (length s) \<and>
            (e = SSL_ERROR_WANT_WRITE \<longrightarrow> ctx_events c = EPOLLOUT) else ret = -1)))"

text \<open>What the connection needs of it.\<close>

definition read_leaves :: "s32 \<Rightarrow> fws_data_ctx \<Rightarrow> string \<Rightarrow> bool" where
  "read_leaves ret c s \<longleftrightarrow> ret \<in> {1, 0} \<union> {-431, -1} \<and> (ret = 0 \<longrightarrow> pending c s) \<and>
     (ret \<noteq> 0 \<longrightarrow> ctx_acc_read_n c = 0) \<and> (ret = 1 \<longrightarrow> buf_has c (s @ [NUL]) \<and> length s < 8191)"

lemma crlf2_simps: "crlf2 \<noteq> []" "NUL \<notin> set crlf2"
  by (simp_all add: crlf2_def)

lemma delivered_is:
  assumes "tls_ok T got sent"
  shows "delivered T w n ds w' \<Longrightarrow> got w' = got w @ concat ds \<and> sent w' = sent w"
proof (induction ds arbitrary: w n)
  case (Cons d ds)
  obtain r w1 where r: "ssl_read T w (8192 - n - 1) = (r, d, w1)" "0 < r" "delivered T w1 (n + length d) ds w'"
    using Cons.prems by (auto split: prod.splits)
  with Cons.IH [OF r(3)] tls_readD [OF assms r(1)] show ?case by simp
qed simp

lemma read_loop_is:
  assumes T: "tls_ok T got sent"
  shows "buf_has c rcv \<Longrightarrow> n = length rcv \<Longrightarrow> unfinished rcv \<Longrightarrow>
     \<exists>ret e c' w1 w' ds. read_loop T w c n = Some (ret, e, c', w') \<and> delivered T w n ds w1 \<and>
       (\<forall>k < length ds. unfinished (rcv @ concat (take k ds))) \<and> loop_result T ret e c' w1 w' (rcv @ concat ds)"
proof (induction "8191 - n" arbitrary: w c n rcv rule: less_induct)
  case less
  note u = less.prems(3) [unfolded unfinished_def]
  obtain r d w1 where r: "ssl_read T w (8192 - n - 1) = (r, d, w1)" by (cases "ssl_read T w (8192 - n - 1)")
  note t = tls_readD [OF T r]
  show ?case
  proof (cases "0 < r")
    case False
    have "\<exists>ret e c'. read_loop T w c n = Some (ret, e, c', w1) \<and> loop_result T ret e c' w w1 (rcv @ concat [])"
      using False r less.prems(1,2) u by (subst read_loop.simps) (auto simp: Let_def loop_result_def buf_has_def)
    moreover have "delivered T w n [] w" by simp
    ultimately show ?thesis by (metis length_0_conv less_nat_zero_code)
  next
    case True
    let ?s = "rcv @ d" and ?b = "ctx_req_buf c"
    have d: "nat r = length d" "length d \<le> 8191 - n" "0 < length d" using t True by auto
    have b: "wf_buf ?b" "cap ?b = 8192" "holds ?b 0 rcv" using less.prems by (simp_all add: buf_has_def)
    obtain b1 where b1: "wr ?b n d = Some b1"
      using wr_defined [of ?b n d] b(2) d(2) u less.prems(2) by auto
    have h1: "holds b1 0 ?s" "wf_buf b1" "cap b1 = 8192"
      using holds_wr [OF b1] holds_wr_other [OF b1, of 0 rcv] b less.prems(2) wr_wf [OF b1] wr_SomeD(2) [OF b1]
      by (simp_all add: holds_append)
    have len: "n + nat r = length ?s" "length ?s \<le> 8191" using d less.prems(2) u by auto
    have one: "delivered T w n [d] w1" using r True by simp
    have upto: "\<forall>k < length [d]. unfinished (rcv @ concat (take k [d]))" using less.prems(3) by simp
    have stop: "\<exists>ret e c' w1 w' ds. read_loop T w c n = Some (ret, e, c', w') \<and> delivered T w n ds w1 \<and>
         (\<forall>k < length ds. unfinished (rcv @ concat (take k ds))) \<and> loop_result T ret e c' w1 w' (rcv @ concat ds)"
      if "read_loop T w c n = Some (ret, SSL_ERROR_NONE, c', w1)" "loop_result T ret SSL_ERROR_NONE c' w1 w1 ?s" for ret c'
      using that one upto by (intro exI [of _ ret] exI [of _ SSL_ERROR_NONE] exI [of _ c'] exI [of _ w1] exI [of _ "[d]"]) simp
    show ?thesis
    proof (cases "8191 \<le> length ?s")
      case long: True
      show ?thesis
      proof (rule stop)
        show "loop_result T (-431) SSL_ERROR_NONE (c\<lparr>ctx_req_buf := b1\<rparr>) w1 w1 ?s"
          using long len(2) h1 by (simp add: loop_result_def buf_has_def)
        show "read_loop T w c n = Some (-431, SSL_ERROR_NONE, c\<lparr>ctx_req_buf := b1\<rparr>, w1)"
          using True r b1 long len(1) by (subst read_loop.simps) (simp add: Let_def)
      qed
    next
      case short: False
      have m: "memmem b1 0 (length ?s) crlf2 = Some (map_option ((+) 0) (find_sub crlf2 ?s))"
        by (rule memmem_holds [OF crlf2_simps h1(1)]) (use short h1(3) in simp)
      show ?thesis
      proof (cases "find_sub crlf2 ?s")
        case (Some q)
        obtain b2 where b2: "wr b1 (length ?s) [NUL] = Some b2"
          using wr_defined [of b1 "length ?s" "[NUL]"] short h1(3) by auto
        have h2: "holds b2 0 (?s @ [NUL])" "wf_buf b2" "cap b2 = 8192"
          using holds_wr [OF b2] holds_wr_other [OF b2, of 0 ?s] h1 wr_wf [OF b2] wr_SomeD(2) [OF b2]
          by (simp_all add: holds_append)
        let ?c = "c\<lparr>ctx_req_buf := b2, ctx_acc_read_n := 0\<rparr>"
        show ?thesis
        proof (rule stop)
          show "loop_result T 1 SSL_ERROR_NONE ?c w1 w1 ?s" using h2 short Some by (simp add: loop_result_def buf_has_def)
          show "read_loop T w c n = Some (1, SSL_ERROR_NONE, ?c, w1)"
            using True r b1 short len(1) m Some b2 by (subst read_loop.simps) (simp add: Let_def)
        qed
      next
        case None
        have step: "read_loop T w c n = read_loop T w1 (c\<lparr>ctx_req_buf := b1\<rparr>) (length ?s)"
          using True r b1 short len(1) m None by (subst read_loop.simps) (simp add: Let_def)
        have "8191 - length ?s < 8191 - n" using short d(3) less.prems(2) u by (simp only: length_append)
        moreover have "buf_has (c\<lparr>ctx_req_buf := b1\<rparr>) ?s" "unfinished ?s"
          using h1 short None by (simp_all add: buf_has_def unfinished_def)
        ultimately obtain ret e c' v w' ds where ih: "read_loop T w1 (c\<lparr>ctx_req_buf := b1\<rparr>) (length ?s) = Some (ret, e, c', w')"
          "delivered T w1 (length ?s) ds v" "\<forall>k < length ds. unfinished (?s @ concat (take k ds))"
          "loop_result T ret e c' v w' (?s @ concat ds)"
          using less.hyps [of "length ?s" "c\<lparr>ctx_req_buf := b1\<rparr>" ?s w1] by blast
        have "unfinished (rcv @ concat (take k (d # ds)))" if "k < length (d # ds)" for k
          using ih(3) that less.prems(3) by (cases k) simp_all
        moreover have "delivered T w n (d # ds) v" using ih(2) r True less.prems(2) by simp
        ultimately show ?thesis
          using ih(1,4) by (intro exI [of _ ret] exI [of _ e] exI [of _ c'] exI [of _ v] exI [of _ w'] exI [of _ "d # ds"])
            (simp add: step)
      qed
    qed
  qed
qed

lemma pending_events [simp]: "pending (c\<lparr>ctx_events := e\<rparr>) s = pending c s"
  "buf_has (c\<lparr>ctx_events := e\<rparr>) s = buf_has c s" "buf_has (c\<lparr>ctx_acc_read_n := k\<rparr>) s = buf_has c s"
  by (simp_all add: pending_def buf_has_def)

lemma read_of_loop:
  assumes "loop_result T ret e c w1 w' s"
  shows "read_result T ret (let c = (if e \<noteq> SSL_ERROR_WANT_WRITE then c\<lparr>ctx_events := EPOLLIN\<rparr> else c)
      in if ret < 0 then c\<lparr>ctx_acc_read_n := 0\<rparr> else c) w1 w' s"
  using assms unfolding loop_result_def read_result_def Let_def
  by (auto split: if_splits prod.splits)

lemma net_443_read_result:
  assumes T: "tls_ok T got sent" and c: "pending c rcv"
  shows "\<exists>ret c' w1 w' ds. net_443_read T w c = Some (ret, c', w') \<and> delivered T w (length rcv) ds w1 \<and>
     (\<forall>k < length ds. unfinished (rcv @ concat (take k ds))) \<and>
     got w' = got w @ concat ds \<and> sent w' = sent w \<and> read_result T ret c' w1 w' (rcv @ concat ds)"
proof -
  let ?n = "if ctx_acc_read_n c \<noteq> 0 then nat (ctx_acc_read_n c) else 0"
  have n: "?n = length rcv" "buf_has c rcv" "unfinished rcv"
    using c by (auto simp: pending_def unfinished_def)
  obtain ret e c' w1 w' ds where r: "read_loop T w c ?n = Some (ret, e, c', w')" "delivered T w (length rcv) ds w1"
    "\<forall>k < length ds. unfinished (rcv @ concat (take k ds))" "loop_result T ret e c' w1 w' (rcv @ concat ds)"
    using read_loop_is [OF T n(2) n(1) n(3), of w] n(1) by auto
  let ?c = "let c = (if e \<noteq> SSL_ERROR_WANT_WRITE then c'\<lparr>ctx_events := EPOLLIN\<rparr> else c')
      in if ret < 0 then c\<lparr>ctx_acc_read_n := 0\<rparr> else c"
  have "net_443_read T w c = Some (ret, ?c, w')"
    unfolding net_443_read_def Let_def r(1) Option.bind.bind_lunit prod.case ..
  moreover have rr: "read_result T ret ?c w1 w' (rcv @ concat ds)" by (rule read_of_loop [OF r(4)])
  moreover have "got w' = got w1 \<and> sent w' = sent w1"
  proof -
    obtain q x w2 where x: "ssl_read T w1 (8192 - length (rcv @ concat ds) - 1) = (q, x, w2)" using prod_cases3 by blast
    then show ?thesis using rr tls_readD(1,5) [OF T x] unfolding read_result_def by (auto split: if_splits)
  qed
  ultimately show ?thesis using r(2,3) delivered_is [OF T r(2)] by metis
qed

lemma read_leavesI: "read_result T ret c w1 w' s \<Longrightarrow> read_leaves ret c s"
  unfolding read_result_def read_leaves_def pending_def by (auto split: if_splits prod.splits)

lemma net_443_read_is:
  assumes "tls_ok T got sent" "pending c rcv"
  shows "\<exists>ret c' w' d. net_443_read T w c = Some (ret, c', w') \<and> got w' = got w @ d \<and> sent w' = sent w \<and>
     read_leaves ret c' (rcv @ d)"
  using net_443_read_result [OF assms, of w] read_leavesI by metis

section \<open>Sending a file\<close>

lemma to_s32_id: "- (2 ^ 31) \<le> i \<Longrightarrow> i < 2 ^ 31 \<Longrightarrow> to_s32 i = i"
  by (simp add: to_s32_def signed_of_int signed_take_bit_int_eq_self)

lemma net_443_write_is:
  assumes "tls_ok T got sent" "net_443_write T w c s = (ret, c', w')"
  shows "ret \<in> {1, 0, -1}" "got w' = got w" "sent w' = (if ret = 1 then sent w @ s else sent w)"
    "ctx_file_len c' = ctx_file_len c" "ctx_req_buf c' = ctx_req_buf c"
    "ctx_acc_read_n c' = ctx_acc_read_n c" "ctx_conf c' = ctx_conf c"
proof -
  obtain r w1 where r: "ssl_write T w s = (r, w1)" by (cases "ssl_write T w s")
  note t = tls_writeD [OF assms(1) r]
  have "(ret, c', w') = (if 0 < r then (1, c\<lparr>ctx_events := EPOLLIN\<rparr>, w1)
      else let e = ssl_get_error T w1 (-1) in
        if e = SSL_ERROR_WANT_WRITE then (0, c\<lparr>ctx_events := EPOLLOUT\<rparr>, w1)
        else if e = SSL_ERROR_WANT_READ then (0, c\<lparr>ctx_events := EPOLLIN\<rparr>, w1)
        else (-1, c\<lparr>ctx_events := EPOLLIN\<rparr>, w1))"
    using assms(2) r by (simp add: net_443_write_def)
  then consider "0 < r" "ret = 1" "w' = w1" "\<exists>ev. c' = c\<lparr>ctx_events := ev\<rparr>"
    | "\<not> 0 < r" "ret \<in> {0, -1}" "w' = w1" "\<exists>ev. c' = c\<lparr>ctx_events := ev\<rparr>"
    by (simp add: Let_def split: if_split_asm) blast+
  then show "ret \<in> {1, 0, -1}" "got w' = got w" "sent w' = (if ret = 1 then sent w @ s else sent w)"
    "ctx_file_len c' = ctx_file_len c" "ctx_req_buf c' = ctx_req_buf c"
    "ctx_acc_read_n c' = ctx_acc_read_n c" "ctx_conf c' = ctx_conf c"
    using t by (cases; auto)+
qed

lemma take_length_take: "take (length (take n xs)) xs = take n xs"
  by (metis append_eq_conv_conj append_take_drop_id)

lemma file_loop_is:
  assumes T: "tls_ok T got sent" and run: "file_loop T w c content off = (ret, c', w')"
    and "off \<le> length content"
  shows "\<exists>n. off \<le> n \<and> n \<le> length content \<and> sent w' = sent w @ take (n - off) (drop off content) \<and>
     (ret = 0 \<and> n = length content \<and> ctx_file_len c' = 0
      \<or> ret = 1 \<and> n < length content \<and> ctx_file_len c' = to_s32 (int n)
      \<or> ret = -1 \<and> ctx_file_len c' = 0)"
  using run assms(3)
proof (induction "length content - off" arbitrary: w c off rule: less_induct)
  case less
  let ?k = "take 4096 (drop off content)"
  show ?case
  proof (cases "?k = []")
    case True
    then have "off = length content" using less.prems(2) by simp
    with True less.prems(1) show ?thesis
      by (subst (asm) file_loop.simps) (auto simp: Let_def)
  next
    case False
    then have lt: "off < length content" by simp
    obtain r c1 w1 where r: "net_443_write T w c ?k = (r, c1, w1)" by (cases "net_443_write T w c ?k")
    note t = net_443_write_is [OF T r]
    show ?thesis
    proof (cases "r = 1")
      case one: True
      let ?o = "off + length ?k"
      have o: "?o \<le> length content" "off < ?o" unfolding length_take length_drop using lt by linarith+
      have dec: "length content - ?o < length content - off" using o lt by linarith
      have "file_loop T w1 c1 content ?o = (ret, c', w')"
        using less.prems(1) False one r by (subst (asm) file_loop.simps) (simp add: Let_def)
      from less.hyps [OF dec this o(1)] obtain n where
        n: "?o \<le> n" "n \<le> length content" "sent w' = sent w1 @ take (n - ?o) (drop ?o content)"
        and rr: "ret = 0 \<and> n = length content \<and> ctx_file_len c' = 0
          \<or> ret = 1 \<and> n < length content \<and> ctx_file_len c' = to_s32 (int n) \<or> ret = -1 \<and> ctx_file_len c' = 0"
        by blast
      have "take (n - off) (drop off content) = ?k @ take (n - ?o) (drop ?o content)"
      proof -
        have e: "n - off = length ?k + (n - ?o)" using n(1) by linarith
        have "take (length ?k) (drop off content) = ?k"
          by (rule take_length_take)
        then show ?thesis unfolding e take_add by (simp only: drop_drop add.commute [of off])
      qed
      then have "sent w' = sent w @ take (n - off) (drop off content)"
        using n(3) t(3) one by simp
      moreover have "off \<le> n" using n(1) o(2) by linarith
      ultimately show ?thesis using n(2) rr by blast
    next
      case False
      with t(1) have "r \<in> {0, -1}" by auto
      moreover have "ret = (if r = 0 then 1 else -1) \<and> w' = w1 \<and>
          ctx_file_len c' = (if r = 0 then to_s32 (int off) else 0)"
        using less.prems(1) \<open>?k \<noteq> []\<close> r calculation
        by (subst (asm) file_loop.simps) (auto simp: Let_def)
      moreover have "sent w1 = sent w" using t(3) False by simp
      ultimately show ?thesis using lt by (intro exI [of _ off]) auto
    qed
  qed
qed


lemma net_443_file_write_is:
  assumes T: "tls_ok T got sent" and f: "open_read path = Some content" "length content < 2 ^ 31"
    and off: "ctx_file_len c = int off" "off \<le> length content"
    and run: "net_443_file_write T open_read w c path = (ret, c', w')"
  shows "\<exists>n. off \<le> n \<and> n \<le> length content \<and> sent w' = sent w @ take (n - off) (drop off content) \<and>
     (ret = 0 \<and> n = length content \<and> ctx_file_len c' = 0
      \<or> ret = 1 \<and> n < length content \<and> ctx_file_len c' = int n
      \<or> ret = -1 \<and> ctx_file_len c' = 0)"
proof -
  have o: "(if 0 < ctx_file_len c then nat (ctx_file_len c) else 0) = off" using off by simp
  have "to_s32 (int off) = int off" by (rule to_s32_id) (use off f in auto)
  then have "file_loop T w c content off = (ret, c', w')"
    using run f(1) unfolding net_443_file_write_def o Let_def by simp
  from file_loop_is [OF T this off(2)] obtain n where
    n: "off \<le> n" "n \<le> length content" "sent w' = sent w @ take (n - off) (drop off content)"
    "ret = 0 \<and> n = length content \<and> ctx_file_len c' = 0
      \<or> ret = 1 \<and> n < length content \<and> ctx_file_len c' = to_s32 (int n)
      \<or> ret = -1 \<and> ctx_file_len c' = 0" by blast
  have "to_s32 (int n) = int n" by (rule to_s32_id) (use n(2) f(2) in auto)
  with n show ?thesis by auto
qed

text \<open>
  The transfer of a file as the event loop drives it: after a return of 1 the handler is called
  again, with \<open>want_write\<close> set, and comes back to \<open>net_443_file_write\<close>; at most \<open>k\<close> times.
\<close>

primrec send_file ::
  "'w tls \<Rightarrow> (string \<Rightarrow> string option) \<Rightarrow> 'w \<Rightarrow> fws_data_ctx \<Rightarrow> string \<Rightarrow> nat \<Rightarrow> s32 \<times> fws_data_ctx \<times> 'w" where
  "send_file T open_read w c path 0 = net_443_file_write T open_read w c path"
| "send_file T open_read w c path (Suc k) =
     (case net_443_file_write T open_read w c path of (ret, c, w) \<Rightarrow>
        if ret = 1 then send_file T open_read w c path k else (ret, c, w))"

lemma send_file_is:
  assumes T: "tls_ok T got sent" and f: "open_read path = Some content" "length content < 2 ^ 31"
  shows "ctx_file_len c = int off \<Longrightarrow> off \<le> length content \<Longrightarrow>
     send_file T open_read w c path k = (ret, c', w') \<Longrightarrow>
     \<exists>n. off \<le> n \<and> n \<le> length content \<and> sent w' = sent w @ take (n - off) (drop off content) \<and>
       (ret = 0 \<longrightarrow> n = length content \<and> ctx_file_len c' = 0)"
proof (induction k arbitrary: w c off)
  case 0
  then show ?case using net_443_file_write_is [where open_read = open_read and path = path, OF T f 0(1,2)] by force
next
  case (Suc k)
  obtain r c1 w1 where r: "net_443_file_write T open_read w c path = (r, c1, w1)"
    by (cases "net_443_file_write T open_read w c path")
  from net_443_file_write_is [where open_read = open_read and path = path, OF T f Suc.prems(1,2) r] obtain n where
    n: "off \<le> n" "n \<le> length content" "sent w1 = sent w @ take (n - off) (drop off content)"
    "r = 0 \<and> n = length content \<and> ctx_file_len c1 = 0
      \<or> r = 1 \<and> n < length content \<and> ctx_file_len c1 = int n
      \<or> r = -1 \<and> ctx_file_len c1 = 0" by blast
  show ?case
  proof (cases "r = 1")
    case False
    with Suc.prems(3) r have "ret = r" "c' = c1" "w' = w1" by auto
    with n show ?thesis by auto
  next
    case True
    with n(4) have c1: "ctx_file_len c1 = int n" by auto
    have "send_file T open_read w1 c1 path k = (ret, c', w')" using Suc.prems(3) r True by simp
    from Suc.IH [OF c1 n(2) this] obtain m where
      m: "n \<le> m" "m \<le> length content" "sent w' = sent w1 @ take (m - n) (drop n content)"
      "ret = 0 \<longrightarrow> m = length content \<and> ctx_file_len c' = 0" by blast
    have "take (m - off) (drop off content) = take (n - off) (drop off content) @ take (m - n) (drop n content)"
    proof -
      have e: "m - off = (n - off) + (m - n)" "off + (n - off) = n" using n(1) m(1) by linarith+
      show ?thesis unfolding e(1) take_add drop_drop using e(2) by (simp add: add.commute)
    qed
    with m n show ?thesis by (intro exI [of _ m]) simp
  qed
qed

text \<open>Progress: a library that refuses a write only finitely often, and never fails.\<close>

definition patient :: "'w tls \<Rightarrow> ('w \<Rightarrow> nat) \<Rightarrow> bool" where
  "patient T left \<longleftrightarrow>
     (\<forall>w s r w'. s \<noteq> [] \<longrightarrow> ssl_write T w s = (r, w') \<longrightarrow>
        0 < r \<and> left w' \<le> left w \<or>
        r \<le> 0 \<and> left w' < left w \<and> ssl_get_error T w' (-1) \<in> {SSL_ERROR_WANT_WRITE, SSL_ERROR_WANT_READ})"

lemma patient_write:
  assumes "patient T left" "s \<noteq> []" "net_443_write T w c s = (ret, c', w')"
  shows "ret = 1 \<and> left w' \<le> left w \<or> ret = 0 \<and> left w' < left w"
proof -
  obtain r w1 where r: "ssl_write T w s = (r, w1)" by (cases "ssl_write T w s")
  with assms(1,2) consider "0 < r" "left w1 \<le> left w"
    | "r \<le> 0" "left w1 < left w" "ssl_get_error T w1 (-1) \<in> {SSL_ERROR_WANT_WRITE, SSL_ERROR_WANT_READ}"
    unfolding patient_def by blast
  then show ?thesis
    using assms(3) r by cases (auto simp: net_443_write_def Let_def split: if_splits)
qed

lemma patient_loop:
  assumes P: "patient T left" and run: "file_loop T w c content off = (ret, c', w')"
  shows "ret = 0 \<or> ret = 1 \<and> left w' < left w"
  using run
proof (induction "length content - off" arbitrary: w c off rule: less_induct)
  case less
  let ?k = "take 4096 (drop off content)"
  show ?case
  proof (cases "?k = []")
    case True
    with less.prems show ?thesis by (subst (asm) file_loop.simps) (auto simp: Let_def)
  next
    case False
    obtain r c1 w1 where r: "net_443_write T w c ?k = (r, c1, w1)" by (cases "net_443_write T w c ?k")
    from patient_write [OF P False r] consider "r = 1" "left w1 \<le> left w" | "r = 0" "left w1 < left w" by blast
    then show ?thesis
    proof cases
      case 1
      have "file_loop T w1 c1 content (off + length ?k) = (ret, c', w')"
        using less.prems False 1 r by (subst (asm) file_loop.simps) (simp add: Let_def)
      moreover have "length content - (off + length ?k) < length content - off"
        using False by simp
      ultimately show ?thesis using less.hyps 1(2) by fastforce
    next
      case 2
      with less.prems False r show ?thesis by (subst (asm) file_loop.simps) (auto simp: Let_def)
    qed
  qed
qed

lemma send_file_completes:
  assumes P: "patient T left" and T: "tls_ok T got sent"
    and f: "open_read path = Some content" "length content < 2 ^ 31"
  shows "ctx_file_len c = int off \<Longrightarrow> off \<le> length content \<Longrightarrow> left w \<le> k \<Longrightarrow>
     fst (send_file T open_read w c path k) = 0"
proof (induction k arbitrary: w c off)
  case 0
  obtain r c1 w1 where r: "net_443_file_write T open_read w c path = (r, c1, w1)"
    by (cases "net_443_file_write T open_read w c path")
  have o: "(if 0 < ctx_file_len c then nat (ctx_file_len c) else 0) = off" using 0 by simp
  have "to_s32 (int off) = int off" by (rule to_s32_id) (use 0 f in auto)
  then have "file_loop T w c content off = (r, c1, w1)"
    using r f(1) unfolding net_443_file_write_def o Let_def by simp
  from patient_loop [OF P this] 0 r show ?case by simp
next
  case (Suc k)
  obtain r c1 w1 where r: "net_443_file_write T open_read w c path = (r, c1, w1)"
    by (cases "net_443_file_write T open_read w c path")
  have o: "(if 0 < ctx_file_len c then nat (ctx_file_len c) else 0) = off" using Suc.prems by simp
  have "to_s32 (int off) = int off" by (rule to_s32_id) (use Suc.prems f in auto)
  then have "file_loop T w c content off = (r, c1, w1)"
    using r f(1) unfolding net_443_file_write_def o Let_def by simp
  note p = patient_loop [OF P this]
  show ?case
  proof (cases "r = 1")
    case False
    with p r show ?thesis by simp
  next
    case True
    with net_443_file_write_is [where open_read = open_read and path = path, OF T f Suc.prems(1,2) r] obtain n where
      "ctx_file_len c1 = int n" "n \<le> length content" by auto
    moreover have "left w1 \<le> k" using p True Suc.prems(3) by simp
    ultimately show ?thesis using Suc.IH r True by simp
  qed
qed


section \<open>The messages\<close>

lemma put_fmt_first:
  "fmt f as = Some t \<Longrightarrow> length t < 8192 \<Longrightarrow> put_fmt (0, zbuf 8192) f as = Some (length t, text_buf 8192 t)"
  by (simp add: put_fmt_def snprintf_fits text_buf_start)

lemma put_fmt_next:
  "fmt f as = Some t \<Longrightarrow> length s + length t < 8192 \<Longrightarrow>
     put_fmt (length s, text_buf 8192 s) f as = Some (length (s @ t), text_buf 8192 (s @ t))"
  by (simp add: put_fmt_def text_buf_snprintf)

lemma res_fmt:
  "fmt res_status_fmt [AInt c, AStr m] = Some (''HTTP/1.1 '' @ dec_int c @ '' '' @ m @ crlf)"
  "fmt ''%s%s'' [AStr s1, AStr s2] = Some (s1 @ s2)"
  "fmt res_date_fmt [AStr d] = Some (''Date: '' @ d @ crlf)"
  "fmt res_cache_fmt [AInt (uint (a :: u32)), AStr e] =
     Some (''Cache-Control: max-age='' @ dec (unat a) @ crlf @ ''ETag: '' @ DQ # e @ DQ # crlf)"
  "fmt res_content_fmt [AStr m, lu i] =
     Some (''Content-Type: '' @ m @ crlf @ ''Content-Length: '' @ dec (unat (word_of_int i :: 64 word)) @ crlf)"
  "fmt res_hsts_fmt [AInt (uint a)] = Some (''Strict-Transport-Security: max-age='' @ dec (unat a) @ '';'' @ crlf)"
  "fmt res_acao_fmt [AStr m] = Some (''Access-Control-Allow-Origin: '' @ m @ crlf)"
  by (simp_all add: res_fmt_defs eval_simps lu_def dec_int_def)

text \<open>The text behind the status line, in the order the source prints it.\<close>

definition origin_line :: "bool \<Rightarrow> string \<Rightarrow> string" where
  "origin_line self origin = (if self then ''Access-Control-Allow-Origin: '' @ origin @ crlf else [])"

definition hsts_line :: "u32 \<Rightarrow> string" where
  "hsts_line hsts = (if hsts = 0 then [] else
     ''Strict-Transport-Security: max-age='' @ dec (unat hsts) @ '';'' @ crlf)"

definition content_lines :: "bool \<Rightarrow> string \<Rightarrow> s64 \<Rightarrow> string" where
  "content_lines same content sz = (if same then [] else
     ''Content-Type: '' @ content @ crlf @ ''Content-Length: '' @ dec (unat (word_of_int sz :: 64 word)) @ crlf)"

definition status_line :: "bool \<Rightarrow> string" where
  "status_line same = (if same then ''HTTP/1.1 304 Not Modified'' else ''HTTP/1.1 200 OK'') @ crlf"

definition server_lines :: string where
  "server_lines = ''Server: Facooya-Web-Server'' @ crlf @ ''Connection: keep-alive'' @ crlf @
     ''Keep-Alive: timeout=3'' @ crlf"

definition cache_lines :: "u32 \<Rightarrow> string \<Rightarrow> string" where
  "cache_lines age etag =
     ''Cache-Control: max-age='' @ dec (unat age) @ crlf @ ''ETag: '' @ DQ # etag @ DQ # crlf"

definition header_text ::
  "bool \<Rightarrow> string \<Rightarrow> u32 \<Rightarrow> string \<Rightarrow> string \<Rightarrow> s64 \<Rightarrow> u32 \<Rightarrow> bool \<Rightarrow> string \<Rightarrow> string" where
  "header_text same date age etag content sz hsts self origin =
     status_line same @ server_lines @ ''Date: '' @ date @ crlf @ cache_lines age etag @
     content_lines same content sz @ hsts_line hsts @ origin_line self origin @ crlf"

lemmas header_defs = status_line_def server_lines_def cache_lines_def content_lines_def hsts_line_def
  origin_line_def

lemma dec_lengths:
  "length (dec (unat (a :: u32))) \<le> 10" "length (dec (unat (b :: 64 word))) \<le> 20"
  using length_dec_bound [of "unat a" 10] length_dec_bound [of "unat b" 20] unsigned_less [of a, where 'a = nat]
    unsigned_less [of b, where 'a = nat]
  by simp_all

lemma header_lengths:
  "length (status_line same) \<le> 27" "length server_lines = 75"
  "length (cache_lines age etag) \<le> 45 + length etag"
  "length (content_lines same content sz) \<le> 54 + length content"
  "length (hsts_line hsts) \<le> 48" "length (origin_line self origin) \<le> 31 + length origin"
  using dec_lengths(1) [of age] dec_lengths(1) [of hsts] dec_lengths(2) [of "word_of_int sz"]
  by (simp_all add: header_defs)

lemma header_text_bound:
  assumes "length date < 32" "length etag < 32" "length content < 64" "length origin < 512"
  shows "length (header_text same date age etag content sz hsts self origin) < 1024"
  using assms header_lengths(1) [of same] header_lengths(3) [of age etag]
    header_lengths(4) [of same content sz] header_lengths(5) [of hsts] header_lengths(6) [of self origin]
  by (simp add: header_text_def header_lengths(2))

lemma NUL_header:
  assumes "NUL \<notin> set date" "NUL \<notin> set etag" "NUL \<notin> set content" "NUL \<notin> set origin"
  shows "NUL \<notin> set (header_text same date age etag content sz hsts self origin)"
  using assms by (simp add: header_text_def header_defs)

text \<open>The three conditional steps.\<close>

definition at :: "string \<Rightarrow> nat \<times> cbuf" where
  "at s = (length s, text_buf 8192 s)"

lemma put_fmt_at:
  "fmt f as = Some t \<Longrightarrow> length s + length t < 8192 \<Longrightarrow> put_fmt (at s) f as = Some (at (s @ t))"
  by (simp add: put_fmt_next at_def)

lemma cond_steps:
  "length s + length (content_lines same content sz) < 8192 \<Longrightarrow>
     (if \<not> same then put_fmt (at s) res_content_fmt [AStr content, lu sz] else Some (at s)) =
     Some (at (s @ content_lines same content sz))"
  "length s + length (hsts_line hsts) < 8192 \<Longrightarrow>
     (if hsts \<noteq> 0 then put_fmt (at s) res_hsts_fmt [AInt (uint hsts)] else Some (at s)) =
     Some (at (s @ hsts_line hsts))"
  "length s + length (origin_line self origin) < 8192 \<Longrightarrow>
     (if self then put_fmt (at s) res_acao_fmt [AStr origin] else Some (at s)) =
     Some (at (s @ origin_line self origin))"
  by (auto simp: put_fmt_at res_fmt content_lines_def hsts_line_def origin_line_def)

lemma at_end:
  assumes "length s + 2 < 8192" "NUL \<notin> set s"
  shows "\<exists>b. wr (snd (at s)) (fst (at s)) crlf = Some b \<and> strnlen b 0 8192 = Some (length (s @ crlf)) \<and>
     rd_n b 0 (length (s @ crlf)) = Some (s @ crlf)"
proof -
  let ?b = "\<lparr>bytes = s @ crlf, cap = 8192\<rparr>"
  have "wr (snd (at s)) (fst (at s)) crlf = Some ?b" using assms(1) by (simp add: at_def wr_def text_buf_def)
  moreover have "cstr ?b 0 = Some (s @ crlf)" by (rule cstr_bytes) (use assms in auto)
  then have "strnlen ?b 0 8192 = Some (min 8192 (length (s @ crlf)))"
    by (rule strnlen_cstr [rotated]) (use assms(1) in \<open>simp add: wf_buf_def\<close>)
  moreover have "holds ?b 0 (bytes ?b)" by (rule holds_bytes) (use assms(1) in \<open>simp add: wf_buf_def\<close>)
  then have "rd_n ?b 0 (length (s @ crlf)) = Some (s @ crlf)"
    using holds_rd_n [of ?b 0 "s @ crlf" "length (s @ crlf)"] by simp
  ultimately show ?thesis using assms(1) by auto
qed

lemma res_write_is:
  assumes date: "cstr (res_date r) 0 = Some date" "length date < 32" "NUL \<notin> set date"
    and etag: "cstr (res_etag r) 0 = Some etag" "length etag < 32" "NUL \<notin> set etag"
    and content: "cstr (res_content r) 0 = Some content" "length content < 64" "NUL \<notin> set content"
    and origin: "cstr (req_origin q) 0 = Some origin" "length origin < 512" "NUL \<notin> set origin"
    and tags: "rd_n (req_etag q) 0 32 = Some e" "mem_eq (res_etag r) 0 e = Some same"
  shows "net_443_res_write T w c r sz q =
    (case net_443_write T w c (header_text same date (conf_cache_max_age (ctx_conf c)) etag content sz
        (res_hsts_max_age r) (res_is_origin_self r) origin) of
      (ret, c', w') \<Rightarrow> Some (if ret \<le> 0 then -1 else 0, c', w'))"
proof -
  let ?age = "conf_cache_max_age (ctx_conf c)" and ?hsts = "res_hsts_max_age r" and ?self = "res_is_origin_self r"
  note len = header_lengths(1) [of same] header_lengths(2) header_lengths(3) [of ?age etag]
    header_lengths(4) [of same content sz] header_lengths(5) [of ?hsts] header_lengths(6) [of ?self origin]
  let ?s1 = "status_line same" and ?s2 = server_lines and ?s3 = "''Date: '' @ date @ crlf"
    and ?s4 = "cache_lines ?age etag" and ?s5 = "content_lines same content sz"
    and ?s6 = "hsts_line ?hsts" and ?s7 = "origin_line ?self origin"
  have bound: "length ?s1 + length ?s2 + length ?s3 + length ?s4 + length ?s5 + length ?s6 + length ?s7 < 8000"
    using len date(2) etag(2) content(2) origin(2) by simp
  let ?st = "if same then (304 :: int, ''Not Modified'') else (200, ''OK'')"
  have p1: "put_fmt (0, zbuf 8192) res_status_fmt [AInt (fst ?st), AStr (snd ?st)] = Some (at ?s1)"
    unfolding at_def
    by (rule put_fmt_first) (use bound in \<open>auto simp: res_fmt status_line_def dec_int_def eval_simps\<close>)
  have p2: "put_fmt (at ?s1) ''%s%s'' [AStr res_server_str, AStr res_connection_str] = Some (at (?s1 @ ?s2))"
    by (rule put_fmt_at) (use bound in \<open>simp_all add: res_fmt server_lines_def res_server_str_def res_connection_str_def\<close>)
  let ?a3 = "(?s1 @ ?s2) @ ?s3"
  have p3: "put_fmt (at (?s1 @ ?s2)) res_date_fmt [AStr date] = Some (at ?a3)"
    by (rule put_fmt_at) (use bound in \<open>simp_all add: res_fmt\<close>)
  have p4: "put_fmt (at ?a3) res_cache_fmt [AInt (uint ?age), AStr etag] = Some (at (?a3 @ ?s4))"
    by (rule put_fmt_at) (use bound in \<open>simp_all add: res_fmt cache_lines_def\<close>)
  have p5: "(if \<not> same then put_fmt (at (?a3 @ ?s4)) res_content_fmt [AStr content, lu sz] else Some (at (?a3 @ ?s4))) =
      Some (at ((?a3 @ ?s4) @ ?s5))"
    by (rule cond_steps) (use bound in simp)
  let ?a5 = "(?a3 @ ?s4) @ ?s5"
  have p6: "(if ?hsts \<noteq> 0 then put_fmt (at ?a5) res_hsts_fmt [AInt (uint ?hsts)] else Some (at ?a5)) =
      Some (at (?a5 @ ?s6))"
    by (rule cond_steps) (use bound in simp)
  have p7: "(if ?self then put_fmt (at (?a5 @ ?s6)) res_acao_fmt [AStr origin] else Some (at (?a5 @ ?s6))) =
      Some (at ((?a5 @ ?s6) @ ?s7))"
    by (rule cond_steps) (use bound in simp)
  let ?all = "(?a5 @ ?s6) @ ?s7"
  have h: "?all @ crlf = header_text same date ?age etag content sz ?hsts ?self origin"
    by (simp add: header_text_def)
  have "NUL \<notin> set (?all @ crlf)" unfolding h by (rule NUL_header) (fact date etag content origin)+
  then have nn: "NUL \<notin> set ?all" by simp
  have la: "length ?all + 2 < 8192" using bound by simp
  obtain b where b: "wr (snd (at ?all)) (fst (at ?all)) crlf = Some b"
    "strnlen b 0 8192 = Some (length (?all @ crlf))" "rd_n b 0 (length (?all @ crlf)) = Some (?all @ crlf)"
    using at_end [OF la nn] by blast
  have lt: "length (?all @ crlf) \<noteq> 8192" using la by simp
  show ?thesis
    unfolding net_443_res_write_def Let_def tags date(1) etag(1) content(1) origin(1) Option.bind.bind_lunit
      p1 p2 p3 p4 p5 p6 p7 b
    unfolding h using lt unfolding h
    by (simp split: prod.split)
qed


section \<open>Error answers\<close>

definition err_msg :: "s32 \<Rightarrow> s32 \<times> string" where
  "err_msg code = (case find (\<lambda>m. fst m = code) http_msg of None \<Rightarrow> hd http_msg | Some m \<Rightarrow> m)"

definition err_head :: "s32 \<Rightarrow> nat \<Rightarrow> string" where
  "err_head code n =
     ''HTTP/1.1 '' @ dec_int (fst (err_msg code)) @ '' '' @ snd (err_msg code) @ crlf @
     ''Content-Type: text/html'' @ crlf @ ''Content-Length: '' @ dec n @ crlf @
     (if code = 429 then ''Retry-After: 60'' @ crlf else []) @
     ''Server: Facooya-Web-Server'' @ crlf @ ''Connection: close'' @ crlf @ crlf"

lemma print_alloc_is: "print_alloc s = Some s"
  unfolding print_alloc_def by (rule snprintf_whole)

lemma err_head_fmt:
  assumes "n < 2 ^ 64"
  shows "fmt (if code = 429 then res_429_fmt else res_err_fmt)
     [AInt (fst (err_msg code)), AStr (snd (err_msg code)), lu (int n)] = Some (err_head code n)"
proof -
  have "unat (word_of_int (int n) :: 64 word) = n"
    using assms by (simp add: unat_of_nat take_bit_nat_eq_self)
  then show ?thesis
    by (simp add: res_429_fmt_def res_err_fmt_def err_head_def eval_simps lu_def dec_int_def)
qed

lemma err_write_is:
  assumes "open_read err_page_path = Some html" "html \<noteq> []" "length body < 2 ^ 64"
    and "fmt (takeWhile (\<lambda>c. c \<noteq> NUL) html)
          [AInt (fst (err_msg code)), AInt (fst (err_msg code)), AStr (snd (err_msg code))] = Some body"
  shows "net_443_err_write T open_read w c code =
    (case net_443_write T w c (err_head code (length body)) of (r1, c1, w1) \<Rightarrow>
       if r1 \<le> 0 then Some (-1, c1, w1)
       else case net_443_write T w1 c1 body of (r2, c2, w2) \<Rightarrow>
         Some (if r2 \<le> 0 then -1 else 0, c2, w2))"
  unfolding net_443_err_write_def assms(1) option.case if_not_P [OF assms(2)] Let_def
    err_msg_def [symmetric] assms(4) Option.bind.bind_lunit print_alloc_is err_head_fmt [OF assms(3)]
  by (simp split: prod.split)

section \<open>An instance of the TLS library\<close>

text \<open>
  The library as a script: how many writes it still refuses, what it has delivered and accepted,
  and the chunks it will deliver.
\<close>

type_synonym script = "nat \<times> string \<times> string \<times> string list"

definition script_tls :: "script tls" where
  "script_tls = \<lparr>
     ssl_read = (\<lambda>(k, g, s, cs) n. case cs of [] \<Rightarrow> (-1, [], (k, g, s, []))
       | c # cs \<Rightarrow> (int (length (take n c)), take n c,
           (k, g @ take n c, s, if drop n c = [] then cs else drop n c # cs))),
     ssl_write = (\<lambda>(k, g, s, cs) x. if 0 < k then (-1, (k - 1, g, s, cs))
       else (int (length x), (k, g, s @ x, cs))),
     ssl_get_error = (\<lambda>w r. SSL_ERROR_WANT_READ)\<rparr>"

definition script_got :: "script \<Rightarrow> string" where "script_got w = fst (snd w)"
definition script_sent :: "script \<Rightarrow> string" where "script_sent w = fst (snd (snd w))"

lemma script_tls_ok: "tls_ok script_tls script_got script_sent"
  by (auto simp: tls_ok_def script_tls_def script_got_def script_sent_def split: list.splits)

lemma script_patient: "patient script_tls fst"
  by (auto simp: patient_def script_tls_def)

definition idle_ctx :: fws_data_ctx where
  "idle_ctx = \<lparr>ctx_file_len = 0, ctx_req_buf = zbuf 8192, ctx_acc_read_n = 0, ctx_want_write = 0,
     ctx_ssl_status = SSL_STATUS_ACCEPT, ctx_events = EPOLLIN, ctx_file_path = zbuf 1024,
     ctx_client_ip_buf = replicate 16 0, ctx_conf = zero_conf\<rparr>"

lemma idle_pending: "pending idle_ctx []"
  by (simp add: pending_def buf_has_def idle_ctx_def crlf2_def)

section \<open>Properties\<close>

text \<open>
  C18. Reading a request: from a connection that waits for the rest of \<open>rcv\<close>, a call reads pieces
  until what has arrived is finished, and not one piece less or more.  It returns 1 exactly when an empty line has
  arrived within 8190 bytes, with all bytes in \<open>req_buf\<close> and a zero byte behind them, and -431 exactly when
  8191 bytes have arrived.  Otherwise the next \<open>SSL_read\<close> has failed: the call returns 0, with all bytes in \<open>req_buf\<close> and
  their number kept for the next call, when the library has to wait, and -1 for any other error.
  The event it waits for is writing exactly when the library asks for that.
\<close>

theorem request_assembled:
  assumes "tls_ok T got sent" "pending c rcv"
  shows "\<exists>ret c' w1 w' ds. net_443_read T w c = Some (ret, c', w') \<and> delivered T w (length rcv) ds w1 \<and>
     (\<forall>k < length ds. unfinished (rcv @ concat (take k ds))) \<and>
     got w' = got w @ concat ds \<and> sent w' = sent w \<and> read_result T ret c' w1 w' (rcv @ concat ds)"
  using assms by (rule net_443_read_result)

theorem request_assembled_witness:
  "\<exists>c' w'. net_443_read script_tls (0, [], [], [''GET / HTTP/1.1'', crlf2]) idle_ctx = Some (1, c', w') \<and>
     buf_has c' (''GET / HTTP/1.1'' @ crlf2 @ [NUL])"
proof -
  let ?w = "(0, [], [], [''GET / HTTP/1.1'', crlf2]) :: script"
  obtain ret c' w1 w' ds where r: "net_443_read script_tls ?w idle_ctx = Some (ret, c', w')"
      "delivered script_tls ?w 0 ds w1" "\<forall>k < length ds. unfinished (concat (take k ds))"
      "read_result script_tls ret c' w1 w' (concat ds)"
    using request_assembled [OF script_tls_ok idle_pending, of ?w] by auto
  note s = script_tls_def crlf2_def
  consider "ds = []" | "ds = [''GET / HTTP/1.1'']" | "ds = [''GET / HTTP/1.1'', crlf2]"
    | e es where "ds = ''GET / HTTP/1.1'' # crlf2 # e # es"
    using r(2) by (cases ds; cases "tl ds"; cases "tl (tl ds)") (auto simp: s)
  then have "ds = [''GET / HTTP/1.1'', crlf2]"
  proof cases
    case 1
    then show ?thesis using r(2,4) by (simp add: read_result_def s)
  next
    case 2
    then show ?thesis using r(2,4) by (simp add: read_result_def s)
  next
    case 4
    then show ?thesis using r(3) by (auto simp: unfinished_def s dest: spec [of _ 2])
  qed
  then have "ret = 1 \<and> buf_has c' (''GET / HTTP/1.1'' @ crlf2 @ [NUL])" using r(4) by (simp add: read_result_def s)
  with r(1) show ?thesis by blast
qed

text \<open>
  C19. Sending a file: over any number of interruptions and resumptions, what the TLS library has
  accepted is always a front part of the file, without gaps or repetitions, and the whole file
  when the transfer ends with 0 (files below 2 GiB).
\<close>

theorem file_sent_once:
  assumes "tls_ok T got sent" "open_read path = Some content" "length content < 2 ^ 31"
    and "ctx_file_len c = 0" "send_file T open_read w c path k = (ret, c', w')"
  shows "\<exists>n. n \<le> length content \<and> sent w' = sent w @ take n content \<and>
     (ret = 0 \<longrightarrow> n = length content \<and> ctx_file_len c' = 0)"
  using send_file_is [where open_read = open_read and path = path, OF assms(1,2,3), of c 0 w k ret c' w'] assms(4,5)
  by auto

theorem file_sent_once_witness:
  "\<exists>n ret c' w'. send_file script_tls (\<lambda>p. Some ''body'') (2, [], [], []) idle_ctx ''/a'' 3 = (ret, c', w') \<and>
     script_sent w' = take n ''body''"
proof -
  obtain ret c' w' where r: "send_file script_tls (\<lambda>p. Some ''body'') (2, [], [], []) idle_ctx ''/a'' 3 = (ret, c', w')"
    using prod_cases3 by blast
  have z: "ctx_file_len idle_ctx = 0" by (simp add: idle_ctx_def)
  have l: "length ''body'' < 2 ^ 31" by simp
  obtain n where "script_sent w' = script_sent (2, [], [], []) @ take n ''body''"
    using file_sent_once [where open_read = "\<lambda>p. Some ''body''" and path = "''/a''", OF script_tls_ok refl l z r]
    by blast
  with r show ?thesis by (auto simp: script_sent_def)
qed

text \<open>
  The transfer ends: if the TLS library refuses at most \<open>left w\<close> writes and never fails, then
  after at most that many resumptions the transfer has returned 0 and the client has the file.
\<close>

theorem file_transfer_completes:
  assumes "tls_ok T got sent" "patient T left" "open_read path = Some content" "length content < 2 ^ 31"
    and "ctx_file_len c = 0" "left w \<le> k"
  shows "\<exists>c' w'. send_file T open_read w c path k = (0, c', w') \<and> sent w' = sent w @ content"
proof -
  obtain ret c' w' where r: "send_file T open_read w c path k = (ret, c', w')" using prod_cases3 by blast
  have "ret = 0"
    using send_file_completes [where open_read = open_read and path = path, OF assms(2,1,3,4), of c 0 w k] assms(5,6) r
    by simp
  with r send_file_is [where open_read = open_read and path = path, OF assms(1,3,4), of c 0 w k ret c' w'] assms(5)
  show ?thesis by auto
qed

theorem file_transfer_completes_witness:
  "\<exists>c' w'. send_file script_tls (\<lambda>p. Some ''body'') (2, [], [], []) idle_ctx ''/a'' 2 = (0, c', w') \<and>
     script_sent w' = ''body''"
  using file_transfer_completes [where open_read = "\<lambda>p. Some ''body''" and path = "''/a''",
      OF script_tls_ok script_patient refl, of idle_ctx "(2, [], [], [])" 2]
  by (simp add: idle_ctx_def script_sent_def)

text \<open>
  Beyond 2 GiB a resumed transfer restarts: the offset is kept in an \<open>s32\<close>, where it turns
  negative, and the next call sends the file from its first byte.
\<close>

theorem large_file_restarts:
  assumes "open_read path = Some content" "ctx_file_len c = to_s32 (int off)" "2 ^ 31 \<le> off" "off < 2 ^ 32"
  shows "net_443_file_write T open_read w c path = file_loop T w c content 0"
proof -
  have "to_s32 (int off) < 0"
  proof -
    have "word_of_int (int off) = (word_of_int (int off - 2 ^ 32) :: 32 word)"
      by (simp add: word_of_int_eq_iff take_bit_eq_mod)
    moreover have "to_s32 (int off - 2 ^ 32) = int off - 2 ^ 32"
      by (rule to_s32_id) (use assms(3,4) in auto)
    ultimately have "to_s32 (int off) = int off - 2 ^ 32" by (simp only: to_s32_def)
    then show ?thesis using assms(4) by simp
  qed
  then show ?thesis using assms(1,2) by (simp add: net_443_file_write_def Let_def to_s32_id)
qed

theorem large_file_restarts_witness:
  "net_443_file_write script_tls (\<lambda>p. Some ''body'') (0, [], [], [])
     (idle_ctx\<lparr>ctx_file_len := to_s32 (2 ^ 31 + 4096)\<rparr>) ''/a'' =
   file_loop script_tls (0, [], [], []) (idle_ctx\<lparr>ctx_file_len := to_s32 (2 ^ 31 + 4096)\<rparr>) ''body'' 0"
  using large_file_restarts [of "\<lambda>p. Some ''body''" "''/a''" "''body''"
      "idle_ctx\<lparr>ctx_file_len := to_s32 (2 ^ 31 + 4096)\<rparr>" "2 ^ 31 + 4096"]
  by simp

text \<open>
  C20. The response header, byte for byte: for every response the server builds, the nine calls of
  \<open>snprintf\<close> into \<open>res_buf\<close> produce this text, always below 1024 of its 8192 bytes, and exactly it
  is written.
\<close>

theorem response_header_exact:
  assumes "cstr (res_date r) 0 = Some date" "length date < 32" "NUL \<notin> set date"
    and "cstr (res_etag r) 0 = Some etag" "length etag < 32" "NUL \<notin> set etag"
    and "cstr (res_content r) 0 = Some content" "length content < 64" "NUL \<notin> set content"
    and "cstr (req_origin q) 0 = Some origin" "length origin < 512" "NUL \<notin> set origin"
    and "rd_n (req_etag q) 0 32 = Some e" "mem_eq (res_etag r) 0 e = Some same"
  shows "length (header_text same date (conf_cache_max_age (ctx_conf c)) etag content sz
        (res_hsts_max_age r) (res_is_origin_self r) origin) < 1024 \<and>
    net_443_res_write T w c r sz q =
    (case net_443_write T w c (header_text same date (conf_cache_max_age (ctx_conf c)) etag content sz
        (res_hsts_max_age r) (res_is_origin_self r) origin) of
      (ret, c', w') \<Rightarrow> Some (if ret \<le> 0 then -1 else 0, c', w'))"
  using res_write_is [OF assms] header_text_bound [OF assms(2,5,8,11)] by simp

theorem response_header_exact_witness:
  "\<exists>c' w'. net_443_res_write script_tls (0, [], [], []) idle_ctx
     (zero_http_res\<lparr>res_date := text_buf 32 ''now'', res_etag := text_buf 32 ''1_2'',
        res_content := text_buf 64 ''text/css''\<rparr>) 2 zero_http_req = Some (0, c', w') \<and>
     script_sent w' = header_text False ''now'' 0 ''1_2'' ''text/css'' 2 0 False []"
proof -
  let ?r = "zero_http_res\<lparr>res_date := text_buf 32 ''now'', res_etag := text_buf 32 ''1_2'',
        res_content := text_buf 64 ''text/css''\<rparr>"
  let ?t = "header_text False ''now'' 0 ''1_2'' ''text/css'' 2 0 False []"
  obtain e where e: "rd_n (req_etag zero_http_req) 0 32 = Some e" "e = replicate 32 NUL"
    by (simp add: rd_n_def)
  have "hd (blk (text_buf 32 ''1_2'') 0 32) = CHR ''1''" "hd (replicate 32 NUL) = NUL"
    by (simp_all add: eval_simps text_buf_def)
  then have "blk (text_buf 32 ''1_2'') 0 32 \<noteq> replicate 32 NUL" by auto
  then have m: "mem_eq (res_etag ?r) 0 e = Some False"
    by (simp add: mem_eq_def rd_n_def e(2))
  have z: "conf_cache_max_age (ctx_conf idle_ctx) = 0" "res_hsts_max_age zero_http_res = 0"
    "\<not> res_is_origin_self zero_http_res"
    by (simp_all add: idle_ctx_def zero_conf_def zero_http_res_def)
  have "net_443_res_write script_tls (0, [], [], []) idle_ctx ?r 2 zero_http_req =
    (case net_443_write script_tls (0, [], [], []) idle_ctx ?t of (ret, c', w') \<Rightarrow> Some (if ret \<le> 0 then -1 else 0, c', w'))"
    using response_header_exact [OF _ _ _ _ _ _ _ _ _ _ _ _ e(1) m, of "''now''" "''1_2''" "''text/css''" "[]" idle_ctx 2
        script_tls "(0, [], [], [])"]
    by (simp add: text_buf_cstr z)
  moreover have "?t \<noteq> []" by (simp add: header_text_def)
  ultimately show ?thesis by (simp add: net_443_write_def script_tls_def script_sent_def)
qed

text \<open>
  C21. Error answers: for every code the server uses, and 500 for any other, the header carries the
  code, its phrase and the exact length of the printed page, and is followed by that page.
\<close>

theorem error_answer_sent:
  assumes "tls_ok T got sent" "open_read err_page_path = Some html" "html \<noteq> []" "length body < 2 ^ 64"
    and "fmt (takeWhile (\<lambda>c. c \<noteq> NUL) html)
          [AInt (fst (err_msg code)), AInt (fst (err_msg code)), AStr (snd (err_msg code))] = Some body"
    and "net_443_err_write T open_read w c code = Some (0, c', w')"
  shows "sent w' = sent w @ err_head code (length body) @ body"
proof -
  obtain r1 c1 w1 where 1: "net_443_write T w c (err_head code (length body)) = (r1, c1, w1)"
    using prod_cases3 by blast
  obtain r2 c2 w2 where 2: "net_443_write T w1 c1 body = (r2, c2, w2)" using prod_cases3 by blast
  have "r1 > 0" "r2 > 0" "w' = w2"
    using assms(6) unfolding err_write_is [where open_read = open_read, OF assms(2-5)] 1 2
    by (simp_all add: 2 split: if_splits)
  with net_443_write_is(1,3) [OF assms(1) 1] net_443_write_is(1,3) [OF assms(1) 2] show ?thesis by auto
qed

theorem error_answer_sent_witness:
  "\<exists>c' w'. net_443_err_write script_tls (\<lambda>p. Some ''<p>%d: %d %s</p>'') (0, [], [], []) idle_ctx 404 = Some (0, c', w') \<and>
     script_sent w' = err_head 404 (length ''<p>404: 404 File Not Found</p>'') @ ''<p>404: 404 File Not Found</p>''"
proof -
  let ?op = "\<lambda>p :: string. Some ''<p>%d: %d %s</p>''" and ?body = "''<p>404: 404 File Not Found</p>''"
  let ?w = "(0, [], [], []) :: script"
  have m: "err_msg 404 = (404, ''File Not Found'')" by (simp add: err_msg_def http_msg_def)
  have f: "fmt (takeWhile (\<lambda>c. c \<noteq> NUL) ''<p>%d: %d %s</p>'')
      [AInt (fst (err_msg 404)), AInt (fst (err_msg 404)), AStr (snd (err_msg 404))] = Some ?body"
    by (simp add: m eval_simps dec_int_def)
  have h: "err_head 404 n \<noteq> []" for n by (simp add: err_head_def)
  have "\<exists>c' w'. net_443_err_write script_tls ?op ?w idle_ctx 404 = Some (0, c', w')"
    unfolding err_write_is [where open_read = ?op and html = "''<p>%d: %d %s</p>''" and body = ?body, OF refl _ _ f, simplified]
    using h by (simp add: net_443_write_def script_tls_def)
  then obtain c' w' where r: "net_443_err_write script_tls ?op ?w idle_ctx 404 = Some (0, c', w')" by blast
  show ?thesis
    using error_answer_sent [where open_read = ?op, OF script_tls_ok refl _ _ f r] r
    by (simp add: script_sent_def)
qed


end
