(* ===== verification/Rate_Limit.thy ===== *)
theory Rate_Limit
  imports Types
begin

text \<open>
  The rate limiter of \<open>_fws_443_run\<close> (\<open>src/fws.c\<close>): a table of 1024 entries, one per client
  address, counts the pages and the other files of a time window in 16-bit counters; the timer
  event clears the table.
\<close>

section \<open>The code\<close>

definition nft_arr_cap :: nat where "nft_arr_cap = 1024"

definition empty_ip_buf :: "u8 list" where "empty_ip_buf = replicate 16 0"

text \<open>
  The loop that finds the entry of a client, from entry \<open>i\<close> on with \<open>n\<close> entries left; an empty
  entry is taken, and with no entry left the last one looked at is used.
\<close>

primrec nft_find :: "fws_nft list \<Rightarrow> u8 list \<Rightarrow> nat \<Rightarrow> nat \<Rightarrow> nat \<Rightarrow> nat \<times> fws_nft list" where
  "nft_find nft_arr client_ip nft_i i 0 = (nft_i, nft_arr)"
| "nft_find nft_arr client_ip nft_i i (Suc n) =
     (if nft_ip_buf (nft_arr ! i) = client_ip then (i, nft_arr)
      else if nft_ip_buf (nft_arr ! i) = empty_ip_buf
        then (i, nft_arr[i := (nft_arr ! i)\<lparr>nft_ip_buf := client_ip\<rparr>])
      else nft_find nft_arr client_ip i (i + 1) n)"

definition nft_slot :: "fws_nft list \<Rightarrow> u8 list \<Rightarrow> nat \<times> fws_nft list" where
  "nft_slot nft_arr client_ip = nft_find nft_arr client_ip 0 0 nft_arr_cap"

text \<open>A counter above its limit; the counters are widened to \<open>u32\<close> for the comparison.\<close>

definition over_limit :: "fws_conf \<Rightarrow> fws_nft \<Rightarrow> bool" where
  "over_limit conf e \<longleftrightarrow>
     conf_lim_page conf < ucast (nft_html_cnt e) \<or> conf_lim_res conf < ucast (nft_no_html_cnt e)"

definition count_dos :: "fws_nft \<Rightarrow> fws_nft" where
  "count_dos e = e\<lparr>nft_dos_cnt := nft_dos_cnt e + 1\<rparr>"

definition count_req :: "bool \<Rightarrow> fws_nft \<Rightarrow> fws_nft" where
  "count_req page e =
     (if page then e\<lparr>nft_html_cnt := nft_html_cnt e + 1\<rparr>
      else e\<lparr>nft_no_html_cnt := nft_no_html_cnt e + 1\<rparr>)"

text \<open>
  What becomes of a request: it is served, answered with 429 because its own count passed the
  limit, or refused with 429 because the limit was passed before; a refusal may come with a
  message to the parent that bans the address.
\<close>

datatype verdict = Serve | Limited | Refused bool

definition rate_check :: "fws_conf \<Rightarrow> bool \<Rightarrow> fws_nft \<Rightarrow> verdict \<times> fws_nft" where
  "rate_check conf page e =
     (if over_limit conf e then
        (let e = count_dos e in (Refused (conf_use_nft conf \<and> conf_ban_lim conf < ucast (nft_dos_cnt e)), e))
      else
        (let e = count_req page e in
         if over_limit conf e then (Limited, count_dos e) else (Serve, e)))"

definition nft_request :: "fws_conf \<Rightarrow> u8 list \<Rightarrow> bool \<Rightarrow> fws_nft list \<Rightarrow> verdict \<times> fws_nft list" where
  "nft_request conf client_ip page nft_arr =
     (case nft_slot nft_arr client_ip of (nft_i, nft_arr) \<Rightarrow>
        case rate_check conf page (nft_arr ! nft_i) of (v, e) \<Rightarrow> (v, nft_arr[nft_i := e]))"

text \<open>The timer event: \<open>memset(nft_arr_p, 0, ...)\<close>; also the table at the start (\<open>calloc\<close>).\<close>

definition nft_clear :: "fws_nft list" where
  "nft_clear = replicate nft_arr_cap zero_nft"

section \<open>Counting, for one client\<close>

lemma ucast_u16_u32: "unat (ucast (c :: u16) :: u32) = unat c"
  by transfer simp

lemma over_limit_unat:
  "over_limit conf e \<longleftrightarrow> unat (conf_lim_page conf) < unat (nft_html_cnt e) \<or>
     unat (conf_lim_res conf) < unat (nft_no_html_cnt e)"
  by (simp add: over_limit_def word_less_nat_alt ucast_u16_u32)

lemma unat_Suc16: "unat (c :: u16) < 65535 \<Longrightarrow> unat (c + 1) = Suc (unat c)"
  by (simp add: unat_word_ariths)

primrec run_serve :: "('r \<Rightarrow> 'e \<Rightarrow> 'v \<times> 'e) \<Rightarrow> 'e \<Rightarrow> 'r list \<Rightarrow> 'v list \<times> 'e" where
  "run_serve f e [] = ([], e)"
| "run_serve f e (r # rs) =
     (case f r e of (v, e) \<Rightarrow> case run_serve f e rs of (vs, e) \<Rightarrow> (v # vs, e))"

lemma run_serve_Cons:
  "run_serve f e (r # rs) =
     (fst (f r e) # fst (run_serve f (snd (f r e)) rs), snd (run_serve f (snd (f r e)) rs))"
  by (simp split: prod.split)

lemma run_serve_append:
  "run_serve f e (xs @ ys) =
     (let (vs, e1) = run_serve f e xs; (ws, e2) = run_serve f e1 ys in (vs @ ws, e2))"
  by (induction xs arbitrary: e) (auto split: prod.splits)

lemma run_serve_length [simp]: "length (fst (run_serve f e rs)) = length rs"
  by (induction rs arbitrary: e) (simp_all add: run_serve_Cons del: run_serve.simps(2))

text \<open>The window of one client: pages (\<open>True\<close>) and other files, in the order of the requests.\<close>

definition fresh :: "u8 list \<Rightarrow> fws_nft" where
  "fresh ip = zero_nft\<lparr>nft_ip_buf := ip\<rparr>"

definition within :: "fws_conf \<Rightarrow> bool list \<Rightarrow> bool" where
  "within conf ps \<longleftrightarrow> length (filter (\<lambda>p. p) ps) \<le> unat (conf_lim_page conf) \<and>
     length (filter Not ps) \<le> unat (conf_lim_res conf)"

lemma within_snoc: "within conf (ps @ [p]) \<Longrightarrow> within conf ps"
  by (cases p) (simp_all add: within_def)

definition narrow :: "fws_conf \<Rightarrow> bool" where
  "narrow conf \<longleftrightarrow> unat (conf_lim_page conf) < 65535 \<and> unat (conf_lim_res conf) < 65535"

text \<open>The requests of the window up to each one that are over the limit.\<close>

definition offence_count :: "fws_conf \<Rightarrow> bool list \<Rightarrow> nat" where
  "offence_count conf ps = length (filter (\<lambda>i. \<not> within conf (take (Suc i) ps)) [0..<length ps])"

lemma offence_count_snoc:
  "offence_count conf (ps @ [p]) = offence_count conf ps + (if within conf (ps @ [p]) then 0 else 1)"
proof -
  have "filter (\<lambda>i. \<not> within conf (take (Suc i) (ps @ [p]))) [0..<length ps] =
      filter (\<lambda>i. \<not> within conf (take (Suc i) ps)) [0..<length ps]"
    by (rule filter_cong) auto
  then show ?thesis by (simp add: offence_count_def)
qed

lemma window_state:
  assumes "narrow conf"
  shows "(let e = snd (run_serve (rate_check conf) (fresh ip) ps) in
     nft_ip_buf e = ip \<and> nft_dos_cnt e = of_nat (offence_count conf ps) \<and>
     (if within conf ps
      then unat (nft_html_cnt e) = length (filter (\<lambda>p. p) ps) \<and>
           unat (nft_no_html_cnt e) = length (filter Not ps)
      else over_limit conf e))"
proof (induction ps rule: rev_induct)
  case Nil
  then show ?case by (simp add: fresh_def zero_nft_def within_def offence_count_def)
next
  case (snoc p ps)
  let ?e = "snd (run_serve (rate_check conf) (fresh ip) ps)"
  let ?f = "snd (rate_check conf p ?e)"
  have st: "snd (run_serve (rate_check conf) (fresh ip) (ps @ [p])) = ?f"
    by (simp add: run_serve_append split: prod.split)
  show ?case
  proof (cases "within conf ps")
    case False
    then have "over_limit conf ?e" "\<not> within conf (ps @ [p])" "nft_ip_buf ?e = ip"
       "nft_dos_cnt ?e = of_nat (offence_count conf ps)"
      using snoc within_snoc by (auto simp: Let_def)
    then show ?thesis
      unfolding st by (simp add: rate_check_def Let_def offence_count_snoc count_dos_def over_limit_def add.commute)
  next
    case True
    then have e: "unat (nft_html_cnt ?e) = length (filter (\<lambda>p. p) ps)"
      "unat (nft_no_html_cnt ?e) = length (filter Not ps)" "nft_ip_buf ?e = ip"
      "nft_dos_cnt ?e = of_nat (offence_count conf ps)"
      using snoc by (auto simp: Let_def)
    have w: "unat (nft_html_cnt ?e) < 65535" "unat (nft_no_html_cnt ?e) < 65535" "\<not> over_limit conf ?e"
      using True assms e by (auto simp: within_def narrow_def over_limit_unat)
    let ?g = "count_req p ?e"
    have g: "unat (nft_html_cnt ?g) = length (filter (\<lambda>p. p) (ps @ [p]))"
      "unat (nft_no_html_cnt ?g) = length (filter Not (ps @ [p]))"
      "nft_ip_buf ?g = ip" "nft_dos_cnt ?g = of_nat (offence_count conf ps)"
      using e w unat_Suc16 by (auto simp: count_req_def)
    then have "over_limit conf ?g \<longleftrightarrow> \<not> within conf (ps @ [p])"
      by (auto simp: over_limit_unat within_def)
    then show ?thesis
      unfolding st using g w
      by (auto simp: rate_check_def Let_def offence_count_snoc count_dos_def over_limit_unat)
  qed
qed

lemma window_verdict:
  assumes "narrow conf"
  shows "fst (rate_check conf p (snd (run_serve (rate_check conf) (fresh ip) ps))) =
    (if within conf (ps @ [p]) then Serve
     else if within conf ps then Limited
     else Refused (conf_use_nft conf \<and>
       conf_ban_lim conf < ucast (of_nat (Suc (offence_count conf ps)) :: u16)))"
proof -
  let ?e = "snd (run_serve (rate_check conf) (fresh ip) ps)"
  note s = window_state [OF assms, of ip ps, unfolded Let_def]
  note s' = window_state [OF assms, of ip "ps @ [p]", unfolded Let_def]
  have st: "snd (run_serve (rate_check conf) (fresh ip) (ps @ [p])) = snd (rate_check conf p ?e)"
    by (simp add: run_serve_append split: prod.split)
  show ?thesis
  proof (cases "within conf ps")
    case False
    then have "over_limit conf ?e" "\<not> within conf (ps @ [p])" using s within_snoc by auto
    with False s show ?thesis by (simp add: rate_check_def Let_def count_dos_def add.commute)
  next
    case True
    then have "\<not> over_limit conf ?e" using s by (auto simp: over_limit_unat within_def)
    moreover from this have "over_limit conf (count_req p ?e) \<longleftrightarrow> \<not> within conf (ps @ [p])"
    proof -
      have w: "unat (nft_html_cnt ?e) < 65535" "unat (nft_no_html_cnt ?e) < 65535"
        using True assms s by (auto simp: within_def narrow_def)
      then show ?thesis using s True unat_Suc16 by (auto simp: over_limit_unat within_def count_req_def)
    qed
    ultimately show ?thesis using True by (simp add: rate_check_def Let_def)
  qed
qed

text \<open>The verdict on the request at position \<open>i\<close> of a window.\<close>

lemma run_serve_nth:
  "i < length rs \<Longrightarrow> fst (run_serve f e rs) ! i = fst (f (rs ! i) (snd (run_serve f e (take i rs))))"
proof (induction rs arbitrary: e i)
  case (Cons r rs)
  then show ?case by (cases i) (simp_all add: run_serve_Cons del: run_serve.simps(2))
qed simp

lemma window_nth:
  assumes "narrow conf" "i < length ps"
  shows "fst (run_serve (rate_check conf) (fresh ip) ps) ! i =
    (if within conf (take (Suc i) ps) then Serve
     else if within conf (take i ps) then Limited
     else Refused (conf_use_nft conf \<and>
       conf_ban_lim conf < ucast (of_nat (offence_count conf (take (Suc i) ps)) :: u16)))"
proof -
  have t: "take (Suc i) ps = take i ps @ [ps ! i]" using assms(2) by (rule take_Suc_conv_app_nth)
  show ?thesis
    unfolding run_serve_nth [OF assms(2)] t window_verdict [OF assms(1)] offence_count_snoc by simp
qed


section \<open>The table of all clients\<close>

text \<open>
  The interface of a table of counters with room for \<open>room\<close> clients: a request of a client is
  served from its own entry, and no other entry changes.
\<close>

primrec run_table :: "('t \<Rightarrow> 'k \<Rightarrow> 'r \<Rightarrow> 'v \<times> 't) \<Rightarrow> 't \<Rightarrow> ('k \<times> 'r) list \<Rightarrow> ('k \<times> 'v) list \<times> 't" where
  "run_table step t [] = ([], t)"
| "run_table step t (kr # krs) =
     (case step t (fst kr) (snd kr) of (v, t) \<Rightarrow>
        case run_table step t krs of (vs, t) \<Rightarrow> ((fst kr, v) # vs, t))"

lemma run_table_Cons:
  "run_table step t (kr # krs) =
     (let t1 = snd (step t (fst kr) (snd kr)) in
        ((fst kr, fst (step t (fst kr) (snd kr))) # fst (run_table step t1 krs), snd (run_table step t1 krs)))"
  by (simp add: Let_def split: prod.split)

definition own :: "'k \<Rightarrow> ('k \<times> 'a) list \<Rightarrow> 'a list" where
  "own k xs = map snd (filter (\<lambda>x. fst x = k) xs)"

lemma own_simps [simp]: "own k [] = []"
  "own k ((k', a) # xs) = (if k' = k then a # own k xs else own k xs)"
  by (simp_all add: own_def)

locale counter_table =
  fixes serve :: "'r \<Rightarrow> 'e \<Rightarrow> 'v \<times> 'e"
    and step :: "'t \<Rightarrow> 'k \<Rightarrow> 'r \<Rightarrow> 'v \<times> 't"
    and look :: "'t \<Rightarrow> 'k \<Rightarrow> 'e"
    and keys :: "'t \<Rightarrow> 'k set"
    and good :: "'t \<Rightarrow> bool"
    and valid :: "'k \<Rightarrow> bool"
    and room :: nat
  assumes keys_finite: "good t \<Longrightarrow> finite (keys t)"
    and step_verdict: "good t \<Longrightarrow> valid k \<Longrightarrow> card (insert k (keys t)) \<le> room \<Longrightarrow>
      fst (step t k r) = fst (serve r (look t k))"
    and step_entry: "good t \<Longrightarrow> valid k \<Longrightarrow> card (insert k (keys t)) \<le> room \<Longrightarrow>
      look (snd (step t k r)) k' = (if k' = k then snd (serve r (look t k)) else look t k')"
    and step_keys: "good t \<Longrightarrow> valid k \<Longrightarrow> card (insert k (keys t)) \<le> room \<Longrightarrow>
      keys (snd (step t k r)) = insert k (keys t)"
    and step_good: "good t \<Longrightarrow> valid k \<Longrightarrow> card (insert k (keys t)) \<le> room \<Longrightarrow>
      good (snd (step t k r))"
begin

lemma isolation:
  assumes "good t" "\<forall>kr \<in> set krs. valid (fst kr)" "card (keys t \<union> fst ` set krs) \<le> room"
  shows "own k (fst (run_table step t krs)) = fst (run_serve serve (look t k) (own k krs))"
  using assms
proof (induction krs arbitrary: t)
  case (Cons kr krs)
  obtain k' r where kr: "kr = (k', r)" by (cases kr)
  have fin: "finite (keys t \<union> fst ` set (kr # krs))" using keys_finite [OF Cons.prems(1)] by simp
  have "insert k' (keys t) \<subseteq> keys t \<union> fst ` set (kr # krs)" using kr by auto
  then have c: "card (insert k' (keys t)) \<le> room"
    using card_mono [OF fin] Cons.prems(3) by (meson le_trans)
  have v: "valid k'" using Cons.prems(2) kr by simp
  let ?t = "snd (step t k' r)"
  have u: "keys ?t \<union> fst ` set krs = keys t \<union> fst ` set (kr # krs)"
    using step_keys [OF Cons.prems(1) v c] kr by auto
  have "own k (fst (run_table step ?t krs)) = fst (run_serve serve (look ?t k) (own k krs))"
    using Cons.IH [of ?t] step_good [OF Cons.prems(1) v c] Cons.prems(2,3) u by simp
  then show ?case
    using step_verdict [OF Cons.prems(1) v c] step_entry [OF Cons.prems(1) v c]
    by (cases "k' = k") (simp_all add: kr run_table_Cons run_serve_Cons Let_def del: run_table.simps(2) run_serve.simps(2))
qed simp

end

subsection \<open>The search for an entry\<close>

lemma nft_find_hit:
  assumes "i \<le> j" "j < i + n" "nft_ip_buf (arr ! j) = ip"
    and "\<And>m. i \<le> m \<Longrightarrow> m < j \<Longrightarrow> nft_ip_buf (arr ! m) \<noteq> ip \<and> nft_ip_buf (arr ! m) \<noteq> empty_ip_buf"
  shows "nft_find arr ip d i n = (j, arr)"
  using assms
proof (induction n arbitrary: i d)
  case (Suc n)
  show ?case
  proof (cases "i = j")
    case False
    with Suc.prems have "nft_find arr ip i (i + 1) n = (j, arr)" by (intro Suc.IH) auto
    with False Suc.prems(1,4) show ?thesis by simp
  qed (use Suc.prems in simp)
qed simp

lemma nft_find_free:
  assumes "i \<le> j" "j < i + n" "nft_ip_buf (arr ! j) = empty_ip_buf" "ip \<noteq> empty_ip_buf"
    and "\<And>m. i \<le> m \<Longrightarrow> m < j \<Longrightarrow> nft_ip_buf (arr ! m) \<noteq> ip \<and> nft_ip_buf (arr ! m) \<noteq> empty_ip_buf"
  shows "nft_find arr ip d i n = (j, arr[j := (arr ! j)\<lparr>nft_ip_buf := ip\<rparr>])"
  using assms
proof (induction n arbitrary: i d)
  case (Suc n)
  show ?case
  proof (cases "i = j")
    case False
    with Suc.prems have "nft_find arr ip i (i + 1) n = (j, arr[j := (arr ! j)\<lparr>nft_ip_buf := ip\<rparr>])"
      by (intro Suc.IH) auto
    with False Suc.prems(1,5) show ?thesis by simp
  qed (use Suc.prems in simp)
qed simp

lemma nft_find_full:
  assumes "\<And>m. i \<le> m \<Longrightarrow> m < i + n \<Longrightarrow> nft_ip_buf (arr ! m) \<noteq> ip \<and> nft_ip_buf (arr ! m) \<noteq> empty_ip_buf"
  shows "nft_find arr ip d i n = (if n = 0 then d else i + n - 1, arr)"
  using assms
proof (induction n arbitrary: i d)
  case (Suc n)
  have "nft_find arr ip i (i + 1) n = (if n = 0 then i else i + 1 + n - 1, arr)"
    by (rule Suc.IH) (use Suc.prems in auto)
  then show ?case using Suc.prems [of i] by auto
qed simp

text \<open>The table: the used entries first, with distinct addresses, the others still cleared.\<close>

definition entries :: "fws_nft list \<Rightarrow> fws_nft list" where
  "entries arr = takeWhile (\<lambda>e. nft_ip_buf e \<noteq> empty_ip_buf) arr"

definition table_ok :: "fws_nft list \<Rightarrow> bool" where
  "table_ok arr \<longleftrightarrow> arr = entries arr @ replicate (nft_arr_cap - length (entries arr)) zero_nft \<and>
     length (entries arr) \<le> nft_arr_cap \<and> distinct (map nft_ip_buf (entries arr))"

definition clients :: "fws_nft list \<Rightarrow> u8 list set" where
  "clients arr = nft_ip_buf ` set (entries arr)"

definition entry :: "fws_nft list \<Rightarrow> u8 list \<Rightarrow> fws_nft" where
  "entry arr ip = (case find (\<lambda>e. nft_ip_buf e = ip) (entries arr) of Some e \<Rightarrow> e | None \<Rightarrow> fresh ip)"

definition valid_ip :: "u8 list \<Rightarrow> bool" where
  "valid_ip ip \<longleftrightarrow> ip \<noteq> empty_ip_buf"

lemma entries_valid: "e \<in> set (entries arr) \<Longrightarrow> nft_ip_buf e \<noteq> empty_ip_buf"
  by (auto simp: entries_def dest: set_takeWhileD)

lemma zero_nft_ip [simp]: "nft_ip_buf zero_nft = empty_ip_buf"
  by (simp add: zero_nft_def empty_ip_buf_def)

text \<open>A table given by its used entries.\<close>

definition table_of :: "fws_nft list \<Rightarrow> fws_nft list" where
  "table_of es = es @ replicate (nft_arr_cap - length es) zero_nft"

lemma entries_table_of: "\<forall>e \<in> set es. nft_ip_buf e \<noteq> empty_ip_buf \<Longrightarrow> entries (table_of es) = es"
  by (cases "nft_arr_cap - length es") (simp_all add: entries_def table_of_def takeWhile_append)

lemma table_okE:
  assumes "table_ok arr"
  obtains es where "arr = table_of es" "entries arr = es" "length es \<le> nft_arr_cap"
    "distinct (map nft_ip_buf es)" "\<forall>e \<in> set es. nft_ip_buf e \<noteq> empty_ip_buf"
  using assms entries_valid unfolding table_ok_def table_of_def by blast

lemma table_okI:
  assumes "length es \<le> nft_arr_cap" "distinct (map nft_ip_buf es)" "\<forall>e \<in> set es. nft_ip_buf e \<noteq> empty_ip_buf"
  shows "table_ok (table_of es)"
  using assms entries_table_of [OF assms(3)] by (simp add: table_ok_def) (simp add: table_of_def)

lemma rate_check_ip [simp]: "nft_ip_buf (snd (rate_check conf page e)) = nft_ip_buf e"
  by (simp add: rate_check_def count_dos_def count_req_def Let_def)

text \<open>A client that has an entry, and a client that gets the next free one.\<close>

lemma request_known:
  assumes es: "es = xs @ e # ys" "length es \<le> nft_arr_cap" "distinct (map nft_ip_buf es)"
    "\<forall>e \<in> set es. nft_ip_buf e \<noteq> empty_ip_buf"
  shows "nft_request conf (nft_ip_buf e) page (table_of es) =
    (fst (rate_check conf page e), table_of (xs @ snd (rate_check conf page e) # ys))"
proof -
  have pre: "nft_ip_buf (xs ! m) \<noteq> nft_ip_buf e \<and> nft_ip_buf (xs ! m) \<noteq> empty_ip_buf"
    if "m < length xs" for m
  proof -
    have "nft_ip_buf (xs ! m) \<in> nft_ip_buf ` set xs" using that by simp
    moreover have "nft_ip_buf e \<notin> nft_ip_buf ` set xs" using es(1,3) by auto
    moreover have "xs ! m \<in> set es" using that es(1) by simp
    ultimately show ?thesis using es(4) by metis
  qed
  have "nft_slot (table_of es) (nft_ip_buf e) = (length xs, table_of es)"
    unfolding nft_slot_def
    by (rule nft_find_hit) (use es pre in \<open>auto simp: table_of_def nth_append\<close>)
  then show ?thesis
    using es(1) by (simp add: nft_request_def table_of_def nth_append list_update_append split: prod.split)
qed

lemma request_new:
  assumes es: "length es < nft_arr_cap" "ip \<notin> nft_ip_buf ` set es" "valid_ip ip"
    "\<forall>e \<in> set es. nft_ip_buf e \<noteq> empty_ip_buf"
  shows "nft_request conf ip page (table_of es) =
    (fst (rate_check conf page (fresh ip)), table_of (es @ [snd (rate_check conf page (fresh ip))]))"
proof -
  obtain m where m: "nft_arr_cap - length es = Suc m" using es(1) by (metis Suc_diff_Suc)
  have t: "table_of es = es @ zero_nft # replicate m zero_nft" by (simp add: table_of_def m)
  have "nft_slot (table_of es) ip =
      (length es, (table_of es)[length es := (table_of es ! length es)\<lparr>nft_ip_buf := ip\<rparr>])"
    unfolding nft_slot_def
    by (rule nft_find_free) (use es in \<open>auto simp: t nth_append valid_ip_def\<close>)
  moreover have "nft_arr_cap - Suc (length es) = m" using m by simp
  ultimately show ?thesis
    by (simp add: nft_request_def m nth_append list_update_append fresh_def table_of_def split: prod.split)
qed

lemma table_cases:
  assumes "table_ok arr" "valid_ip ip" "card (insert ip (clients arr)) \<le> nft_arr_cap"
  obtains (known) xs e ys where "arr = table_of (xs @ e # ys)" "entries arr = xs @ e # ys" "nft_ip_buf e = ip"
      "length (xs @ e # ys) \<le> nft_arr_cap" "distinct (map nft_ip_buf (xs @ e # ys))"
      "\<forall>e \<in> set (xs @ e # ys). nft_ip_buf e \<noteq> empty_ip_buf" "entry arr ip = e"
  | (new) es where "arr = table_of es" "entries arr = es" "length es < nft_arr_cap"
      "ip \<notin> nft_ip_buf ` set es" "distinct (map nft_ip_buf es)"
      "\<forall>e \<in> set es. nft_ip_buf e \<noteq> empty_ip_buf" "entry arr ip = fresh ip"
proof -
  obtain es where es: "arr = table_of es" "entries arr = es" "length es \<le> nft_arr_cap"
    "distinct (map nft_ip_buf es)" "\<forall>e \<in> set es. nft_ip_buf e \<noteq> empty_ip_buf"
    using assms(1) by (rule table_okE)
  show ?thesis
  proof (cases "ip \<in> nft_ip_buf ` set es")
    case True
    then obtain e where e: "e \<in> set es" "nft_ip_buf e = ip" by auto
    then obtain xs ys where xy: "es = xs @ e # ys" by (meson split_list)
    have "find (\<lambda>e. nft_ip_buf e = ip) (xs @ e # ys) = Some e"
      using es(4) e(2) unfolding xy by (induction xs) auto
    then have "entry arr ip = e" using es(2) xy by (simp add: entry_def)
    with es e xy show ?thesis by (intro known [of xs e ys]) auto
  next
    case False
    have "card (clients arr) = length es"
      using distinct_card [OF es(4)] by (simp add: clients_def es(2))
    moreover have "ip \<notin> clients arr" "finite (clients arr)" using False by (auto simp: clients_def es(2))
    ultimately have "length es < nft_arr_cap" using assms(3) by simp
    moreover have "find (\<lambda>e. nft_ip_buf e = ip) es = None" using False by (auto simp: find_None_iff)
    then have "entry arr ip = fresh ip" by (simp add: entry_def es(2))
    ultimately show ?thesis using es False by (intro new [of es]) auto
  qed
qed

lemma nft_request_laws:
  assumes "table_ok arr" "valid_ip ip" "card (insert ip (clients arr)) \<le> nft_arr_cap"
  shows "fst (nft_request conf ip page arr) = fst (rate_check conf page (entry arr ip))"
    and "entry (snd (nft_request conf ip page arr)) ip' =
      (if ip' = ip then snd (rate_check conf page (entry arr ip)) else entry arr ip')"
    and "clients (snd (nft_request conf ip page arr)) = insert ip (clients arr)"
    and "table_ok (snd (nft_request conf ip page arr))"
proof -
  have all: "fst (nft_request conf ip page arr) = fst (rate_check conf page (entry arr ip)) \<and>
    entry (snd (nft_request conf ip page arr)) ip' =
      (if ip' = ip then snd (rate_check conf page (entry arr ip)) else entry arr ip') \<and>
    clients (snd (nft_request conf ip page arr)) = insert ip (clients arr) \<and>
    table_ok (snd (nft_request conf ip page arr))"
    using assms
  proof (cases rule: table_cases)
    case (known xs e ys)
    let ?e = "snd (rate_check conf page e)" and ?es = "xs @ snd (rate_check conf page e) # ys"
    have r: "nft_request conf ip page arr = (fst (rate_check conf page e), table_of ?es)"
      unfolding known(1) known(3) [symmetric] by (rule request_known [OF refl known(4-6)])
    have en: "entries (table_of ?es) = ?es" by (rule entries_table_of) (use known(6) in simp)
    have "table_ok (table_of ?es)" by (rule table_okI) (use known in auto)
    moreover have "clients (table_of ?es) = insert ip (clients arr)"
      using known by (auto simp: clients_def en)
    moreover have "entry (table_of ?es) ip' = (if ip' = ip then ?e else entry arr ip')"
      unfolding entry_def en known(2) using known(3,5) by (induction xs) auto
    ultimately show ?thesis using r known(7) by simp
  next
    case (new es)
    let ?e = "snd (rate_check conf page (fresh ip))" and ?es = "es @ [snd (rate_check conf page (fresh ip))]"
    have ip: "nft_ip_buf ?e = ip" by (simp add: fresh_def)
    have r: "nft_request conf ip page arr = (fst (rate_check conf page (fresh ip)), table_of ?es)"
      unfolding new(1) by (rule request_new) (use new assms(2) in auto)
    have en: "entries (table_of ?es) = ?es"
      by (rule entries_table_of) (use new ip assms(2) in \<open>auto simp: valid_ip_def\<close>)
    have "table_ok (table_of ?es)"
      by (rule table_okI) (use new ip assms(2) in \<open>auto simp: valid_ip_def\<close>)
    moreover have "clients (table_of ?es) = insert ip (clients arr)"
      using new ip by (auto simp: clients_def en)
    moreover have "entry (table_of ?es) ip' = (if ip' = ip then ?e else entry arr ip')"
      unfolding entry_def en new(2) using new(4) ip by (induction es) auto
    ultimately show ?thesis using r new(7) by simp
  qed
  then show "fst (nft_request conf ip page arr) = fst (rate_check conf page (entry arr ip))"
    "entry (snd (nft_request conf ip page arr)) ip' =
      (if ip' = ip then snd (rate_check conf page (entry arr ip)) else entry arr ip')"
    "clients (snd (nft_request conf ip page arr)) = insert ip (clients arr)"
    "table_ok (snd (nft_request conf ip page arr))"
    by blast+
qed

interpretation rate: counter_table "rate_check conf" "\<lambda>arr ip page. nft_request conf ip page arr"
    entry clients table_ok valid_ip nft_arr_cap for conf
  by unfold_locales (simp_all add: nft_request_laws, simp add: clients_def)


lemma table_clear: "table_ok nft_clear" "clients nft_clear = {}" "entry nft_clear ip = fresh ip"
proof -
  have c: "nft_clear = table_of []" by (simp add: nft_clear_def table_of_def)
  have e: "entries nft_clear = []" unfolding c by (rule entries_table_of) simp
  show "table_ok nft_clear" unfolding c by (rule table_okI) simp_all
  show "clients nft_clear = {}" "entry nft_clear ip = fresh ip"
    by (simp_all add: clients_def entry_def e)
qed

lemma own_length: "length (own k (fst (run_table step t krs))) = length (own k krs)"
  by (induction krs arbitrary: t) (auto simp: run_table_Cons Let_def simp del: run_table.simps(2))

lemma valid_short: "valid_ip [k]"
proof -
  have "length [k] \<noteq> length empty_ip_buf" by (simp add: empty_ip_buf_def)
  then show ?thesis unfolding valid_ip_def by metis
qed

lemma run_table_append:
  "run_table step t (xs @ ys) =
     (let (vs, t1) = run_table step t xs; (ws, t2) = run_table step t1 ys in (vs @ ws, t2))"
  by (induction xs arbitrary: t) (auto split: prod.splits)

lemma own_append [simp]: "own k (xs @ ys) = own k xs @ own k ys"
  by (simp add: own_def)

text \<open>The verdict on the next request of a client, from what it has asked for since the table was cleared.\<close>

lemma next_verdict:
  assumes "narrow conf" "\<forall>kr \<in> set krs. valid_ip (fst kr)" "valid_ip ip" "card (insert ip (fst ` set krs)) \<le> nft_arr_cap"
  shows "fst (nft_request conf ip page (snd (run_table (\<lambda>arr ip page. nft_request conf ip page arr) nft_clear krs))) =
    (if within conf (own ip krs @ [page]) then Serve
     else if within conf (own ip krs) then Limited
     else Refused (conf_use_nft conf \<and>
       conf_ban_lim conf < ucast (of_nat (offence_count conf (own ip krs @ [page])) :: u16)))"
proof -
  let ?ps = "own ip krs"
  let ?run = "run_table (\<lambda>arr ip page. nft_request conf ip page arr) nft_clear"
  have all: "own ip (fst (?run (krs @ [(ip, page)]))) = fst (run_serve (rate_check conf) (fresh ip) (?ps @ [page]))"
    using rate.isolation [OF table_clear(1), of "krs @ [(ip, page)]" ip conf] assms(2-4)
    by (simp add: table_clear del: run_table.simps)
  have old: "own ip (fst (?run krs)) = fst (run_serve (rate_check conf) (fresh ip) ?ps)"
    using rate.isolation [OF table_clear(1) assms(2), of ip conf] assms(4)
    by (simp add: table_clear card_insert_if split: if_splits)
  have "own ip (fst (?run (krs @ [(ip, page)]))) =
      own ip (fst (?run krs)) @ [fst (nft_request conf ip page (snd (?run krs)))]"
    by (simp add: run_table_append split: prod.split)
  then have "fst (nft_request conf ip page (snd (?run krs))) = fst (run_serve (rate_check conf) (fresh ip) (?ps @ [page])) ! length ?ps"
    using all old by (metis nth_append_length run_serve_length)
  then show ?thesis using window_nth [OF assms(1), of "length ?ps" "?ps @ [page]" ip] by simp
qed

section \<open>Properties\<close>

text \<open>
  C12. The limit, exactly, for limits below 65535: however the requests of up to 1024 clients interleave since the table was
  cleared, a client's request is served iff the pages and the other files it has asked for, this
  one included, are within the limits; the first one beyond is answered 429, every later one is
  refused, with a ban exactly when the firewall is in use and its offences exceed \<open>ban_lim\<close>.
\<close>

theorem rate_limit_exact:
  assumes "narrow conf" "\<forall>kr \<in> set krs. valid_ip (fst kr)" "card (fst ` set krs) \<le> nft_arr_cap"
    and "i < length (own ip krs)"
  shows "own ip (fst (run_table (\<lambda>arr ip page. nft_request conf ip page arr) nft_clear krs)) ! i =
    (if within conf (take (Suc i) (own ip krs)) then Serve
     else if within conf (take i (own ip krs)) then Limited
     else Refused (conf_use_nft conf \<and>
       conf_ban_lim conf < ucast (of_nat (offence_count conf (take (Suc i) (own ip krs))) :: u16)))"
  using rate.isolation [OF table_clear(1) assms(2), of ip conf] assms(3) window_nth [OF assms(1,4), of ip]
  by (simp add: table_clear)

theorem rate_limit_exact_witness:
  "own [1 :: u8] (fst (run_table (\<lambda>arr ip page. nft_request (zero_conf\<lparr>conf_lim_page := 1\<rparr>) ip page arr) nft_clear
     [([1], True), ([2], True), ([1], True)])) ! 1 = Limited"
proof -
  note v = valid_short
  have w: "within (zero_conf\<lparr>conf_lim_page := 1\<rparr>) [True]" "\<not> within (zero_conf\<lparr>conf_lim_page := 1\<rparr>) [True, True]"
    by (simp_all add: within_def zero_conf_def)
  have c: "card {[1], [2 :: u8], [1]} \<le> nft_arr_cap" by (simp add: nft_arr_cap_def card_insert_if)
  have n: "narrow (zero_conf\<lparr>conf_lim_page := 1\<rparr>)" by (simp add: narrow_def zero_conf_def)
  show ?thesis
    using rate_limit_exact [OF n, of "[([1], True), ([2], True), ([1], True)]" 1 "[1]"] w c
    by (simp add: v del: run_table.simps)
qed

text \<open>
  C13. Clients do not affect each other: in any interleaving of up to 1024 clients, from any table,
  each client gets the verdicts its own requests would get alone from its own entry.
\<close>

theorem clients_isolated:
  assumes "table_ok arr" "\<forall>kr \<in> set krs. valid_ip (fst kr)"
    and "card (clients arr \<union> fst ` set krs) \<le> nft_arr_cap"
  shows "own ip (fst (run_table (\<lambda>arr ip page. nft_request conf ip page arr) arr krs)) =
    fst (run_serve (rate_check conf) (entry arr ip) (own ip krs))"
  using assms by (rule rate.isolation)

theorem clients_isolated_witness:
  "own [1 :: u8] (fst (run_table (\<lambda>arr ip page. nft_request zero_conf ip page arr) nft_clear
     [([1], True), ([2], True), ([1], False)])) =
   fst (run_serve (rate_check zero_conf) (fresh [1]) [True, False])"
proof -
  note v = valid_short
  have c: "card {[1], [2 :: u8], [1]} \<le> nft_arr_cap" by (simp add: nft_arr_cap_def card_insert_if)
  show ?thesis
    using clients_isolated [OF table_clear(1), of "[([1], True), ([2], True), ([1], False)]" "[1]" zero_conf] c
    by (simp add: v table_clear del: run_table.simps run_serve.simps)
qed

text \<open>
  A full table: a client beyond the 1024 that have entries is counted in the last entry,
  together with the client that owns it.
\<close>

theorem full_table_shares_last_entry:
  assumes "table_ok arr" "length (entries arr) = nft_arr_cap" "ip \<notin> clients arr"
  shows "nft_request conf ip page arr =
    (fst (rate_check conf page (arr ! 1023)), arr[1023 := snd (rate_check conf page (arr ! 1023))])"
proof -
  obtain es where es: "arr = table_of es" "entries arr = es" "\<forall>e \<in> set es. nft_ip_buf e \<noteq> empty_ip_buf"
    using assms(1) by (rule table_okE)
  then have arr: "arr = es" "length es = nft_arr_cap" using assms(2) by (simp_all add: table_of_def)
  have "nft_ip_buf (arr ! m) \<noteq> ip \<and> nft_ip_buf (arr ! m) \<noteq> empty_ip_buf" if "m < nft_arr_cap" for m
  proof -
    have "arr ! m \<in> set es" using that arr by simp
    then show ?thesis using es(2,3) assms(3) by (auto simp: clients_def)
  qed
  then have "nft_slot arr ip = (1023, arr)"
    using nft_find_full [of 0 nft_arr_cap arr ip 0] by (simp add: nft_slot_def nft_arr_cap_def)
  then show ?thesis by (simp add: nft_request_def split: prod.split)
qed

text \<open>The 1024 addresses of the witness differ in two of their 16 bytes.\<close>

definition example_ip :: "nat \<Rightarrow> u8 list" where
  "example_ip i = of_nat (i div 256) # of_nat (i mod 256) # replicate 14 1"

lemma example_ip_nth: "example_ip i ! 0 = of_nat (i div 256)" "example_ip i ! 1 = of_nat (i mod 256)"
  "example_ip i ! 2 = 1"
  by (simp_all add: example_ip_def)

lemma example_ip_inj: "inj_on example_ip {0..<1024}"
proof (rule inj_onI)
  fix i j assume i: "i \<in> {0..<1024}" and j: "j \<in> {0..<1024}" and e: "example_ip i = example_ip j"
  have small: "unat (of_nat k :: u8) = k" if "k < 256" for k
    using that by (simp add: unsigned_of_nat take_bit_nat_eq_self)
  have "of_nat (i div 256) = (of_nat (j div 256) :: u8)" "of_nat (i mod 256) = (of_nat (j mod 256) :: u8)"
    using arg_cong [OF e, of "\<lambda>l. l ! 0"] arg_cong [OF e, of "\<lambda>l. l ! 1"] by (simp_all only: example_ip_nth)
  moreover have "i div 256 < 256" "j div 256 < 256" "i mod 256 < 256" "j mod 256 < 256"
    using i j by (simp_all add: div_less_iff_less_mult)
  ultimately have "i div 256 = j div 256" "i mod 256 = j mod 256" using small by metis+
  then show "i = j" by (metis div_mult_mod_eq)
qed

lemma example_ip_neq: "c \<noteq> 1 \<Longrightarrow> example_ip i \<noteq> replicate 16 c"
  using example_ip_nth(3) [of i] by (auto dest: arg_cong [of _ _ "\<lambda>l. l ! 2"])

theorem full_table_shares_last_entry_witness:
  "let es = map (fresh \<circ> example_ip) [0..<1024] in
     nft_request zero_conf (replicate 16 2) True es =
       (fst (rate_check zero_conf True (es ! 1023)), es[1023 := snd (rate_check zero_conf True (es ! 1023))])"
proof -
  let ?es = "map (fresh \<circ> example_ip) [0..<1024]"
  have ip: "map nft_ip_buf ?es = map example_ip [0..<1024]" by (simp add: fresh_def)
  have len: "length ?es = nft_arr_cap" by (simp add: nft_arr_cap_def)
  have d: "distinct (map nft_ip_buf ?es)" unfolding ip by (simp add: distinct_map example_ip_inj)
  have ne: "\<forall>e \<in> set ?es. nft_ip_buf e \<noteq> empty_ip_buf"
    by (auto simp: fresh_def empty_ip_buf_def example_ip_neq)
  have t: "table_of ?es = ?es" by (simp add: table_of_def nft_arr_cap_def)
  have e: "entries ?es = ?es" using entries_table_of [OF ne] t by simp
  have ok: "table_ok ?es" using table_okI [OF _ d ne] t by (simp add: nft_arr_cap_def)
  have nc: "replicate 16 2 \<notin> clients ?es"
    unfolding clients_def e using example_ip_neq [of 2] by (auto simp: fresh_def eq_commute [of "replicate 16 2"])
  show ?thesis
    unfolding Let_def by (rule full_table_shares_last_entry [OF ok _ nc]) (simp only: e len)
qed

text \<open>
  Limits of 65535 and more are no limits: the counters have 16 bits and are compared with a
  32-bit limit, so no request of any client is ever counted as too many.
\<close>

theorem wide_limits_never_limit:
  assumes "65535 \<le> unat (conf_lim_page conf)" "65535 \<le> unat (conf_lim_res conf)"
  shows "fst (rate_check conf page e) = Serve"
proof -
  have "unat (c :: u16) \<le> 65535" for c using unsigned_less [of c, where 'a = nat] by simp
  then have "\<not> over_limit conf e'" for e'
    using assms by (auto simp: over_limit_unat not_less intro: order_trans)
  then show ?thesis by (simp add: rate_check_def Let_def)
qed

theorem wide_limits_never_limit_witness:
  "fst (rate_check (zero_conf\<lparr>conf_lim_page := 70000, conf_lim_res := 65535\<rparr>) True zero_nft) = Serve"
  by (rule wide_limits_never_limit) simp_all


end
