(* ===== verification/Https_Handler.thy ===== *)
theory Https_Handler
  imports File_Path Http_Request Http_Response Net_443 Rate_Limit
begin

text \<open>
  \<open>_fws_443_run\<close> of \<open>src/fws.c\<close>: the handler of an event on a TLS connection.  It sets the
  connection up, and then serves requests until it has to wait or the connection ends: read,
  parse, find the file, check the rate limit, answer.  What the handler asks of the outside
  world is a record, an argument of every definition.
\<close>

section \<open>The outside world\<close>

text \<open>
  \<open>env_ssl_new\<close>: \<open>SSL_new\<close> and \<open>SSL_set_fd\<close> succeed; \<open>env_ssl_accept\<close>: \<open>SSL_accept\<close>;
  \<open>env_ktls\<close>: kernel TLS is active for sending, and for receiving; \<open>env_time\<close>: \<open>gmtime\<close> of the
  current time, and its text in the log; \<open>env_ip_text\<close>: \<open>inet_ntop\<close>.
\<close>

record 'w env =
  env_tls :: "'w tls"
  env_ssl_new :: bool
  env_ssl_accept :: "'w \<Rightarrow> s32 \<times> 'w"
  env_ktls :: "bool \<times> bool"
  env_time :: "tm option"
  env_time_text :: string
  env_ip_text :: "u8 list \<Rightarrow> string"
  env_stat :: "string \<Rightarrow> s64 option"
  env_realpath :: "string \<Rightarrow> string option"
  env_open_stat :: "string \<Rightarrow> (s64 \<times> s64) option option"
  env_open_read :: "string \<Rightarrow> string option"

text \<open>What the handler works on: the connection, the table of the limiter, the messages written to
  the pipe of the parent, and the state of the TLS library.\<close>

record 'w fws_state =
  st_ctx :: fws_data_ctx
  st_nft_arr :: "fws_nft list"
  st_pipe :: "string list"
  st_log_flag :: u32
  st_http_req :: fws_http_req
  st_tls :: 'w

definition logSSL :: nat where "logSSL = 0"
definition logKTLS :: nat where "logKTLS = 1"
definition logRead :: nat where "logRead = 2"
definition logReqParse :: nat where "logReqParse = 3"
definition logErrSSL :: nat where "logErrSSL = 4"
definition logErrSyscall :: nat where "logErrSyscall = 5"

definition log_flag_set :: "nat \<Rightarrow> 'w fws_state \<Rightarrow> 'w fws_state" where
  "log_flag_set k st = st\<lparr>st_log_flag := st_log_flag st OR push_bit k 1\<rparr>"

definition with_ctx :: "'w fws_state \<Rightarrow> fws_data_ctx \<Rightarrow> 'w \<Rightarrow> 'w fws_state" where
  "with_ctx st c w = st\<lparr>st_ctx := c, st_tls := w\<rparr>"

section \<open>The file of a request\<close>

definition web_root_build :: "fws_conf \<Rightarrow> fws_http_req \<Rightarrow> cbuf option" where
  "web_root_build conf_p http_req = do {
     let web_root_buf = zbuf 256;
     let p = 0;
     n \<leftarrow> strnlen (conf_web_root conf_p) 0 (cap (conf_web_root conf_p));
     s \<leftarrow> rd_n (conf_web_root conf_p) 0 n;
     web_root_buf \<leftarrow> wr web_root_buf p s;
     let p = p + n;
     web_root_buf \<leftarrow> wr web_root_buf p [NUL];
     c \<leftarrow> rd (req_subdomain http_req) 0;
     if c \<noteq> NUL then do {
       web_root_buf \<leftarrow> wr web_root_buf p [CHR ''/''];
       let p = p + 1;
       k \<leftarrow> strnlen (req_subdomain http_req) 0 (cap (req_subdomain http_req));
       s \<leftarrow> rd_n (req_subdomain http_req) 0 k;
       web_root_buf \<leftarrow> wr web_root_buf p s;
       let p = p + k;
       wr web_root_buf p [NUL]
     } else Some web_root_buf
   }"

text \<open>
  The test for \<open>.html\<close> compares the six bytes from \<open>file.path + path_n - 5\<close> on.  For a path of
  fewer than five bytes (every answer but 0 leaves it empty) this starts before \<open>path\<close>, in the
  last bytes of \<open>uri_path_n\<close>, the field of \<open>struct fws_file\<close> before it (little endian).
\<close>

definition byte_before_path :: "fws_file \<Rightarrow> nat \<Rightarrow> char" where
  "byte_before_path file k = char_of ((file_uri_path_n file div 256 ^ (8 - k)) mod 256)"

definition is_html_path :: "fws_file \<Rightarrow> nat \<Rightarrow> bool option" where
  "is_html_path file path_n =
     (if 5 \<le> path_n then mem_eq (file_path file) (path_n - 5) (html_ext_str @ [NUL])
      else do {
        s \<leftarrow> rd_n (file_path file) 0 (path_n + 1);
        Some (map (byte_before_path file) (rev [1..<6 - path_n]) @ s = html_ext_str @ [NUL])
      })"

section \<open>One request\<close>

text \<open>A pass of the \<open>while\<close> loop ends the loop (\<open>goto out\<close> with a return code) or starts the next.\<close>

datatype 'w pass = Out s32 "'w fws_state" | Again "'w fws_state"

text \<open>The label \<open>write\<close>: the body of the file.\<close>

definition write_file :: "'w env \<Rightarrow> 'w fws_state \<Rightarrow> 'w pass option" where
  "write_file E st = do {
     let c = (st_ctx st)\<lparr>ctx_want_write := 0\<rparr>;
     path \<leftarrow> cstr (ctx_file_path c) 0;
     let (ret, c, w) = net_443_file_write (env_tls E) (env_open_read E) (st_tls st) c path;
     if ret = 1 then Some (Out 1 (with_ctx st (c\<lparr>ctx_want_write := 1\<rparr>) w))
     else Some (Again (with_ctx st c w))
   }"

text \<open>The message that asks the parent to ban the client; \<open>Some None\<close> when it does not fit.\<close>

definition ban_message :: "string \<Rightarrow> string option option" where
  "ban_message ip = do {
     s \<leftarrow> fmt ''%d%s'' [AInt 1, AStr ip];
     (nft_n, nft_buf) \<leftarrow> snprintf (zbuf 47) 0 46 s;
     if 47 \<le> nft_n then Some None
     else do {
       nft_buf \<leftarrow> wr nft_buf nft_n [NUL];
       m \<leftarrow> rd_n nft_buf 0 (nft_n + 1);
       Some (Some m)
     }
   }"

definition answer_error :: "'w env \<Rightarrow> 'w fws_state \<Rightarrow> s32 \<Rightarrow> (s32 \<times> 'w fws_state) option" where
  "answer_error E st code = do {
     (ret, c, w) \<leftarrow> net_443_err_write (env_tls E) (env_open_read E) (st_tls st) (st_ctx st) code;
     Some (if ret < 0 then -1 else ret, with_ctx st c w)
   }"

text \<open>The answer with status 0: header, and the body unless the client has it.\<close>

definition answer_file :: "'w env \<Rightarrow> 'w fws_state \<Rightarrow> tm \<Rightarrow> fws_file \<Rightarrow> 'w pass option" where
  "answer_file E st fws_time file = do {
     let conf_p = ctx_conf (st_ctx st);
     let http_req = st_http_req st;
     (res_ret, http_res) \<leftarrow> net_http_res_build (env_open_stat E) conf_p fws_time http_req
        (file_path file) (cap (file_path file));
     c \<leftarrow> rd (req_origin http_req) 0;
     http_res \<leftarrow> (if c \<noteq> NUL then do {
        self \<leftarrow> net_http_origin_self_check http_req conf_p;
        Some (http_res\<lparr>res_is_origin_self := self\<rparr>) } else Some http_res);
     let http_res =
       (if conf_use_hsts conf_p then http_res\<lparr>res_hsts_max_age := conf_hsts_max_age conf_p\<rparr> else http_res);
     (ret, c, w) \<leftarrow> net_443_res_write (env_tls E) (st_tls st) (st_ctx st) http_res (file_size file) http_req;
     let st = with_ctx st c w;
     if ret \<noteq> 0 then Some (Out (-1) st)
     else if res_ret = 304 then Some (Out 0 st)
     else write_file E st
   }"

text \<open>The rate limit, and the answer it leaves: refused, an error page, or the file.\<close>

definition answer_limited ::
  "'w env \<Rightarrow> 'w fws_state \<Rightarrow> tm \<Rightarrow> s32 \<Rightarrow> bool \<Rightarrow> fws_file \<Rightarrow> 'w pass option" where
  "answer_limited E st fws_time status_code is_html file =
     (case nft_request (ctx_conf (st_ctx st)) (ctx_client_ip_buf (st_ctx st))
         (is_html \<or> status_code \<noteq> 0) (st_nft_arr st) of (v, nft_arr) \<Rightarrow>
        let st = st\<lparr>st_nft_arr := nft_arr\<rparr> in
        case v of
          Refused ban \<Rightarrow> do {
            m \<leftarrow> (if ban then ban_message (env_ip_text E (ctx_client_ip_buf (st_ctx st))) else Some (Some []));
            case m of None \<Rightarrow> Some (Out (-1) st)
            | Some m \<Rightarrow> do {
                let st = (if ban then st\<lparr>st_pipe := st_pipe st @ [m]\<rparr> else st);
                (ret, st) \<leftarrow> answer_error E st 429;
                Some (Out ret st)
              }
          }
        | _ \<Rightarrow> do {
            let status_code = (if v = Limited then 429 else status_code);
            if status_code \<noteq> 0 then do {
              (ret, st) \<leftarrow> answer_error E st status_code;
              if ret < 0 then Some (Out (-1) st) else Some (Again st)
            } else answer_file E st fws_time file
          })"

text \<open>From the parsed request to its answer.\<close>

definition answer :: "'w env \<Rightarrow> 'w fws_state \<Rightarrow> tm \<Rightarrow> 'w pass option" where
  "answer E st fws_time = do {
     let conf_p = ctx_conf (st_ctx st);
     let http_req = st_http_req st;
     web_root \<leftarrow> web_root_build conf_p http_req;
     (status_code, file) \<leftarrow> file_parse (env_stat E) (env_realpath E) http_req web_root (cap web_root);
     if status_code = 301 then do {
       text \<leftarrow> path_redir_text http_req conf_p file;
       let (_, c, w) = net_443_write (env_tls E) (st_tls st) (st_ctx st) text;
       Some (Out (-1) (with_ctx st c w))
     } else if status_code < 0 then Some (Out (-1) st)
     else do {
       path_n \<leftarrow> strnlen (file_path file) 0 (cap (file_path file));
       if path_n = cap (file_path file) \<or> cap (file_path file) < path_n + 1 then Some (Out (-1) st)
       else do {
         is_html \<leftarrow> is_html_path file path_n;
         s \<leftarrow> rd_n (file_path file) 0 (path_n + 1);
         fp \<leftarrow> wr (ctx_file_path (st_ctx st)) 0 s;
         let st = st\<lparr>st_ctx := (st_ctx st)\<lparr>ctx_file_path := fp\<rparr>\<rparr>;
         answer_limited E st fws_time status_code is_html file
       }
     }
   }"

text \<open>One pass of the loop.\<close>

definition serve_one :: "'w env \<Rightarrow> tm \<Rightarrow> 'w fws_state \<Rightarrow> 'w pass option" where
  "serve_one E fws_time st =
     (if ctx_want_write (st_ctx st) = 1 then write_file E st
      else do {
        (ret, c, w) \<leftarrow> net_443_read (env_tls E) (st_tls st) (st_ctx st);
        let st = with_ctx st c w;
        if ret < 0 then
          Some (Out (-1) (log_flag_set logRead
            (st\<lparr>st_ctx := c\<lparr>ctx_want_write := 0, ctx_file_len := 0\<rparr>\<rparr>)))
        else if ret = 0 then Some (Out 1 st)
        else do {
          (ret, b, http_req) \<leftarrow> net_http_req_parse (ctx_req_buf c) (conf_domain (ctx_conf c))
             (cap (conf_domain (ctx_conf c)));
          let st = st\<lparr>st_ctx := c\<lparr>ctx_req_buf := b\<rparr>, st_http_req := http_req\<rparr>;
          if ret \<noteq> 0 then Some (Out (-1) (log_flag_set logReqParse st))
          else answer E st fws_time
        }
      })"

text \<open>At most \<open>n\<close> passes of the loop.\<close>

primrec serve :: "'w env \<Rightarrow> tm \<Rightarrow> nat \<Rightarrow> 'w fws_state \<Rightarrow> 'w pass option" where
  "serve E fws_time 0 st = Some (Again st)"
| "serve E fws_time (Suc n) st = do {
     p \<leftarrow> serve_one E fws_time st;
     case p of Out ret st \<Rightarrow> Some (Out ret st) | Again st \<Rightarrow> serve E fws_time n st
   }"

section \<open>The handler\<close>

text \<open>The label \<open>out\<close>: the log line, a message of type 2 for the parent.\<close>

definition log_line :: "string \<Rightarrow> string \<Rightarrow> u32 \<Rightarrow> fws_http_req \<Rightarrow> string option option" where
  "log_line ip time_text log_flag http_req = do {
     s \<leftarrow> fmt ''%d%s %s'' [AInt 2, AStr ip, AStr time_text];
     (log_acc, log_buf) \<leftarrow> snprintf (zbuf 1024) 0 1024 s;
     (log_acc, log_buf) \<leftarrow>
       (if 1023 < log_acc then Some (log_acc, log_buf)
        else do {
          version \<leftarrow> cstr (req_version http_req) 0;
          meth \<leftarrow> cstr (req_method http_req) 0;
          subdomain \<leftarrow> cstr (req_subdomain http_req) 0;
          uri \<leftarrow> cstr (req_uri http_req) 0;
          lang \<leftarrow> cstr (req_lang http_req) 0;
          os \<leftarrow> cstr (req_os http_req) 0;
          browser \<leftarrow> cstr (req_browser http_req) 0;
          t \<leftarrow> fmt (''%02u %s %s %s %s %s %s %s'' @ [LF])
             [AInt (uint log_flag), AStr version, AStr meth, AStr subdomain, AStr uri, AStr lang,
              AStr os, AStr browser];
          (n, log_buf) \<leftarrow> snprintf log_buf log_acc (1024 - log_acc) t;
          Some (log_acc + n, log_buf)
        });
     if 1023 < log_acc then Some None
     else do {
       log_buf \<leftarrow> wr log_buf log_acc [NUL];
       m \<leftarrow> rd_n log_buf 0 (log_acc + 1);
       Some (Some m)
     }
   }"

text \<open>The result of the handler: its return code, the state, and whether the connection is closed.\<close>

definition finish :: "'w env \<Rightarrow> s32 \<Rightarrow> 'w fws_state \<Rightarrow> (s32 \<times> 'w fws_state \<times> bool) option" where
  "finish E ret st = do {
     st \<leftarrow> (if ctx_ssl_status (st_ctx st) = SSL_STATUS_ACCEPT then do {
        m \<leftarrow> log_line (env_ip_text E (ctx_client_ip_buf (st_ctx st))) (env_time_text E)
               (st_log_flag st) (st_http_req st);
        Some (case m of None \<Rightarrow> st | Some m \<Rightarrow> st\<lparr>st_pipe := st_pipe st @ [m]\<rparr>)
      } else Some st);
     Some (ret, st, ret \<le> 0)
   }"

text \<open>
  The set-up of the connection: \<open>None\<close> to go on, or the return code and whether the handler returns
  at once (waiting for the handshake) instead of going to \<open>out\<close>.
\<close>

definition accept_tls :: "'w env \<Rightarrow> 'w fws_state \<Rightarrow> (s32 \<times> bool) option \<times> 'w fws_state" where
  "accept_tls E st =
     (if ctx_ssl_status (st_ctx st) = SSL_STATUS_NEW \<and> \<not> env_ssl_new E
        then (Some (-1, False), log_flag_set logSSL st)
      else if ctx_ssl_status (st_ctx st) \<noteq> SSL_STATUS_ACCEPT then
        (case env_ssl_accept E (st_tls st) of (ret, w) \<Rightarrow>
           let st = st\<lparr>st_tls := w\<rparr>; c = st_ctx st in
           if ret \<le> 0 then
             (let ssl_err = ssl_get_error (env_tls E) w ret in
              if ssl_err = SSL_ERROR_WANT_READ then
                (Some (2, True), st\<lparr>st_ctx := c\<lparr>ctx_ssl_status := SSL_STATUS_WANT_READ, ctx_events := EPOLLIN\<rparr>\<rparr>)
              else if ssl_err = SSL_ERROR_WANT_WRITE then
                (Some (3, True), st\<lparr>st_ctx := c\<lparr>ctx_ssl_status := SSL_STATUS_WANT_WRITE, ctx_events := EPOLLOUT\<rparr>\<rparr>)
              else
                (let st = log_flag_set logSSL st;
                     st = (if ssl_err = SSL_ERROR_SSL then log_flag_set logErrSSL st
                           else if ssl_err = SSL_ERROR_SYSCALL then log_flag_set logErrSyscall st else st)
                 in (Some (-1, False), st\<lparr>st_ctx := c\<lparr>ctx_ssl_status := SSL_STATUS_INIT\<rparr>\<rparr>)))
           else
             (None, st\<lparr>st_ctx := c\<lparr>ctx_ssl_status := SSL_STATUS_ACCEPT, ctx_events := EPOLLIN\<rparr>\<rparr>))
      else (None, st))"

definition ktls_flags :: "'w env \<Rightarrow> 'w fws_state \<Rightarrow> 'w fws_state" where
  "ktls_flags E st =
     (if conf_use_ktls (ctx_conf (st_ctx st)) then
        (let st = (if fst (env_ktls E) then st else log_flag_set logKTLS st)
         in if snd (env_ktls E) then st else log_flag_set logKTLS st)
      else st)"

text \<open>
  The handler, with at most \<open>n\<close> passes of its loop; \<open>Some None\<close> says that the loop is still
  running.  When \<open>gmtime\<close> fails the jump to \<open>out\<close> skips the initialisation of \<open>log_acc\<close>, which the
  log code of an accepted connection reads: undefined.
\<close>

definition fws_443_run ::
  "'w env \<Rightarrow> nat \<Rightarrow> 'w fws_state \<Rightarrow> (s32 \<times> 'w fws_state \<times> bool) option option" where
  "fws_443_run E n st =
     (let st = st\<lparr>st_log_flag := 0, st_http_req := zero_http_req\<rparr> in
      case env_time E of
        None \<Rightarrow>
          if ctx_ssl_status (st_ctx st) = SSL_STATUS_ACCEPT then None else map_option Some (finish E (-1) st)
      | Some fws_time \<Rightarrow>
          (case accept_tls E st of
             (Some (ret, True), st) \<Rightarrow> Some (Some (ret, st, False))
           | (Some (ret, False), st) \<Rightarrow> map_option Some (finish E ret st)
           | (None, st) \<Rightarrow> do {
               p \<leftarrow> serve E fws_time n (ktls_flags E st);
               case p of Again _ \<Rightarrow> Some None
               | Out ret st \<Rightarrow> map_option Some (finish E ret st)
             }))"

end
