(* ===== verification/Handler_Inv.thy ===== *)
theory Handler_Inv
  imports Https_Handler
begin

text \<open>
  What the handler of \<open>Https_Handler\<close> keeps and achieves, over any number of events: the invariant
  of a connection, the end of its loop, and that no file outside the web root is read.  One lemma
  per call of the handler says what the call leaves of the connection (\<open>_frame\<close>), that it keeps
  the invariant (\<open>_inv\<close>), what it consumes of the input (\<open>_ends\<close>) and which files it
  needs (\<open>_confined\<close>).
\<close>

section \<open>What the calls leave of the connection\<close>

text \<open>Writing changes the epoll registration of a connection, and the file transfer its offset.\<close>

lemma write_frame:
  assumes "net_443_write T w c s = (ret, c', w')" shows "\<exists>e. c' = c\<lparr>ctx_events := e\<rparr>"
  using assms by (auto simp: net_443_write_def Let_def split: prod.splits if_splits)

lemma res_write_frame:
  "pred_option (\<lambda>(ret, c', w'). \<exists>e. c' = c\<lparr>ctx_events := e\<rparr>) (net_443_res_write T w c r sz q)"
proof -
  have self: "\<exists>e. c = c\<lparr>ctx_events := e\<rparr>" by (rule exI [of _ "ctx_events c"]) simp
  show ?thesis
    unfolding net_443_res_write_def Let_def by (intro pred_rules) (auto dest!: write_frame intro: self)
qed

lemma err_write_frame:
  "pred_option (\<lambda>(ret, c', w'). ret \<le> 0 \<and> (\<exists>e. c' = c\<lparr>ctx_events := e\<rparr>)) (net_443_err_write T rd_file w c code)"
proof -
  have self: "\<exists>e. c = c\<lparr>ctx_events := e\<rparr>" by (rule exI [of _ "ctx_events c"]) simp
  show ?thesis
    unfolding net_443_err_write_def Let_def by (intro pred_rules) (auto dest!: write_frame intro: self)
qed

lemma file_loop_frame:
  assumes "file_loop T w c content off = (ret, c', w')"
  shows "ret \<in> {-1, 0, 1} \<and> (\<exists>e n. c' = c\<lparr>ctx_events := e, ctx_file_len := n\<rparr>)"
  using assms
proof (induction "length content - off" arbitrary: w c off rule: less_induct)
  case less
  let ?k = "take 4096 (drop off content)"
  show ?case
  proof (cases "?k = []")
    case True
    with less.prems show ?thesis
      by (subst (asm) file_loop.simps) (auto simp: Let_def intro!: exI [of _ "ctx_events c"])
  next
    case False
    obtain r c1 w1 where r: "net_443_write T w c ?k = (r, c1, w1)" by (cases "net_443_write T w c ?k")
    from write_frame [OF r] obtain e where e: "c1 = c\<lparr>ctx_events := e\<rparr>" by blast
    show ?thesis
    proof (cases "r = 0 \<or> r < 0")
      case True
      with less.prems False r e show ?thesis
        by (subst (asm) file_loop.simps) (auto simp: Let_def split: if_splits)
    next
      case go: False
      have "file_loop T w1 c1 content (off + length ?k) = (ret, c', w')"
        using less.prems False go r by (subst (asm) file_loop.simps) (simp add: Let_def split: if_splits)
      moreover have "length content - (off + length ?k) < length content - off" using False by simp
      ultimately show ?thesis using less.hyps e by fastforce
    qed
  qed
qed

lemma file_write_frame:
  assumes "net_443_file_write T rd_file w c p = (ret, c', w')"
  shows "ret \<in> {-1, 0, 1} \<and> (\<exists>e n. c' = c\<lparr>ctx_events := e, ctx_file_len := n\<rparr>)"
proof (cases "rd_file p")
  case None
  with assms show ?thesis
    by (auto simp: net_443_file_write_def intro!: exI [of _ "ctx_events c"] exI [of _ "ctx_file_len c"])
next
  case (Some content)
  with assms show ?thesis
    using file_loop_frame [of T w c content _ ret c' w']
    by (auto simp: net_443_file_write_def Let_def split: if_splits
        intro!: exI [of _ "ctx_events c"] exI [of _ "ctx_file_len c"])
qed

text \<open>Reading changes the buffer, the count of bytes and the registration.\<close>

definition same_conn :: "fws_data_ctx \<Rightarrow> fws_data_ctx \<Rightarrow> bool" where
  "same_conn c c' \<longleftrightarrow> ctx_conf c' = ctx_conf c \<and> ctx_file_path c' = ctx_file_path c \<and>
     ctx_want_write c' = ctx_want_write c \<and> ctx_ssl_status c' = ctx_ssl_status c \<and>
     ctx_client_ip_buf c' = ctx_client_ip_buf c \<and> ctx_file_len c' = ctx_file_len c"

lemma same_conn_trans: "same_conn a b \<Longrightarrow> same_conn b c \<Longrightarrow> same_conn a c"
  by (simp add: same_conn_def)

lemma read_loop_frame: "pred_option (\<lambda>(ret, e, c', w'). same_conn c c' \<and> ret \<le> 1) (read_loop T w c n)"
proof (induction "8191 - n" arbitrary: w c n rule: less_induct)
  case less
  obtain r d w1 where r: "ssl_read T w (8192 - n - 1) = (r, d, w1)" by (cases "ssl_read T w (8192 - n - 1)")
  have same: "same_conn c (c\<lparr>ctx_req_buf := b, ctx_acc_read_n := k\<rparr>)" "same_conn c (c\<lparr>ctx_req_buf := b\<rparr>)"
    "same_conn c (c\<lparr>ctx_events := ev, ctx_acc_read_n := k\<rparr>)" "same_conn c c" for b k ev
    by (simp_all add: same_conn_def)
  show ?case
  proof (cases "0 < r \<and> n + nat r < 8191")
    case True
    then have dec: "8191 - (n + nat r) < 8191 - n" by linarith
    have ind: "pred_option (\<lambda>(ret, e, c', w'). same_conn (c\<lparr>ctx_req_buf := b\<rparr>) c' \<and> ret \<le> 1)
        (read_loop T w1 (c\<lparr>ctx_req_buf := b\<rparr>) (n + nat r))" for b
      by (rule less.hyps [OF dec])
    have step: "pred_option (\<lambda>(ret, e, c', w'). same_conn c c' \<and> ret \<le> 1)
        (read_loop T w1 (c\<lparr>ctx_req_buf := b\<rparr>) (n + nat r))" for b
      using ind [of b]
      by (cases "read_loop T w1 (c\<lparr>ctx_req_buf := b\<rparr>) (n + nat r)") (auto simp: same_conn_def)
    show ?thesis
      using True r same by (subst read_loop.simps) (auto simp: Let_def intro!: pred_bind step)
  next
    case False
    with r same show ?thesis
      by (subst read_loop.simps) (auto simp: Let_def intro!: pred_bind)
  qed
qed

lemma read_frame: "pred_option (\<lambda>(ret, c', w'). same_conn c c' \<and> ret \<le> 1) (net_443_read T w c)"
  unfolding net_443_read_def Let_def
  by (rule pred_bindI [OF read_loop_frame]) (auto simp: same_conn_def)


lemma lower_loop_frame: "pred_option (\<lambda>b'. cap b' = cap b \<and> (wf_buf b \<longrightarrow> wf_buf b')) (lower_loop b i)"
proof (induction b i rule: lower_loop.induct)
  case (1 b i)
  show ?case
  proof (cases "strnlen b 0 8192")
    case None
    then show ?thesis by (subst lower_loop.simps) simp
  next
    case (Some n)
    show ?thesis
    proof (cases "i < n \<and> i < cap b")
      case False
      with Some show ?thesis by (subst lower_loop.simps) (simp add: rd_def)
    next
      case True
      then obtain b1 where b1: "wr b i [tolower (byte_at b i)] = Some b1"
        using wr_defined [of b i "[tolower (byte_at b i)]"] by auto
      from True Some have c: "rd b i = Some (byte_at b i)" by (simp add: rd_def)
      have "pred_option (\<lambda>b'. cap b' = cap b1 \<and> (wf_buf b1 \<longrightarrow> wf_buf b')) (lower_loop b1 (i + 1))"
        using 1 Some True c b1 by blast
      then show ?thesis
        using Some True c b1 wr_SomeD(2) [OF b1] wr_wf [OF b1] by (subst lower_loop.simps) (cases "lower_loop b1 (i + 1)"; simp)
    qed
  qed
qed

lemma parse_frame: "pred_option (\<lambda>(ret, b', q). cap b' = cap b \<and> (wf_buf b \<longrightarrow> wf_buf b')) (net_http_req_parse b d n)"
  unfolding net_http_req_parse_def Let_def
  by (intro pred_rules) (use lower_loop_frame [of b 0] in auto)

section \<open>The web root of a request\<close>

lemma strnlen_blk: "strnlen b p n = Some k \<Longrightarrow> k \<le> n \<and> NUL \<notin> set (blk b p k)"
proof (induction n arbitrary: p k)
  case (Suc n)
  then show ?case by (auto simp: Option.bind_eq_Some_conv blk_Suc rd_eq_Some split: if_splits)
qed simp

lemma strnlen_defined: "p + n \<le> cap b \<Longrightarrow> \<exists>k. strnlen b p n = Some k"
  by (induction n arbitrary: p) (auto simp: rd_def)

text \<open>A path is written piece by piece, each piece over the terminator of the one before.\<close>

lemma wr_pieces:
  "Option.bind (wr z 0 root) (\<lambda>b. Option.bind (wr b (length root) [NUL]) (\<lambda>b.
     Option.bind (wr b (length root) [c]) (\<lambda>b. Option.bind (wr b (Suc (length root)) t) (\<lambda>b.
       wr b (Suc (length root + length t)) [NUL])))) = wr z 0 (root @ c # t @ [NUL])"
proof -
  have 1: "Option.bind (wr b (Suc n) t) (\<lambda>b. wr b (Suc (n + length t)) [NUL]) = wr b (Suc n) (t @ [NUL])" for b n
    using wr_append [of b "Suc n" t "[NUL]"] by simp
  have 2: "Option.bind (wr b n [NUL]) (\<lambda>b. wr b n (c # t @ [NUL])) = wr b n (c # t @ [NUL])" for b n
    by (rule wr_overwrite) simp
  show ?thesis
    using wr_append [of z 0 root "c # t @ [NUL]"] by (simp add: 1 2 wr_Cons)
qed

lemma blk_subset: "set (blk b p k) \<subseteq> set (bytes b) \<union> {NUL}"
  by (auto simp: blk_def byte_at_def)

definition sub_root :: "string \<Rightarrow> string \<Rightarrow> string" where
  "sub_root root sub = root @ (if sub = [] then [] else CHR ''/'' # sub)"

lemma web_root_build_is:
  assumes root: "field_is (conf_web_root conf) 128 root" and q: "req_inv q"
  shows "\<exists>b sub. web_root_build conf q = Some b \<and> wf_buf b \<and> cap b = 256 \<and> CHR ''.'' \<notin> set sub \<and>
     cstr b 0 = Some (sub_root root sub)"
proof -
  note r = field_isD [OF root]
  let ?s = "req_subdomain q"
  have s: "wf_buf ?s" "cap ?s = 64" "CHR ''.'' \<notin> set (bytes ?s)" using q by (auto simp: req_inv_def wf_req_def)
  show ?thesis
  proof (cases "byte_at ?s 0 = NUL")
    case True
    have w: "wr (zbuf 256) 0 (root @ [NUL]) = Some (text_buf 256 root)" by (rule text_buf_start) (use r in simp)
    have "web_root_build conf q = Some (text_buf 256 root)"
      using r s True w wr_append [of "zbuf 256" 0 root "[NUL]"] by (simp add: web_root_build_def rd_def)
    moreover have "wf_buf (text_buf 256 root)" "cstr (text_buf 256 root) 0 = Some root"
      using r by (simp_all add: text_buf_cstr)
    ultimately show ?thesis by (intro exI [of _ "text_buf 256 root"] exI [of _ "[]"]) (simp add: sub_root_def)
  next
    case False
    obtain k where k: "strnlen ?s 0 64 = Some k" using strnlen_defined [of 0 64 ?s] s by auto
    let ?t = "blk ?s 0 k"
    note kk = strnlen_blk [OF k]
    have "k \<noteq> 0" using k False s(2) strnlen.simps(2) [of ?s 0 63] by (cases "strnlen ?s 1 63") (auto simp: rd_def)
    then have ne: "?t \<noteq> []" by (cases k) (simp_all add: blk_Suc)
    let ?x = "root @ CHR ''/'' # ?t"
    have w: "wr (zbuf 256) 0 (?x @ [NUL]) = Some (text_buf 256 ?x)" by (rule text_buf_start) (use r kk in simp)
    have "web_root_build conf q = Some (text_buf 256 ?x)"
    proof -
      have c: "rd ?s 0 = Some (byte_at ?s 0)" "rd_n ?s 0 k = Some ?t" using s(2) kk by (simp_all add: rd_def rd_n_def)
      note p = wr_pieces [of "zbuf 256" root "CHR ''/''" ?t]
      show ?thesis
        unfolding web_root_build_def Let_def r(5) s(2) r(1) r(2) k c Option.bind.bind_lunit
        using p w False by simp
    qed
    moreover have "wf_buf (text_buf 256 ?x)" "cstr (text_buf 256 ?x) 0 = Some ?x"
      using r kk by (simp_all add: text_buf_cstr)
    moreover have "CHR ''.'' \<notin> set ?t" using blk_subset [of ?s 0 k] s(3) by auto
    ultimately show ?thesis using ne by (intro exI [of _ "text_buf 256 ?x"] exI [of _ ?t]) (simp add: sub_root_def)
  qed
qed


section \<open>The invariant of a connection\<close>

text \<open>
  What the comparison of \<open>file_parse\<close> establishes of a canonical name: it begins with the bytes of the
  web root (and has no component \<open>..\<close>).  The name of a sibling, \<open>/srv/www-old\<close> for \<open>/srv/www\<close>, does so too.
\<close>

definition root_bytes :: "string \<Rightarrow> string \<Rightarrow> bool" where
  "root_bytes root p \<longleftrightarrow> prefix root p \<and> find_sub ''/../'' (p @ ''/'') = None"

text \<open>The web root itself, or a name in the directory of the web root.\<close>

definition in_root :: "string \<Rightarrow> string \<Rightarrow> bool" where
  "in_root root p \<longleftrightarrow> root_bytes root p \<and> (p = root \<or> prefix (root @ ''/'') p)"

text \<open>\<open>realpath\<close> gives absolute names without \<open>.\<close> and \<open>..\<close> components.\<close>

definition realpath_ok :: "(string \<Rightarrow> string option) \<Rightarrow> bool" where
  "realpath_ok rp \<longleftrightarrow> (\<forall>name r. rp name = Some r \<longrightarrow> NUL \<notin> set r \<and> find_sub ''/../'' (r @ ''/'') = None)"

text \<open>Nothing that exists beside the web root has a name that begins with the name of the web root.\<close>

definition no_sibling :: "string \<Rightarrow> (string \<Rightarrow> string option) \<Rightarrow> bool" where
  "no_sibling root rp \<longleftrightarrow> (\<forall>name r. rp name = Some r \<longrightarrow> prefix root r \<longrightarrow> r = root \<or> prefix (root @ ''/'') r)"

text \<open>Canonical names that begin with the bytes of the web root are in \<open>ok\<close>.\<close>

definition names_ok :: "(string \<Rightarrow> bool) \<Rightarrow> string \<Rightarrow> (string \<Rightarrow> string option) \<Rightarrow> bool" where
  "names_ok ok root rp \<longleftrightarrow> (\<forall>name r. rp name = Some r \<longrightarrow> NUL \<notin> set r \<and> (prefix root r \<longrightarrow> ok r))"

lemma names_ok_root: "realpath_ok rp \<Longrightarrow> names_ok (root_bytes root) root rp"
  by (simp add: names_ok_def realpath_ok_def root_bytes_def)

lemma names_in_root: "realpath_ok rp \<Longrightarrow> no_sibling root rp \<Longrightarrow> names_ok (in_root root) root rp"
  by (simp add: names_ok_def realpath_ok_def root_bytes_def in_root_def no_sibling_def)

text \<open>
  Between two events a connection is ready to read (\<open>rcv\<close> has arrived of the next request), its
  arrays have their sizes, and a transfer that waits is one of a file whose name is in \<open>ok\<close>; in the
  invariant itself, a name that begins with the bytes of the web root.
\<close>

definition conn_ok :: "(string \<Rightarrow> bool) \<Rightarrow> string \<Rightarrow> ssl_stat \<Rightarrow> fws_data_ctx \<Rightarrow> bool" where
  "conn_ok ok root s c \<longleftrightarrow> (\<exists>rcv. pending c rcv) \<and> wf_buf (ctx_file_path c) \<and> cap (ctx_file_path c) = 1024 \<and>
     field_is (conf_web_root (ctx_conf c)) 128 root \<and> ctx_ssl_status c = s \<and>
     (ctx_want_write c = 1 \<longrightarrow> (\<exists>p. cstr (ctx_file_path c) 0 = Some p \<and> ok p))"

definition conn_inv :: "string \<Rightarrow> ssl_stat \<Rightarrow> fws_data_ctx \<Rightarrow> bool" where
  "conn_inv root s c \<longleftrightarrow> conn_ok (root_bytes root) root s c"

lemma conn_ok_simps [simp]:
  "conn_ok ok root s (c\<lparr>ctx_events := e\<rparr>) = conn_ok ok root s c"
  "conn_ok ok root s (c\<lparr>ctx_file_len := n\<rparr>) = conn_ok ok root s c"
  "conn_ok ok root s (c\<lparr>ctx_events := e, ctx_want_write := k\<rparr>) = conn_ok ok root s (c\<lparr>ctx_want_write := k\<rparr>)"
  "conn_ok ok root s (c\<lparr>ctx_file_len := n, ctx_want_write := k\<rparr>) = conn_ok ok root s (c\<lparr>ctx_want_write := k\<rparr>)"
  by (simp_all add: conn_ok_def pending_def buf_has_def)

lemma conn_ok_status: "conn_ok ok root s c \<Longrightarrow> conn_ok ok root s' (c\<lparr>ctx_ssl_status := s'\<rparr>)"
  by (auto simp: conn_ok_def pending_def buf_has_def)

lemma conn_ok_want: "conn_ok ok root s (c\<lparr>ctx_want_write := 1\<rparr>) \<Longrightarrow> conn_ok ok root s (c\<lparr>ctx_want_write := k\<rparr>)"
  by (auto simp: conn_ok_def pending_def buf_has_def)

definition pass_inv :: "(string \<Rightarrow> bool) \<Rightarrow> string \<Rightarrow> ssl_stat \<Rightarrow> 'w pass \<Rightarrow> bool" where
  "pass_inv ok root s p \<longleftrightarrow> (case p of
     Out ret st \<Rightarrow> 0 < ret \<longrightarrow> ret = 1 \<and> conn_ok ok root s (st_ctx st)
   | Again st \<Rightarrow> conn_ok ok root s (st_ctx st))"

lemma pass_inv_simps [simp]:
  "pass_inv ok root s (Out ret st) = (0 < ret \<longrightarrow> ret = 1 \<and> conn_ok ok root s (st_ctx st))"
  "pass_inv ok root s (Again st) = conn_ok ok root s (st_ctx st)"
  by (simp_all add: pass_inv_def)

lemma with_ctx_simps [simp]: "st_ctx (with_ctx st c w) = c" "st_tls (with_ctx st c w) = w"
  "st_http_req (with_ctx st c w) = st_http_req st" "st_nft_arr (with_ctx st c w) = st_nft_arr st"
  "st_pipe (with_ctx st c w) = st_pipe st" "st_log_flag (with_ctx st c w) = st_log_flag st"
  by (simp_all add: with_ctx_def)

lemma write_file_inv:
  assumes "conn_ok ok root s ((st_ctx st)\<lparr>ctx_want_write := 1\<rparr>)"
  shows "pred_option (pass_inv ok root s) (write_file E st)"
proof -
  note i = assms conn_ok_want [OF assms, of 0]
  show ?thesis
    unfolding write_file_def Let_def
    by (intro pred_rules) (auto dest!: file_write_frame simp: i)
qed

lemma answer_error_inv:
  "pred_option (\<lambda>(ret, st'). ret \<le> 0 \<and> (\<exists>e w. st' = with_ctx st ((st_ctx st)\<lparr>ctx_events := e\<rparr>) w))
     (answer_error E st code)"
  unfolding answer_error_def
  by (rule pred_bindI [OF err_write_frame]) (auto; blast)

lemma answered_file:
  assumes "names_ok ok root (env_realpath E)" "wf_buf b" "cstr b 0 = Some (sub_root root sub)"
    and "file_parse (env_stat E) (env_realpath E) q b n = Some (0, f)"
  shows "\<exists>p. field_is (file_path f) 4096 p \<and> ok p"
proof -
  have "pred_option (\<lambda>(c, f). c = 0 \<longrightarrow> (\<exists>name r. env_stat E name = Some (file_size f) \<and>
      env_realpath E name = Some r \<and> cstr (file_path f) 0 = Some r \<and> prefix (sub_root root sub) r \<and>
      wf_buf (file_path f) \<and> cap (file_path f) = 4096)) (file_parse (env_stat E) (env_realpath E) q b n)"
    by (rule file_parse_serves [OF assms(2,3)]) (use assms(1) in \<open>auto simp: names_ok_def\<close>)
  with assms(4) obtain name r where r: "env_realpath E name = Some r" "cstr (file_path f) 0 = Some r"
    "prefix (sub_root root sub) r" "wf_buf (file_path f)" "cap (file_path f) = 4096" by auto
  moreover have "prefix root (sub_root root sub)" by (simp add: sub_root_def)
  ultimately have "prefix root r" by (metis prefix_order.trans)
  with r assms(1) show ?thesis by (auto simp: field_is_def names_ok_def)
qed


lemma answer_file_inv:
  assumes "conn_ok ok root s ((st_ctx st)\<lparr>ctx_want_write := 1\<rparr>)"
  shows "pred_option (pass_inv ok root s) (answer_file E st tm f)"
  unfolding answer_file_def Let_def
  apply (intro pred_rules)
         apply simp_all
  apply (rule write_file_inv)
  using assms by (auto dest!: pred_SomeD [OF res_write_frame])

lemma conn_ok_path:
  assumes "conn_ok ok root s c" "wr (ctx_file_path c) 0 x = Some fp"
  shows "ctx_want_write c \<noteq> 1 \<Longrightarrow> conn_ok ok root s (c\<lparr>ctx_file_path := fp\<rparr>)"
    and "x = p @ [NUL] \<Longrightarrow> NUL \<notin> set p \<Longrightarrow> ok p \<Longrightarrow>
      conn_ok ok root s (c\<lparr>ctx_file_path := fp, ctx_want_write := 1\<rparr>)"
proof -
  have "wf_buf fp" "cap fp = 1024" using assms wr_wf wr_SomeD(2) by (fastforce simp: conn_ok_def)+
  then show "ctx_want_write c \<noteq> 1 \<Longrightarrow> conn_ok ok root s (c\<lparr>ctx_file_path := fp\<rparr>)"
    "x = p @ [NUL] \<Longrightarrow> NUL \<notin> set p \<Longrightarrow> ok p \<Longrightarrow>
      conn_ok ok root s (c\<lparr>ctx_file_path := fp, ctx_want_write := 1\<rparr>)"
    using assms cstr_wr [of "ctx_file_path c" 0 p fp]
    by (auto simp: conn_ok_def pending_def buf_has_def)
qed

lemma answer_limited_inv:
  assumes i: "conn_ok ok root s (st_ctx st)" and "code = 0 \<longrightarrow> conn_ok ok root s ((st_ctx st)\<lparr>ctx_want_write := 1\<rparr>)"
  shows "pred_option (pass_inv ok root s) (answer_limited E st tm code is_html f)"
  unfolding answer_limited_def Let_def
  apply (intro pred_rules)
  apply (split verdict.split)
  apply (intro conjI allI impI pred_rules)
  apply (auto dest!: pred_SomeD [OF answer_error_inv] intro!: answer_file_inv simp: assms split: if_splits)
  done

text \<open>The path \<open>answer\<close> stores in the connection: one in \<open>ok\<close> whenever a file is to be sent.\<close>

lemma answer_path:
  assumes E: "names_ok ok root (env_realpath E)" and i: "conn_ok ok root s c" "ctx_want_write c \<noteq> 1" and q: "req_inv q"
    and b: "web_root_build (ctx_conf c) q = Some b"
    and f: "file_parse (env_stat E) (env_realpath E) q b (cap b) = Some (code, f)"
    and n: "strnlen (file_path f) 0 (cap (file_path f)) = Some n" and x: "rd_n (file_path f) 0 (n + 1) = Some x"
    and fp: "wr (ctx_file_path c) 0 x = Some fp"
  shows "conn_ok ok root s (c\<lparr>ctx_file_path := fp\<rparr>)"
    and "code = 0 \<longrightarrow> conn_ok ok root s (c\<lparr>ctx_file_path := fp, ctx_want_write := 1\<rparr>) \<and>
      (\<exists>p. cstr (file_path f) 0 = Some p \<and> ok p)"
proof -
  show "conn_ok ok root s (c\<lparr>ctx_file_path := fp\<rparr>)" by (rule conn_ok_path(1) [OF i(1) fp i(2)])
  have root: "field_is (conf_web_root (ctx_conf c)) 128 root" using i by (simp add: conn_ok_def)
  from web_root_build_is [OF root q] b obtain sub where b: "wf_buf b" "cstr b 0 = Some (sub_root root sub)" by auto
  show "code = 0 \<longrightarrow> conn_ok ok root s (c\<lparr>ctx_file_path := fp, ctx_want_write := 1\<rparr>) \<and>
      (\<exists>p. cstr (file_path f) 0 = Some p \<and> ok p)"
  proof
    assume "code = 0"
    with answered_file [OF E b] f obtain p where p: "field_is (file_path f) 4096 p" "ok p" by blast
    note fd = field_isD [OF p(1)]
    have "n = length p" using n fd(1,5) by simp
    moreover have "holds (file_path f) 0 (p @ [NUL])" using p(1) cstr_iff [of "file_path f" 0 p] by (auto simp: field_is_def)
    ultimately have "x = p @ [NUL]" using x holds_rd_n [of "file_path f" 0 "p @ [NUL]" "length p + 1"] by simp
    then show "conn_ok ok root s (c\<lparr>ctx_file_path := fp, ctx_want_write := 1\<rparr>) \<and>
        (\<exists>p. cstr (file_path f) 0 = Some p \<and> ok p)"
      using conn_ok_path(2) [OF i(1) fp _ fd(4) p(2)] p by (auto simp: field_is_def)
  qed
qed

lemma answer_inv:
  assumes E: "names_ok ok root (env_realpath E)" and i: "conn_ok ok root s (st_ctx st)" "ctx_want_write (st_ctx st) \<noteq> 1"
    and q: "req_inv (st_http_req st)"
  shows "pred_option (pass_inv ok root s) (answer E st tm)"
proof -
  note path = answer_path [OF E i q]
  show ?thesis
    unfolding answer_def Let_def
    by (intro pred_rules) (simp_all add: answer_limited_inv path)
qed

text \<open>The buffer may be rewritten between requests: nothing of the next one has arrived.\<close>

lemma conn_ok_parsed:
  assumes "read_leaves 1 c rcv" "cap b = cap (ctx_req_buf c)" "wf_buf (ctx_req_buf c) \<longrightarrow> wf_buf b"
    and "same_conn c0 c" "conn_ok ok root s c0"
  shows "conn_ok ok root s (c\<lparr>ctx_req_buf := b\<rparr>)"
proof -
  have "pending (c\<lparr>ctx_req_buf := b\<rparr>) []"
    using assms(1-3) by (auto simp: read_leaves_def pending_def buf_has_def crlf2_def)
  with assms(4,5) show ?thesis by (auto simp: conn_ok_def same_conn_def)
qed

lemma parsed_conn:
  assumes "read_leaves 1 c rcv" "same_conn c0 c" "conn_ok ok root s c0" "ctx_want_write c0 \<noteq> 1"
    and p: "net_http_req_parse (ctx_req_buf c) d n = Some (k, b, q)"
  shows "conn_ok ok root s (c\<lparr>ctx_req_buf := b\<rparr>)" "ctx_want_write (c\<lparr>ctx_req_buf := b\<rparr>) \<noteq> 1" "req_inv q"
  using conn_ok_parsed [OF assms(1) _ _ assms(2,3)] assms(2,4) pred_SomeD [OF parse_frame p]
    pred_SomeD [OF net_http_req_parse_inv p]
  by (auto simp: same_conn_def)

lemma conn_ok_waits:
  assumes "read_leaves 0 c rcv" "same_conn c0 c" "conn_ok ok root s c0"
  shows "conn_ok ok root s c"
  using assms by (auto simp: conn_ok_def same_conn_def read_leaves_def)

lemma read_inv:
  assumes "tls_ok T got sent" "conn_ok ok root s c"
  obtains ret c' w' rcv where "net_443_read T w c = Some (ret, c', w')" "same_conn c c'" "read_leaves ret c' rcv"
proof -
  obtain rcv where "pending c rcv" using assms(2) by (auto simp: conn_ok_def)
  from net_443_read_is [OF assms(1) this, of w] obtain ret c' w' d where
    r: "net_443_read T w c = Some (ret, c', w')" "read_leaves ret c' (rcv @ d)" by blast
  with read_frame [of c T w] that show ?thesis by auto
qed

lemma serve_one_inv:
  assumes T: "tls_ok (env_tls E) got sent" and E: "names_ok ok root (env_realpath E)" and i: "conn_ok ok root s (st_ctx st)"
  shows "pred_option (pass_inv ok root s) (serve_one E tm st)"
proof (cases "ctx_want_write (st_ctx st) = 1")
  case True
  then have "conn_ok ok root s ((st_ctx st)\<lparr>ctx_want_write := 1\<rparr>)"
    using i by (auto simp: conn_ok_def pending_def buf_has_def)
  then show ?thesis using True write_file_inv [of ok root s st E] by (simp add: serve_one_def)
next
  case False
  obtain ret c w rcv where r: "net_443_read (env_tls E) (st_tls st) (st_ctx st) = Some (ret, c, w)"
    and same: "same_conn (st_ctx st) c" and rr: "read_leaves ret c rcv"
    using read_inv [OF T i] by metis
  have ret: "ret \<in> {1, 0} \<or> ret < 0" using rr by (auto simp: read_leaves_def)
  have ans: "pred_option (pass_inv ok root s) (answer E ((with_ctx st c w)\<lparr>st_ctx := c\<lparr>ctx_req_buf := b\<rparr>, st_http_req := q\<rparr>) tm)"
    if "ret = 1" and p: "net_http_req_parse (ctx_req_buf c) d n = Some (k, b, q)" for d n k b q
    using parsed_conn [OF _ same i False p] rr that(1) by (auto intro!: answer_inv [OF E])
  consider "ret = 1" | "ret = 0" | "ret < 0" using ret by auto
  then show ?thesis
  proof cases
    case 1
    then show ?thesis
      unfolding serve_one_def Let_def r Option.bind.bind_lunit prod.case using False
      by (simp, intro pred_rules) (simp_all add: ans)
  next
    case 2
    with rr conn_ok_waits [OF _ same i] show ?thesis
      unfolding serve_one_def Let_def r Option.bind.bind_lunit prod.case using False by auto
  next
    case 3
    then show ?thesis
      unfolding serve_one_def Let_def r Option.bind.bind_lunit prod.case using False by simp
  qed
qed

lemma serve_inv:
  assumes "tls_ok (env_tls E) got sent" "names_ok ok root (env_realpath E)"
  shows "conn_ok ok root s (st_ctx st) \<Longrightarrow> pred_option (pass_inv ok root s) (serve E tm n st)"
proof (induction n arbitrary: st)
  case (Suc n)
  show ?case
    unfolding serve.simps
    by (rule pred_bindI [OF serve_one_inv [OF assms Suc.prems]])
      (auto simp: Suc.IH split: pass.split)
qed simp


section \<open>The loop ends\<close>

text \<open>
  \<open>inp w\<close> bytes are still to come from the peer: every successful read takes at least one, and
  nothing adds any.
\<close>

definition finite_peer :: "'w env \<Rightarrow> ('w \<Rightarrow> nat) \<Rightarrow> bool" where
  "finite_peer E inp \<longleftrightarrow>
     (\<forall>w n r d w'. ssl_read (env_tls E) w n = (r, d, w') \<longrightarrow> (if 0 < r then inp w' < inp w else inp w' \<le> inp w)) \<and>
     (\<forall>w s r w'. ssl_write (env_tls E) w s = (r, w') \<longrightarrow> inp w' \<le> inp w) \<and>
     (\<forall>w r w'. env_ssl_accept E w = (r, w') \<longrightarrow> inp w' \<le> inp w)"

lemma finite_write:
  assumes "finite_peer E inp" "net_443_write (env_tls E) w c x = (ret, c', w')" shows "inp w' \<le> inp w"
  using assms by (auto simp: finite_peer_def net_443_write_def Let_def split: prod.splits if_splits)

lemma finite_file_loop:
  assumes F: "finite_peer E inp" and "file_loop (env_tls E) w c content off = (ret, c', w')"
  shows "inp w' \<le> inp w"
  using assms(2)
proof (induction "length content - off" arbitrary: w c off rule: less_induct)
  case less
  let ?k = "take 4096 (drop off content)"
  obtain r c1 w1 where r: "net_443_write (env_tls E) w c ?k = (r, c1, w1)" by (cases "net_443_write (env_tls E) w c ?k")
  note f = finite_write [OF F r]
  show ?case
  proof (cases "?k = [] \<or> r \<le> 0")
    case True
    with less.prems r f show ?thesis by (subst (asm) file_loop.simps) (auto simp: Let_def split: if_splits)
  next
    case False
    then have "file_loop (env_tls E) w1 c1 content (off + length ?k) = (ret, c', w')"
      using less.prems r by (subst (asm) file_loop.simps) (simp add: Let_def split: if_splits)
    moreover have "length content - (off + length ?k) < length content - off"
      unfolding length_take length_drop using False by (simp add: min_def, linarith)
    ultimately show ?thesis using less.hyps f by (meson order_trans)
  qed
qed

lemma finite_file_write:
  assumes F: "finite_peer E inp" and "net_443_file_write (env_tls E) rd_file w c p = (ret, c', w')"
  shows "inp w' \<le> inp w \<and> ctx_want_write c' = ctx_want_write c"
  using assms(2) finite_file_loop [OF F] file_write_frame [OF assms(2)]
  by (auto simp: net_443_file_write_def Let_def split: option.splits if_splits)

lemma finite_res_write:
  assumes F: "finite_peer E inp"
  shows "pred_option (\<lambda>(ret, c', w'). inp w' \<le> inp w) (net_443_res_write (env_tls E) w c r sz q)"
  unfolding net_443_res_write_def Let_def by (intro pred_rules) (auto dest!: finite_write [OF F])

lemma finite_err_write:
  assumes F: "finite_peer E inp"
  shows "pred_option (\<lambda>(ret, c', w'). inp w' \<le> inp w) (net_443_err_write (env_tls E) rd_file w c code)"
  unfolding net_443_err_write_def Let_def
  by (intro pred_rules) (auto dest!: finite_write [OF F] intro: order_trans)

lemma finite_read_loop:
  assumes F: "finite_peer E inp"
  shows "pred_option (\<lambda>(ret, e, c', w'). (ret = 1 \<longrightarrow> inp w' < inp w) \<and> inp w' \<le> inp w)
     (read_loop (env_tls E) w c n)"
proof (induction "8191 - n" arbitrary: w c n rule: less_induct)
  case less
  obtain r d w1 where r: "ssl_read (env_tls E) w (8192 - n - 1) = (r, d, w1)"
    by (cases "ssl_read (env_tls E) w (8192 - n - 1)")
  then have f: "if 0 < r then inp w1 < inp w else inp w1 \<le> inp w" using F unfolding finite_peer_def by blast
  show ?case
  proof (cases "0 < r \<and> n + nat r < 8191")
    case True
    then have dec: "8191 - (n + nat r) < 8191 - n" by linarith
    have ind: "pred_option (\<lambda>(ret, e, c', w'). (ret = 1 \<longrightarrow> inp w' < inp w1) \<and> inp w' \<le> inp w1)
        (read_loop (env_tls E) w1 (c\<lparr>ctx_req_buf := b\<rparr>) (n + nat r))" for b
      by (rule less.hyps [OF dec])
    have step: "pred_option (\<lambda>(ret, e, c', w'). (ret = 1 \<longrightarrow> inp w' < inp w) \<and> inp w' \<le> inp w)
        (read_loop (env_tls E) w1 (c\<lparr>ctx_req_buf := b\<rparr>) (n + nat r))" for b
      using ind [of b] f True
      by (cases "read_loop (env_tls E) w1 (c\<lparr>ctx_req_buf := b\<rparr>) (n + nat r)") (auto split: if_splits)
    show ?thesis
      using True r f by (subst read_loop.simps) (auto simp: Let_def intro!: pred_bind step)
  next
    case False
    with r f show ?thesis
      by (subst read_loop.simps) (auto simp: Let_def intro!: pred_bind)
  qed
qed

lemma finite_read:
  assumes F: "finite_peer E inp"
  shows "pred_option (\<lambda>(ret, c', w'). (ret = 1 \<longrightarrow> inp w' < inp w) \<and> inp w' \<le> inp w)
     (net_443_read (env_tls E) w c)"
  unfolding net_443_read_def Let_def by (rule pred_bindI [OF finite_read_loop [OF F]]) auto

text \<open>What bounds the passes left: the bytes to come, and the transfer that waits.\<close>

definition passes_left :: "('w \<Rightarrow> nat) \<Rightarrow> 'w fws_state \<Rightarrow> nat" where
  "passes_left inp st = inp (st_tls st) + (if ctx_want_write (st_ctx st) = 1 then 1 else 0)"

definition pass_ends :: "('w \<Rightarrow> nat) \<Rightarrow> nat \<Rightarrow> 'w pass \<Rightarrow> bool" where
  "pass_ends inp k p \<longleftrightarrow> (case p of Out ret st \<Rightarrow> True
     | Again st \<Rightarrow> inp (st_tls st) \<le> k \<and> ctx_want_write (st_ctx st) \<noteq> 1)"

lemma pass_ends_simps [simp]: "pass_ends inp k (Out ret st)"
  "pass_ends inp k (Again st) = (inp (st_tls st) \<le> k \<and> ctx_want_write (st_ctx st) \<noteq> 1)"
  by (simp_all add: pass_ends_def)

lemma write_file_ends:
  assumes F: "finite_peer E inp" and "inp (st_tls st) \<le> k"
  shows "pred_option (pass_ends inp k) (write_file E st)"
  unfolding write_file_def Let_def
  using assms(2) by (intro pred_rules) (auto dest!: finite_file_write [OF F])

lemma answer_error_ends:
  assumes F: "finite_peer E inp"
  shows "pred_option (\<lambda>(ret, st'). inp (st_tls st') \<le> inp (st_tls st) \<and>
     ctx_want_write (st_ctx st') = ctx_want_write (st_ctx st)) (answer_error E st code)"
  unfolding answer_error_def
  by (intro pred_rules) (auto dest: pred_SomeD [OF finite_err_write [OF F]] pred_SomeD [OF err_write_frame])

lemma answer_file_ends:
  assumes F: "finite_peer E inp" and "inp (st_tls st) \<le> k"
  shows "pred_option (pass_ends inp k) (answer_file E st tm f)"
  unfolding answer_file_def Let_def
  apply (intro pred_rules)
         apply simp_all
  apply (rule write_file_ends [OF F])
  using assms by (auto dest!: pred_SomeD [OF finite_res_write [OF F]])

lemma answer_limited_ends:
  assumes F: "finite_peer E inp" and "inp (st_tls st) \<le> k" "ctx_want_write (st_ctx st) \<noteq> 1"
  shows "pred_option (pass_ends inp k) (answer_limited E st tm code is_html f)"
  unfolding answer_limited_def Let_def
  apply (intro pred_rules)
  apply (split verdict.split)
  apply (intro conjI allI impI pred_rules)
  apply (use assms(2,3) in \<open>auto dest!: pred_SomeD [OF answer_error_ends [OF F]]
      intro!: answer_file_ends [OF F] split: if_splits\<close>)
  done

lemma answer_ends:
  assumes F: "finite_peer E inp" and "inp (st_tls st) \<le> k" "ctx_want_write (st_ctx st) \<noteq> 1"
  shows "pred_option (pass_ends inp k) (answer E st tm)"
  unfolding answer_def Let_def
  by (intro pred_rules) (use assms(2,3) in \<open>simp_all add: answer_limited_ends [OF F]\<close>)


lemma serve_one_ends:
  assumes F: "finite_peer E inp"
  shows "pred_option (\<lambda>p. case p of Out ret st' \<Rightarrow> True | Again st' \<Rightarrow> passes_left inp st' < passes_left inp st)
     (serve_one E tm st)"
proof (cases "ctx_want_write (st_ctx st) = 1")
  case True
  then show ?thesis
    using write_file_ends [OF F, of st "inp (st_tls st)"]
    by (cases "write_file E st") (auto simp: serve_one_def pass_ends_def passes_left_def split: pass.splits)
next
  case False
  have a: "pred_option (\<lambda>p. case p of Out ret st' \<Rightarrow> True | Again st' \<Rightarrow> passes_left inp st' < passes_left inp st)
      (answer E st1 tm)"
    if "inp (st_tls st1) < inp (st_tls st)" "ctx_want_write (st_ctx st1) \<noteq> 1" for st1
    using answer_ends [OF F, of st1 "inp (st_tls st1)" tm] that False
    by (cases "answer E st1 tm") (auto simp: pass_ends_def passes_left_def split: pass.splits)
  show ?thesis
  proof (cases "net_443_read (env_tls E) (st_tls st) (st_ctx st)")
    case None
    with False show ?thesis by (simp add: serve_one_def)
  next
    case (Some r)
    obtain ret c w where r: "net_443_read (env_tls E) (st_tls st) (st_ctx st) = Some (ret, c, w)"
      using Some by (cases r) auto
    have f: "ret = 1 \<longrightarrow> inp w < inp (st_tls st)" "same_conn (st_ctx st) c" "ret \<le> 1"
      using pred_SomeD [OF finite_read [OF F] r] pred_SomeD [OF read_frame r] by auto
    show ?thesis
      unfolding serve_one_def Let_def r Option.bind.bind_lunit prod.case
      by (simp add: False, intro conjI impI pred_rules) (use f False in \<open>auto simp: same_conn_def intro!: a\<close>)
  qed
qed

lemma serve_ends:
  assumes F: "finite_peer E inp"
  shows "passes_left inp st < n \<Longrightarrow> serve E tm n st \<noteq> Some (Again st')"
proof (induction n arbitrary: st)
  case (Suc n)
  show ?case
  proof (cases "serve_one E tm st")
    case (Some p)
    with Suc serve_one_ends [OF F, of st tm] show ?thesis by (cases p) auto
  qed simp
qed simp

text \<open>More passes than the loop needs do not change its result.\<close>

lemma serve_more: "serve E tm n st = Some (Out ret st') \<Longrightarrow> serve E tm (n + k) st = Some (Out ret st')"
proof (induction n arbitrary: st)
  case (Suc n)
  then obtain p where p: "serve_one E tm st = Some p" by (auto simp: Option.bind_eq_Some_conv)
  with Suc show ?case by (cases p) auto
qed simp

lemma serve_more_None: "serve E tm n st = None \<Longrightarrow> serve E tm (n + k) st = None"
proof (induction n arbitrary: st)
  case (Suc n)
  show ?case
  proof (cases "serve_one E tm st")
    case (Some p)
    with Suc show ?thesis by (cases p) auto
  qed simp
qed simp

lemma serve_fuel:
  assumes F: "finite_peer E inp" and "passes_left inp st < m" "m \<le> n"
  shows "serve E tm n st = serve E tm m st"
proof -
  obtain k where n: "n = m + k" using assms(3) le_iff_add by blast
  show ?thesis
  proof (cases "serve E tm m st")
    case None
    with serve_more_None n show ?thesis by metis
  next
    case (Some p)
    with serve_ends [OF F assms(2), of tm] serve_more [of E tm m st _ _ k] n show ?thesis by (cases p) auto
  qed
qed

lemma accept_tls_frame:
  "finite_peer E inp \<Longrightarrow> accept_tls E st = (r, st') \<Longrightarrow>
     inp (st_tls st') \<le> inp (st_tls st) \<and> ctx_want_write (st_ctx st') = ctx_want_write (st_ctx st)"
  unfolding accept_tls_def finite_peer_def
  by (auto simp: Let_def log_flag_set_def split: prod.splits if_splits)

lemma ktls_flags_frame [simp]: "st_ctx (ktls_flags E st) = st_ctx st" "st_tls (ktls_flags E st) = st_tls st"
  by (simp_all add: ktls_flags_def log_flag_set_def Let_def)

lemma handler_fuel:
  assumes F: "finite_peer E inp" and "passes_left inp st < n"
  shows "fws_443_run E n st = fws_443_run E (Suc (passes_left inp st)) st \<and> fws_443_run E n st \<noteq> Some None"
proof -
  let ?st = "st\<lparr>st_log_flag := 0, st_http_req := zero_http_req\<rparr>"
  obtain r st1 where a: "accept_tls E ?st = (r, st1)" by (cases "accept_tls E ?st")
  have le: "passes_left inp (ktls_flags E st1) \<le> passes_left inp st"
    using accept_tls_frame [OF F a] by (simp add: passes_left_def)
  let ?m = "Suc (passes_left inp st)"
  have s: "serve E tm n (ktls_flags E st1) = serve E tm ?m (ktls_flags E st1)"
    "serve E tm n (ktls_flags E st1) \<noteq> Some (Again st')" for tm st'
    using serve_fuel [OF F, of "ktls_flags E st1" ?m n tm] serve_ends [OF F, of "ktls_flags E st1" n tm st'] le assms(2)
    by simp_all
  show ?thesis
    unfolding fws_443_run_def Let_def a
    using s by (auto simp: Option.bind_eq_Some_conv simp del: serve.simps split: option.splits pass.splits bool.splits)
qed


section \<open>Files outside the web root\<close>

text \<open>The files that can be opened, with every one gone that is neither in \<open>ok\<close> nor the error page.\<close>

definition confine :: "(string \<Rightarrow> bool) \<Rightarrow> 'w env \<Rightarrow> 'w env" where
  "confine ok E = E\<lparr>
     env_open_stat := (\<lambda>p. if ok p then env_open_stat E p else None),
     env_open_read := (\<lambda>p. if ok p \<or> p = err_page_path then env_open_read E p else None)\<rparr>"

lemma confine_simps [simp]:
  "env_tls (confine ok E) = env_tls E" "env_ssl_new (confine ok E) = env_ssl_new E"
  "env_ssl_accept (confine ok E) = env_ssl_accept E" "env_ktls (confine ok E) = env_ktls E"
  "env_time (confine ok E) = env_time E" "env_time_text (confine ok E) = env_time_text E"
  "env_ip_text (confine ok E) = env_ip_text E" "env_stat (confine ok E) = env_stat E"
  "env_realpath (confine ok E) = env_realpath E"
  "ok p \<Longrightarrow> env_open_stat (confine ok E) p = env_open_stat E p"
  "ok p \<Longrightarrow> env_open_read (confine ok E) p = env_open_read E p"
  "env_open_read (confine ok E) err_page_path = env_open_read E err_page_path"
  by (simp_all add: confine_def)

lemma file_write_confined:
  "rd_file p = rd_file' p \<Longrightarrow> net_443_file_write T rd_file w c p = net_443_file_write T rd_file' w c p"
  by (simp add: net_443_file_write_def)

lemma write_file_confined:
  assumes "conn_ok ok root s ((st_ctx st)\<lparr>ctx_want_write := 1\<rparr>)"
  shows "write_file (confine ok E) st = write_file E st"
proof -
  obtain p where p: "cstr (ctx_file_path (st_ctx st)) 0 = Some p" "ok p"
    using assms by (auto simp: conn_ok_def)
  have "net_443_file_write (env_tls E) (env_open_read (confine ok E)) w c p =
      net_443_file_write (env_tls E) (env_open_read E) w c p" for w c
    by (rule file_write_confined) (simp add: p(2))
  with p(1) show ?thesis by (simp add: write_file_def Let_def)
qed

lemma answer_error_confined: "answer_error (confine ok E) st code = answer_error E st code"
  by (simp add: answer_error_def net_443_err_write_def)

lemma res_build_confined:
  assumes "cstr path 0 = Some p" "ok p"
  shows "net_http_res_build (env_open_stat (confine ok E)) c tm q path n =
    net_http_res_build (env_open_stat E) c tm q path n"
proof -
  have "get_etag (env_open_stat (confine ok E)) dst src path = get_etag (env_open_stat E) dst src path" for dst src
    using assms by (simp add: get_etag_def cong: if_cong)
  then show ?thesis by (simp add: net_http_res_build_def)
qed

lemma answer_file_confined:
  assumes "conn_ok ok root s ((st_ctx st)\<lparr>ctx_want_write := 1\<rparr>)" "cstr (file_path f) 0 = Some p" "ok p"
  shows "answer_file (confine ok E) st tm f = answer_file E st tm f"
proof -
  have w: "write_file (confine ok E) (with_ctx st c w) = write_file E (with_ctx st c w)"
    if "net_443_res_write (env_tls E) (st_tls st) (st_ctx st) r sz q = Some (ret, c, w)" for r sz q ret c w
    by (rule write_file_confined) (use pred_SomeD [OF res_write_frame that] assms(1) in auto)
  show ?thesis
    unfolding answer_file_def Let_def res_build_confined [of "file_path f" p ok, OF assms(2,3)] confine_simps
    by (auto simp: w intro!: Option.bind_cong)
qed

lemma answer_limited_confined:
  assumes i: "conn_ok ok root s (st_ctx st)"
    and "code = 0 \<longrightarrow> conn_ok ok root s ((st_ctx st)\<lparr>ctx_want_write := 1\<rparr>) \<and>
      (\<exists>p. cstr (file_path f) 0 = Some p \<and> ok p)"
  shows "answer_limited (confine ok E) st tm code is_html f = answer_limited E st tm code is_html f"
proof -
  have "answer_file (confine ok E) (st\<lparr>st_nft_arr := a\<rparr>) tm f = answer_file E (st\<lparr>st_nft_arr := a\<rparr>) tm f"
    if "code = 0" for a
    using assms(2) that by (auto intro!: answer_file_confined)
  then show ?thesis
    unfolding answer_limited_def Let_def answer_error_confined confine_simps
    by (cases "code = 0") (simp_all cong: verdict.case_cong if_cong)
qed


lemma answer_confined:
  assumes E: "names_ok ok root (env_realpath E)" and i: "conn_ok ok root s (st_ctx st)" "ctx_want_write (st_ctx st) \<noteq> 1"
    and q: "req_inv (st_http_req st)"
  shows "answer (confine ok E) st tm = answer E st tm"
proof -
  note path = answer_path [OF E i q]
  have lim: "answer_limited (confine ok E) (st\<lparr>st_ctx := (st_ctx st)\<lparr>ctx_file_path := fp\<rparr>\<rparr>) tm code h f =
      answer_limited E (st\<lparr>st_ctx := (st_ctx st)\<lparr>ctx_file_path := fp\<rparr>\<rparr>) tm code h f"
    if "web_root_build (ctx_conf (st_ctx st)) (st_http_req st) = Some b"
      and "file_parse (env_stat E) (env_realpath E) (st_http_req st) b (cap b) = Some (code, f)"
      and "strnlen (file_path f) 0 (cap (file_path f)) = Some n" and "rd_n (file_path f) 0 (n + 1) = Some x"
      and "wr (ctx_file_path (st_ctx st)) 0 x = Some fp" for b code f n x fp h
    by (rule answer_limited_confined [where s = s and root = root and ok = ok]) (use path [OF that] in auto)
  show ?thesis
    unfolding answer_def Let_def confine_simps
    by (intro Option.bind_cong refl prod.case_cong if_cong) (auto intro!: lim)
qed

lemma serve_one_confined:
  assumes T: "tls_ok (env_tls E) got sent" and E: "names_ok ok root (env_realpath E)" and i: "conn_ok ok root s (st_ctx st)"
  shows "serve_one (confine ok E) tm st = serve_one E tm st"
proof (cases "ctx_want_write (st_ctx st) = 1")
  case True
  then have "conn_ok ok root s ((st_ctx st)\<lparr>ctx_want_write := 1\<rparr>)"
    using i by (auto simp: conn_ok_def pending_def buf_has_def)
  then show ?thesis using True by (simp add: serve_one_def write_file_confined)
next
  case False
  obtain ret c w rcv where r: "net_443_read (env_tls E) (st_tls st) (st_ctx st) = Some (ret, c, w)"
    and same: "same_conn (st_ctx st) c" and rr: "read_leaves ret c rcv"
    using read_inv [OF T i] by metis
  have ans: "answer (confine ok E) ((with_ctx st c w)\<lparr>st_ctx := c\<lparr>ctx_req_buf := b\<rparr>, st_http_req := q\<rparr>) tm =
      answer E ((with_ctx st c w)\<lparr>st_ctx := c\<lparr>ctx_req_buf := b\<rparr>, st_http_req := q\<rparr>) tm"
    if "ret = 1" and p: "net_http_req_parse (ctx_req_buf c) d n = Some (k, b, q)" for d n k b q
    using parsed_conn [OF _ same i False p] rr that(1) by (auto intro!: answer_confined [OF E])
  show ?thesis
    unfolding serve_one_def Let_def confine_simps r Option.bind.bind_lunit prod.case 
    using rr by (auto simp: False ans read_leaves_def intro!: Option.bind_cong)
qed


lemma serve_confined:
  assumes T: "tls_ok (env_tls E) got sent" and E: "names_ok ok root (env_realpath E)"
  shows "conn_ok ok root s (st_ctx st) \<Longrightarrow> serve (confine ok E) tm n st = serve E tm n st"
proof (induction n arbitrary: st)
  case (Suc n)
  show ?case
    unfolding serve.simps serve_one_confined [OF T E Suc.prems]
    using pred_SomeD [OF serve_one_inv [OF T E Suc.prems]] Suc.IH
    by (intro Option.bind_cong refl) (fastforce split: pass.split)
qed simp

section \<open>The handler as a whole\<close>

lemma accept_tls_inv:
  assumes "conn_ok ok root s (st_ctx st)" "accept_tls E st = (r, st')"
  shows "case r of
      None \<Rightarrow> conn_ok ok root SSL_STATUS_ACCEPT (st_ctx st')
    | Some (ret, True) \<Rightarrow> ret = 2 \<and> conn_ok ok root SSL_STATUS_WANT_READ (st_ctx st') \<or>
        ret = 3 \<and> conn_ok ok root SSL_STATUS_WANT_WRITE (st_ctx st')
    | Some (ret, False) \<Rightarrow> ret = -1"
proof -
  have st: "ctx_ssl_status (st_ctx st) = s" using assms(1) by (simp add: conn_ok_def)
  have up: "conn_ok ok root s' ((st_ctx st)\<lparr>ctx_ssl_status := s', ctx_events := e\<rparr>)" for s' e
    using conn_ok_status [OF assms(1), of s'] by simp
  show ?thesis
    using assms st up unfolding accept_tls_def
    by (auto simp: Let_def log_flag_set_def split: prod.splits if_splits)
qed

text \<open>What an open connection waits for, by the return code of the handler.\<close>

definition waits_in :: "s32 \<Rightarrow> ssl_stat" where
  "waits_in ret = (if ret = 1 then SSL_STATUS_ACCEPT else if ret = 2 then SSL_STATUS_WANT_READ
     else SSL_STATUS_WANT_WRITE)"

lemma finish_is: "finish E ret st = Some (ret', st', closed) \<Longrightarrow>
    ret' = ret \<and> st_ctx st' = st_ctx st \<and> closed = (ret \<le> 0)"
  by (auto simp: finish_def Option.bind_eq_Some_conv split: if_splits option.splits)

lemma handler_ok:
  assumes T: "tls_ok (env_tls E) got sent" and E: "names_ok ok root (env_realpath E)"
    and i: "conn_ok ok root s (st_ctx st)" and run: "fws_443_run E n st = Some (Some (ret, st', closed))"
  shows "closed = (ret \<le> 0) \<and>
    (\<not> closed \<longrightarrow> ret \<in> {1, 2, 3} \<and> conn_ok ok root (waits_in ret) (st_ctx st'))"
proof -
  let ?st = "st\<lparr>st_log_flag := 0, st_http_req := zero_http_req\<rparr>"
  obtain r st1 where a: "accept_tls E ?st = (r, st1)" by (cases "accept_tls E ?st")
  note acc = accept_tls_inv [OF _ a, of ok root s]
  show ?thesis
  proof (cases "env_time E")
    case None
    with run show ?thesis by (auto simp: fws_443_run_def Let_def dest!: finish_is split: if_splits)
  next
    case (Some tm)
    note run' = run [unfolded fws_443_run_def Let_def a Some option.case prod.case]
    show ?thesis
    proof (cases r)
      case None
      with acc i have "conn_ok ok root SSL_STATUS_ACCEPT (st_ctx (ktls_flags E st1))" by simp
      note s = serve_inv [OF T E this, of tm n]
      obtain p where p: "serve E tm n (ktls_flags E st1) = Some p"
        "(case p of Out ret st \<Rightarrow> map_option Some (finish E ret st) | Again st \<Rightarrow> Some None) = Some (Some (ret, st', closed))"
        using run' None by (auto simp: Option.bind_eq_Some_conv)
      then obtain ret1 st2 where o: "serve E tm n (ktls_flags E st1) = Some (Out ret1 st2)"
        and f: "finish E ret1 st2 = Some (ret, st', closed)" by (cases p) auto
      from s o finish_is [OF f] show ?thesis by (auto simp: waits_in_def)
    next
      case (Some x)
      obtain ret1 at_once where x: "x = (ret1, at_once)" by (cases x)
      show ?thesis
        using run' acc i Some x by (cases at_once) (auto simp: waits_in_def dest!: finish_is)
    qed
  qed
qed

lemma handler_inv:
  assumes "tls_ok (env_tls E) got sent" "realpath_ok (env_realpath E)" "conn_inv root s (st_ctx st)"
    and "fws_443_run E n st = Some (Some (ret, st', closed))"
  shows "closed = (ret \<le> 0) \<and>
    (\<not> closed \<longrightarrow> ret \<in> {1, 2, 3} \<and> conn_inv root (waits_in ret) (st_ctx st'))"
  using handler_ok [OF assms(1) names_ok_root [OF assms(2)] _ assms(4)] assms(3) unfolding conn_inv_def by blast

lemma handler_confined:
  assumes T: "tls_ok (env_tls E) got sent" and E: "names_ok ok root (env_realpath E)" and i: "conn_ok ok root s (st_ctx st)"
  shows "fws_443_run (confine ok E) n st = fws_443_run E n st"
proof -
  let ?st = "st\<lparr>st_log_flag := 0, st_http_req := zero_http_req\<rparr>"
  have fin: "finish (confine ok E) = finish E" by (intro ext) (simp add: finish_def)
  have acc: "accept_tls (confine ok E) = accept_tls E" by (intro ext) (simp only: accept_tls_def confine_simps)
  have kt: "ktls_flags (confine ok E) = ktls_flags E" by (intro ext) (simp add: ktls_flags_def)
  obtain r st1 where a: "accept_tls E ?st = (r, st1)" by (cases "accept_tls E ?st")
  have "serve (confine ok E) tm n (ktls_flags E st1) = serve E tm n (ktls_flags E st1)" if "r = None" for tm
    using accept_tls_inv [OF _ a, of ok root s] i that serve_confined [OF T E, of SSL_STATUS_ACCEPT] by simp
  then show ?thesis
    unfolding fws_443_run_def Let_def fin acc kt a confine_simps prod.case
    by (auto split: option.split)
qed

section \<open>The messages to the parent\<close>

lemma ban_message_is:
  assumes "length ip < 45"
  shows "ban_message ip = Some (Some (CHR ''1'' # ip @ [NUL]))"
proof -
  let ?t = "CHR ''1'' # ip"
  have f: "fmt ''%d%s'' [AInt 1, AStr ip] = Some ?t" by (simp add: eval_simps dec_int_def dec.simps)
  have w: "wr (zbuf 47) 0 (?t @ [NUL]) = Some (text_buf 47 ?t)" by (rule text_buf_start) (use assms in simp)
  have s: "snprintf (zbuf 47) 0 46 ?t = Some (length ?t, text_buf 47 ?t)"
    using w snprintf_fits [of ?t 46 "zbuf 47" 0] assms by simp
  have e: "wr (text_buf 47 ?t) (length ?t) [NUL] = Some (text_buf 47 ?t)"
    using text_buf_append [of ?t "[]" 47] assms by simp
  have r: "rd_n (text_buf 47 ?t) 0 (length ?t + 1) = Some (?t @ [NUL])"
    using holds_rd_n [OF holds_wr [OF w], of "length ?t + 1"] by simp
  show ?thesis unfolding ban_message_def f Option.bind.bind_lunit s prod.case using e r assms by simp
qed

text \<open>A log line: the head that is printed first, and the tail with the fields of the request.\<close>

definition log_head :: "string \<Rightarrow> string \<Rightarrow> string" where
  "log_head ip time = CHR ''2'' # ip @ '' '' @ time"

definition log_tail :: "u32 \<Rightarrow> string list \<Rightarrow> string" where
  "log_tail flag fs = pad2 (dec_int (uint flag)) @ concat (map ((#) (CHR '' '')) fs) @ [LF]"

lemma fmt_02u [eval_simps]:
  "0 \<le> i \<Longrightarrow> fmt (CHR ''%'' # CHR ''0'' # CHR ''2'' # CHR ''u'' # f) (AInt i # as) =
     map_option ((@) (pad2 (dec_int i))) (fmt f as)"
  by (cases "fmt f as") (simp_all add: fmt.simps(2) is_flag_def conv_def)

lemma log_line_is:
  assumes "cstr (req_version q) 0 = Some v" "cstr (req_method q) 0 = Some m" "cstr (req_subdomain q) 0 = Some sub"
    "cstr (req_uri q) 0 = Some u" "cstr (req_lang q) 0 = Some l" "cstr (req_os q) 0 = Some os"
    "cstr (req_browser q) 0 = Some br"
  shows "log_line ip time flag q =
    (let s = log_head ip time @ log_tail flag [v, m, sub, u, l, os, br]
     in Some (if 1023 < length s then None else Some (s @ [NUL])))"
proof -
  let ?h = "log_head ip time" and ?t = "log_tail flag [v, m, sub, u, l, os, br]"
  have f: "fmt ''%d%s %s'' [AInt 2, AStr ip, AStr time] = Some ?h"
    by (simp add: eval_simps dec_int_def dec.simps log_head_def)
  have g: "fmt (''%02u %s %s %s %s %s %s %s'' @ [LF])
      [AInt (uint flag), AStr v, AStr m, AStr sub, AStr u, AStr l, AStr os, AStr br] = Some ?t"
    by (simp add: eval_simps log_tail_def)
  show ?thesis
  proof (cases "1023 < length ?h")
    case True
    then show ?thesis
      unfolding log_line_def f Option.bind.bind_lunit
      by (simp add: snprintf_def wr_def Let_def)
  next
    case False
    then have h: "snprintf (zbuf 1024) 0 1024 ?h = Some (length ?h, text_buf 1024 ?h)"
      using text_buf_start [of ?h 1024] by (simp add: snprintf_fits)
    have "\<exists>b. snprintf (text_buf 1024 ?h) (length ?h) (1024 - length ?h) ?t = Some (length ?t, b) \<and>
        (length ?h + length ?t \<le> 1023 \<longrightarrow> b = text_buf 1024 (?h @ ?t))"
    proof (cases "length ?h + length ?t \<le> 1023")
      case True
      then show ?thesis using text_buf_snprintf [of ?h ?t 1024 "1024 - length ?h"] by simp
    next
      case long: False
      have "\<exists>b. wr (text_buf 1024 ?h) (length ?h) (take (1024 - length ?h - 1) ?t @ [NUL]) = Some b"
        unfolding wr_defined using False long by simp
      then show ?thesis using False long by (auto simp: snprintf_def)
    qed
    then obtain b where b: "snprintf (text_buf 1024 ?h) (length ?h) (1024 - length ?h) ?t = Some (length ?t, b)"
      "length ?h + length ?t \<le> 1023 \<Longrightarrow> b = text_buf 1024 (?h @ ?t)" by blast
    have e: "wr (text_buf 1024 (?h @ ?t)) (length (?h @ ?t)) [NUL] = Some (text_buf 1024 (?h @ ?t))"
      "rd_n (text_buf 1024 (?h @ ?t)) 0 (length (?h @ ?t) + 1) = Some (?h @ ?t @ [NUL])"
      if "length ?h + length ?t \<le> 1023"
      using text_buf_append [of "?h @ ?t" "[]" 1024] text_buf_start [of "?h @ ?t" 1024]
        holds_rd_n [OF holds_wr, of "zbuf 1024" 0 "?h @ ?t @ [NUL]" "text_buf 1024 (?h @ ?t)" "length (?h @ ?t) + 1"] that
      by simp_all
    show ?thesis
      unfolding log_line_def f Option.bind.bind_lunit h prod.case assms g if_not_P [OF False] b(1) Let_def
      using b(2) e by (auto simp: not_less)
  qed
qed

section \<open>An example\<close>

definition example_env :: "script env" where
  "example_env = \<lparr>env_tls = script_tls, env_ssl_new = True, env_ssl_accept = (\<lambda>w. (1, w)), env_ktls = (True, True),
     env_time = Some example_tm, env_time_text = ''20260102030405'', env_ip_text = (\<lambda>ip. ''::1''),
     env_stat = (\<lambda>p. if p = ''/srv/www//a.css'' then Some 4 else None),
     env_realpath = (\<lambda>p. if p = ''/srv/www//a.css'' then Some ''/srv/www/a.css'' else None),
     env_open_stat = (\<lambda>p. if p \<in> {''/srv/www/a.css'', ''/etc/passwd''} then Some (Some (7, 4)) else None),
     env_open_read = (\<lambda>p. if p \<in> {''/srv/www/a.css'', ''/etc/passwd''} then Some ''body'' else None)\<rparr>"

definition example_st :: "string list \<Rightarrow> script fws_state" where
  "example_st cs = \<lparr>st_ctx = idle_ctx\<lparr>ctx_conf := zero_conf\<lparr>conf_web_root := \<lparr>bytes = ''/srv'', cap = 128\<rparr>,
       conf_domain := \<lparr>bytes = ''a.io'', cap = 128\<rparr>\<rparr>\<rparr>,
     st_nft_arr = nft_clear, st_pipe = [], st_log_flag = 0, st_http_req = zero_http_req, st_tls = (0, [], [], cs)\<rparr>"

definition script_left :: "script \<Rightarrow> nat" where
  "script_left w = length (concat (snd (snd (snd w))))"

lemma example_finite: "finite_peer example_env script_left"
  by (auto simp: finite_peer_def example_env_def script_tls_def script_left_def split: list.splits if_splits)

lemma example_realpath: "realpath_ok (env_realpath example_env)"
  by (simp add: realpath_ok_def example_env_def)

lemma example_tls: "tls_ok (env_tls example_env) script_got script_sent"
  using script_tls_ok by (simp add: example_env_def)

lemma example_inv: "conn_inv ''/srv'' SSL_STATUS_ACCEPT (st_ctx (example_st cs))"
proof -
  have "pending (st_ctx (example_st cs)) []" using idle_pending by (simp add: example_st_def pending_def buf_has_def)
  then show ?thesis
    by (auto simp: conn_inv_def conn_ok_def example_st_def idle_ctx_def field_is_def wf_buf_def cstr_def zbuf_def)
qed

lemma example_idle:
  "\<exists>st'. fws_443_run example_env 1 (example_st []) = Some (Some (1, st', False))"
proof -
  have z: "cstr (zbuf n) 0 = Some []" if "0 < n" for n using that by simp
  note log = log_line_is [of zero_http_req "[]" "[]" "[]" "[]" "[]" "[]" "[]" "''::1''" "''20260102030405''" 0]
  show ?thesis
    using log by (simp add: z fws_443_run_def accept_tls_def example_st_def example_env_def idle_ctx_def ktls_flags_def zero_conf_def
      serve_one_def net_443_read_def read_loop.simps script_tls_def with_ctx_def finish_def Let_def split: option.split)
qed

section \<open>Properties\<close>

text \<open>
  C7. The state of a connection, over any sequence of events: the handler closes the connection
  exactly when it returns 0 or less; otherwise it returns 1, 2 or 3, the connection is in the TLS
  state of that code, ready to take the rest of a request, its arrays within their bounds, and a
  transfer that waits is one of a file whose canonical name begins with the bytes of the web root.
\<close>

theorem connection_invariant:
  assumes "tls_ok (env_tls E) got sent" "realpath_ok (env_realpath E)"
    and "conn_inv root s (st_ctx st)" "fws_443_run E n st = Some (Some (ret, st', closed))"
  shows "closed = (ret \<le> 0) \<and>
    (\<not> closed \<longrightarrow> ret \<in> {1, 2, 3} \<and> conn_inv root (waits_in ret) (st_ctx st'))"
  using assms by (rule handler_inv)

theorem connection_invariant_witness:
  "\<exists>st'. fws_443_run example_env 1 (example_st []) = Some (Some (1, st', False)) \<and>
     conn_inv ''/srv'' SSL_STATUS_ACCEPT (st_ctx st')"
proof -
  obtain st' where r: "fws_443_run example_env 1 (example_st []) = Some (Some (1, st', False))"
    using example_idle by blast
  from connection_invariant [OF example_tls example_realpath example_inv r] r show ?thesis
    by (auto simp: waits_in_def)
qed

text \<open>
  C8. The loop of the handler ends: while the peer has sent finitely many bytes, after at most one
  pass per byte (and one for a transfer that waits) it returns, and a larger bound on the passes
  changes nothing.
\<close>

theorem handler_terminates:
  assumes "finite_peer E inp" "passes_left inp st < n"
  shows "fws_443_run E n st = fws_443_run E (Suc (passes_left inp st)) st \<and> fws_443_run E n st \<noteq> Some None"
  using assms by (rule handler_fuel)

theorem handler_terminates_witness:
  "fws_443_run example_env 100 (example_st [''GET /'', '' HTTP/1.1'', crlf2]) \<noteq> Some None"
proof -
  have "passes_left script_left (example_st [''GET /'', '' HTTP/1.1'', crlf2]) < 100"
    by (simp add: passes_left_def example_st_def script_left_def idle_ctx_def crlf2_def)
  from handler_terminates [OF example_finite this] show ?thesis by (rule conjunct2)
qed

text \<open>
  C6. Which files a handler reads, for every request, every chunking and every state in which a connection
  can be between two events: it does the same, byte for byte, when all files are taken away but the
  error page and those whose name begins with the bytes of the web root and has no component \<open>..\<close>.  These
  may be files of a sibling of the web root.  Where none exists (\<open>no_sibling\<close>), and no transfer of
  such a file is under way, it does the same when all files outside the directory of the web root
  are taken away but the error page.
\<close>

theorem files_outside_root_unread:
  assumes "tls_ok (env_tls E) got sent" "realpath_ok (env_realpath E)" "conn_inv root s (st_ctx st)"
  shows "fws_443_run (confine (root_bytes root) E) n st = fws_443_run E n st \<and>
    (no_sibling root (env_realpath E) \<and>
       (ctx_want_write (st_ctx st) = 1 \<longrightarrow> (\<exists>p. cstr (ctx_file_path (st_ctx st)) 0 = Some p \<and> in_root root p)) \<longrightarrow>
     fws_443_run (confine (in_root root) E) n st = fws_443_run E n st)"
proof (intro conjI impI, goal_cases)
  case 1
  show ?case by (rule handler_confined [OF assms(1) names_ok_root [OF assms(2)]]) (use assms(3) in \<open>simp add: conn_inv_def\<close>)
next
  case 2
  then have "conn_ok (in_root root) root s (st_ctx st)" using assms(3) by (auto simp: conn_inv_def conn_ok_def)
  with 2 show ?case by (intro handler_confined [OF assms(1) names_in_root [OF assms(2)]]) auto
qed

theorem files_outside_root_unread_witness:
  "fws_443_run (confine (in_root ''/srv'') example_env) 9 (example_st [''GET /a.css HTTP/1.1'' @ crlf @ ''Host: www.a.io'', crlf2]) =
     fws_443_run example_env 9 (example_st [''GET /a.css HTTP/1.1'' @ crlf @ ''Host: www.a.io'', crlf2])"
proof -
  have "no_sibling ''/srv'' (env_realpath example_env)" by (simp add: no_sibling_def example_env_def)
  moreover have "ctx_want_write (st_ctx (example_st cs)) \<noteq> 1" for cs by (simp add: example_st_def idle_ctx_def)
  ultimately show ?thesis using files_outside_root_unread [OF example_tls example_realpath example_inv] by blast
qed

end
