(* ===== verification/Answer.thy ===== *)
theory Answer
  imports Handler_Inv
begin

text \<open>
  What the answer to a request amounts to when nothing interrupts it: the web root, the file, the
  limiter, the header and the body of \<open>answer\<close> of \<open>Https_Handler\<close>, composed, and the answers that
  are no file (a redirect, an error page); and before them the reading
  and the parsing of the request, so that the bytes of a request lead to the bytes of its answer.
\<close>

section \<open>The web root of a request\<close>

lemma web_root_exact:
  assumes root: "field_is (conf_web_root conf) 128 root" and sub: "field_is (req_subdomain q) 64 sub"
  shows "web_root_build conf q = Some (text_buf 256 (sub_root root sub))"
proof -
  note r = field_isD [OF root] and s = field_isD [OF sub]
  have h: "holds (req_subdomain q) 0 (sub @ [NUL])" using sub cstr_iff by (auto simp: field_is_def)
  have w: "wr (zbuf 256) 0 (sub_root root sub @ [NUL]) = Some (text_buf 256 (sub_root root sub))"
    by (rule text_buf_start) (use r(3) s(3) in \<open>simp add: sub_root_def\<close>)
  show ?thesis
  proof (cases sub)
    case Nil
    then have "rd (req_subdomain q) 0 = Some NUL" using h by (simp add: holds_Cons)
    then show ?thesis
      using r w wr_append [of "zbuf 256" 0 root "[NUL]"] Nil by (simp add: web_root_build_def sub_root_def)
  next
    case (Cons x xs)
    then have c: "rd (req_subdomain q) 0 = Some x" "x \<noteq> NUL" using h s(4) by (auto simp: holds_Cons)
    note p = wr_pieces [of "zbuf 256" root "CHR ''/''" sub]
    show ?thesis
      unfolding web_root_build_def Let_def r(5) s(5) r(1) r(2) s(1) s(2) c(1) Option.bind.bind_lunit
      using p w c(2) Cons by (simp add: sub_root_def)
  qed
qed

lemma is_html_exact:
  assumes f: "field_is (file_path f) 4096 p" and n: "file_uri_path_n f < 2 ^ 24"
  shows "is_html_path f (length p) = Some (suffix ''.html'' p)"
proof -
  have h: "holds (file_path f) 0 (p @ [NUL])" using f cstr_iff by (auto simp: field_is_def)
  note d = field_isD [OF f]
  show ?thesis
  proof (cases "5 \<le> length p")
    case True
    let ?d = "drop (length p - 5) p"
    have "holds (file_path f) 0 (take (length p - 5) p @ ?d @ [NUL])"
      using h by (metis append.assoc append_take_drop_id)
    then have "holds (file_path f) (length p - 5) (?d @ [NUL])"
      using True unfolding holds_append [of _ _ "take (length p - 5) p"] by simp
    then have "mem_eq (file_path f) (length p - 5) (html_ext_str @ [NUL]) = Some (prefix (html_ext_str @ [NUL]) (?d @ [NUL]))"
      by (rule mem_eq_holds) (use True in \<open>simp_all add: html_ext_str_def\<close>)
    moreover have "prefix (html_ext_str @ [NUL]) (?d @ [NUL]) \<longleftrightarrow> ?d = html_ext_str"
    proof
      assume "prefix (html_ext_str @ [NUL]) (?d @ [NUL])"
      then obtain z where z: "?d @ [NUL] = (html_ext_str @ [NUL]) @ z" by (auto simp: prefix_def)
      then have "length (?d @ [NUL]) = length ((html_ext_str @ [NUL]) @ z)" by (rule arg_cong)
      then have "z = []" using True by (simp add: html_ext_str_def)
      with z show "?d = html_ext_str" by simp
    qed simp
    moreover have "?d = html_ext_str \<longleftrightarrow> suffix ''.html'' p"
    proof
      assume "?d = html_ext_str"
      then show "suffix ''.html'' p" using suffix_drop [of "length p - 5" p] by (simp add: html_ext_str_def)
    qed (auto simp: suffix_def html_ext_str_def)
    ultimately show ?thesis using True by (simp add: is_html_path_def)
  next
    case False
    have "byte_before_path f k = NUL" if "k \<le> 5" for k
    proof -
      have "(256::nat) ^ 3 \<le> 256 ^ (8 - k)" by (rule power_increasing) (use that in auto)
      then have "file_uri_path_n f div 256 ^ (8 - k) = 0" using n by simp
      then show ?thesis by (simp add: byte_before_path_def char_of_def)
    qed
    moreover have "rd_n (file_path f) 0 (length p + 1) = Some (p @ [NUL])"
      using holds_rd_n [OF h, of "length p + 1"] by simp
    moreover have "6 - length p = Suc (5 - length p)" using False by simp
    then have "rev [1..<6 - length p] = (5 - length p) # rev [1..<5 - length p]"
      using False by (simp only: upt_Suc) simp
    ultimately show ?thesis
      using False suffix_length_le [of "''.html''" p] by (auto simp: is_html_path_def html_ext_str_def)
  qed
qed

text \<open>The comparison of the two tags in the response header: 32 bytes of each.\<close>

definition tag_is :: "cbuf \<Rightarrow> string \<Rightarrow> bool" where
  "tag_is b tag \<longleftrightarrow> field_is b 32 tag \<and> blk b 0 32 = tag @ replicate (32 - length tag) NUL"

lemma tag_compare:
  assumes "tag_is e tag" "NUL \<notin> set t" "length t < 32"
  shows "\<exists>x. rd_n e 0 32 = Some x \<and> mem_eq (text_buf 32 t) 0 x = Some (tag = t)"
proof -
  have l: "length tag < 32" "NUL \<notin> set tag" "cap e = 32" "blk e 0 32 = tag @ replicate (32 - length tag) NUL"
    using assms(1) field_isD [of e 32 tag] by (simp_all add: tag_is_def)
  have b: "blk (text_buf 32 s) 0 32 = s @ replicate (32 - length s) NUL" if "length s < 32" for s
  proof -
    have "wr (zbuf 32) 0 (s @ [NUL]) = Some (text_buf 32 s)" by (rule text_buf_start) (use that in simp)
    from holds_blk [OF holds_zbuf_wr(1) [OF this], of 32] that show ?thesis
      by (simp add: Suc_diff_Suc flip: replicate_Suc)
  qed
  have "(t @ replicate (32 - length t) NUL = tag @ replicate (32 - length tag) NUL) \<longleftrightarrow> tag = t"
  proof
    assume "t @ replicate (32 - length t) NUL = tag @ replicate (32 - length tag) NUL"
    then have "takeWhile (\<lambda>c. c \<noteq> NUL) (t @ replicate (32 - length t) NUL) =
        takeWhile (\<lambda>c. c \<noteq> NUL) (tag @ replicate (32 - length tag) NUL)" by simp
    moreover have "takeWhile (\<lambda>c. c \<noteq> NUL) (s @ replicate (32 - length s) NUL) = s" if "NUL \<notin> set s" for s
      using that by (subst takeWhile_append2) (auto simp: takeWhile_replicate)
    ultimately show "tag = t" using l(2) assms(2) by metis
  qed simp
  then show ?thesis using l assms(3) by (simp add: rd_n_def mem_eq_def b)
qed

section \<open>Header and body\<close>

lemma NUL_date [simp]: "NUL \<notin> set (date_text t)"
proof -
  have n: "NUL \<notin> set (name_at names i)" if "list_all (\<lambda>s. NUL \<notin> set s) names" for i names
    using that by (auto simp: name_at_def list_all_length)
  have "NUL \<notin> set (name_at wday_names (tm_wday t))" "NUL \<notin> set (name_at mon_names (tm_mon t))"
    by (rule n; simp add: wday_names_def mon_names_def)+
  moreover have "NUL \<notin> set (pad2 (dec_int i))" for i by (simp add: pad2_def)
  ultimately show ?thesis by (simp add: date_text_def)
qed

lemma NUL_tag [simp]: "NUL \<notin> set (tag_of m s)" and length_tag [simp]: "length (tag_of m s) < 32"
  using NUL_etag [of m s] by (auto simp: tag_of_def dest: in_set_takeD)

text \<open>A library that accepts every write: then a write succeeds and the file goes out whole.\<close>

lemma accepting_write:
  assumes "tls_ok T got sent" "patient T (\<lambda>w. 0)" "s \<noteq> []" "net_443_write T w c s = (ret, c', w')"
  shows "ret = 1" "sent w' = sent w @ s" "\<exists>ev. c' = c\<lparr>ctx_events := ev\<rparr>"
proof -
  show r: "ret = 1" using patient_write [OF assms(2-4)] by simp
  then show "sent w' = sent w @ s" using net_443_write_is(3) [OF assms(1,4)] by simp
  show "\<exists>ev. c' = c\<lparr>ctx_events := ev\<rparr>"
    using assms(4) by (auto simp: net_443_write_def Let_def split: prod.splits if_splits)
qed

lemma accepting_file:
  assumes "tls_ok T got sent" "patient T (\<lambda>w. 0)" "open_read path = Some content" "length content < 2 ^ 31"
    and "ctx_file_len c = 0" "net_443_file_write T open_read w c path = (ret, c', w')"
  shows "ret = 0 \<and> sent w' = sent w @ content"
proof -
  have "fst (send_file T open_read w c path 0) = 0"
    by (rule send_file_completes [OF assms(2,1), where open_read = open_read and path = path and off = 0])
      (use assms(3-5) in simp_all)
  then have "ret = 0" using assms(6) by simp
  moreover have c0: "ctx_file_len c = int 0" using assms(5) by simp
  obtain n where n: "0 \<le> n \<and> n \<le> length content \<and> sent w' = sent w @ take (n - 0) (drop 0 content) \<and>
     (ret = 0 \<and> n = length content \<and> ctx_file_len c' = 0
      \<or> ret = 1 \<and> n < length content \<and> ctx_file_len c' = int n
      \<or> ret = -1 \<and> ctx_file_len c' = 0)"
    using net_443_file_write_is [where open_read = open_read and path = path, OF assms(1,3,4) c0 _ assms(6)] by auto
  ultimately show ?thesis by auto
qed

text \<open>The type of a file: that of the first entry of the table with its extension, or the default.\<close>

definition type_of :: "mime_table \<Rightarrow> string \<Rightarrow> string \<Rightarrow> string" where
  "type_of t d name = (case lookup (ext_of name) t of MimeFound ty \<Rightarrow> ty | MimeMiss \<Rightarrow> d | MimeErr \<Rightarrow> [])"

lemma type_found:
  assumes "list_all entry_ok t" "lookup ext t = MimeFound ty" shows "NUL \<notin> set ty" "length ty < 64"
proof -
  obtain e where e: "find (\<lambda>e. ext \<in> set (snd e)) t = Some e" "ty = fst e" "length ty < 64"
    using assms(2) by (auto simp: lookup_def split: option.splits if_splits)
  from e(1) have "e \<in> set t" unfolding find_Some_iff by (metis nth_mem)
  with e assms(1) show "NUL \<notin> set ty" "length ty < 64" by (auto simp: list_all_iff entry_ok_def)
qed

lemma res_build_type:
  assumes path: "path_is path name" "length name < n" and conf: "conf_mime_is c t d"
    and tag: "field_is (req_etag q) 32 tag"
    and st: "open_stat name = Some (Some (m, s))" and date: "length (date_text tm) < 32"
    and ty: "lookup (ext_of name) t \<noteq> MimeErr" "length d < 64"
  shows "\<exists>r ret. net_http_res_build open_stat c tm q path n = Some (ret, r) \<and>
      ret = (if tag = tag_of m s then 304 else 0) \<and> res_date r = text_buf 32 (date_text tm) \<and>
      res_etag r = text_buf 32 (tag_of m s) \<and> res_hsts_max_age r = 0 \<and> \<not> res_is_origin_self r \<and>
      cstr (res_content r) 0 = Some (if tag = tag_of m s then [] else type_of t d name)"
    and "NUL \<notin> set (type_of t d name)" "length (type_of t d name) < 64"
proof -
  have ok: "list_all entry_ok t" and d: "NUL \<notin> set d"
    using conf cstr_iff by (auto simp: conf_mime_is_def)
  show y: "NUL \<notin> set (type_of t d name)" "length (type_of t d name) < 64"
    using type_found [OF ok] d ty by (auto simp: type_of_def split: mime_result.split)
  have w: "cstr b 0 = Some d" if "wr (zbuf 64) 0 d = Some b" for b
  proof -
    have "b = \<lparr>bytes = d, cap = 64\<rparr>" using that ty(2) by (simp add: wr_def zbuf_def)
    then show ?thesis using cstr_bytes [OF d ty(2)] by simp
  qed
  obtain b where b: "wr (zbuf 64) 0 d = Some b" using wr_defined [of "zbuf 64" 0 d] ty(2) by auto
  have z: "res_date zero_http_res = zbuf 32" "res_etag zero_http_res = zbuf 32" "res_hsts_max_age zero_http_res = 0"
    "\<not> res_is_origin_self zero_http_res" "res_content zero_http_res = zbuf 64" by (simp_all add: zero_http_res_def)
  show "\<exists>r ret. net_http_res_build open_stat c tm q path n = Some (ret, r) \<and>
      ret = (if tag = tag_of m s then 304 else 0) \<and> res_date r = text_buf 32 (date_text tm) \<and>
      res_etag r = text_buf 32 (tag_of m s) \<and> res_hsts_max_age r = 0 \<and> \<not> res_is_origin_self r \<and>
      cstr (res_content r) 0 = Some (if tag = tag_of m s then [] else type_of t d name)"
    using res_build_is [OF path conf tag, of open_stat m s tm, OF st date] ty(1) b w [OF b] type_found [OF ok, of "ext_of name"]
    by (cases "lookup (ext_of name) t") (auto simp: res_base_def res_200_def z type_of_def cstr_bytes)
qed

definition hsts_age :: "fws_conf \<Rightarrow> u32" where
  "hsts_age conf = (if conf_use_hsts conf then conf_hsts_max_age conf else 0)"

lemma cstr_empty_rd: "cstr b 0 = Some [] \<Longrightarrow> rd b 0 = Some NUL"
  by (cases "bytes b") (auto simp: cstr_def rd_def byte_at_def Let_def split: if_splits)

lemma answer_file_sends:
  assumes T: "tls_ok (env_tls E) got sent" "patient (env_tls E) (\<lambda>w. 0)"
    and conf: "conf_mime_is (ctx_conf c) t d" "c = st_ctx st"
    and q: "tag_is (req_etag (st_http_req st)) tag" "cstr (req_origin (st_http_req st)) 0 = Some []"
    and path: "path_is (file_path f) name" "cap (file_path f) = 4096" "length name < 4096"
      "cstr (ctx_file_path c) 0 = Some name" "ctx_file_len c = 0"
    and disk: "env_open_stat E name = Some (Some (m, sz))" "env_open_read E name = Some content"
      "length content < 2 ^ 31"
    and date: "length (date_text tm) < 32"
    and ty: "lookup (ext_of name) t \<noteq> MimeErr" "length d < 64"
  shows "\<exists>st'. answer_file E st tm f = Some (if tag = tag_of m sz then Out 0 st' else Again st') \<and>
     sent (st_tls st') = sent (st_tls st) @ header_text (tag = tag_of m sz) (date_text tm) (conf_cache_max_age (ctx_conf c))
        (tag_of m sz) (if tag = tag_of m sz then [] else type_of t d name) (file_size f)
        (hsts_age (ctx_conf c)) False [] @
       (if tag = tag_of m sz then [] else content)"
proof -
  let ?same = "tag = tag_of m sz" and ?q = "st_http_req st"
  let ?ty = "if ?same then [] else type_of t d name" and ?hsts = "hsts_age (ctx_conf c)"
  have tf: "field_is (req_etag ?q) 32 tag" using q(1) by (simp add: tag_is_def)
  note b = res_build_type [where open_stat = "env_open_stat E" and q = "st_http_req st", OF path(1,3) conf(1) tf disk(1) date ty]
  obtain r where r: "net_http_res_build (env_open_stat E) (ctx_conf c) tm ?q (file_path f) 4096 = Some (if ?same then 304 else 0, r)"
    "res_date r = text_buf 32 (date_text tm)" "res_etag r = text_buf 32 (tag_of m sz)" "res_hsts_max_age r = 0"
    "\<not> res_is_origin_self r" "cstr (res_content r) 0 = Some ?ty"
    using b(1) by blast
  define r' where "r' = (if conf_use_hsts (ctx_conf c) then r\<lparr>res_hsts_max_age := conf_hsts_max_age (ctx_conf c)\<rparr> else r)"
  have r': "cstr (res_date r') 0 = Some (date_text tm)" "res_etag r' = text_buf 32 (tag_of m sz)" "cstr (res_etag r') 0 = Some (tag_of m sz)"
    "cstr (res_content r') 0 = Some ?ty" "res_hsts_max_age r' = ?hsts" "\<not> res_is_origin_self r'"
    using r date by (simp_all add: r'_def text_buf_cstr hsts_age_def)
  obtain x where x: "rd_n (req_etag ?q) 0 32 = Some x" "mem_eq (res_etag r') 0 x = Some ?same"
    using tag_compare [OF q(1) NUL_tag length_tag, of m sz] r'(2) by auto
  have tyl: "NUL \<notin> set ?ty" "length ?ty < 64" using b(2,3) by auto
  let ?h = "header_text ?same (date_text tm) (conf_cache_max_age (ctx_conf c)) (tag_of m sz) ?ty (file_size f) ?hsts False []"
  obtain ret c1 w1 where w1: "net_443_write (env_tls E) (st_tls st) c ?h = (ret, c1, w1)"
    by (cases "net_443_write (env_tls E) (st_tls st) c ?h")
  have ne: "?h \<noteq> []" by (simp add: header_text_def)
  note a = accepting_write [OF T ne w1]
  have hw: "net_443_res_write (env_tls E) (st_tls st) c r' (file_size f) ?q = Some (0, c1, w1)"
    using res_write_is [OF r'(1) date NUL_date r'(3) length_tag NUL_tag r'(4) tyl(2,1) q(2) _ _ x, of "env_tls E" "st_tls st" c "file_size f"]
      w1 a(1) r'(5,6) by simp
  have o: "rd (req_origin ?q) 0 = Some NUL" using q(2) cstr_empty_rd by blast
  obtain ev where ev: "c1 = c\<lparr>ctx_events := ev\<rparr>" using a(3) by blast
  have len: "ctx_file_len (c1\<lparr>ctx_want_write := 0\<rparr>) = 0" "cstr (ctx_file_path (c1\<lparr>ctx_want_write := 0\<rparr>)) 0 = Some name"
    using path(4,5) by (simp_all add: ev)
  obtain ret2 c2 w2 where w2: "net_443_file_write (env_tls E) (env_open_read E) w1 (c1\<lparr>ctx_want_write := 0\<rparr>) name = (ret2, c2, w2)"
    by (cases "net_443_file_write (env_tls E) (env_open_read E) w1 (c1\<lparr>ctx_want_write := 0\<rparr>) name")
  note body = accepting_file [OF T disk(2,3) len(1) w2]
  have start: "answer_file E st tm f = (if ?same then Some (Out 0 (with_ctx st c1 w1)) else write_file E (with_ctx st c1 w1))"
    using r(1) o hw by (simp add: answer_file_def path(2) conf(2) [symmetric] r'_def [symmetric])
  show ?thesis
  proof (cases ?same)
    case True
    then show ?thesis using start a(2) by (simp add: with_ctx_def)
  next
    case False
    have "write_file E (with_ctx st c1 w1) = Some (Again (with_ctx (with_ctx st c1 w1) c2 w2))"
      using len(2) w2 body by (simp add: write_file_def with_ctx_def)
    then show ?thesis using start False a(2) body by (simp add: with_ctx_def)
  qed
qed

section \<open>The whole answer\<close>

lemma path_is_field:
  assumes "field_is b n name" "length name + 33 \<le> n" shows "path_is b name"
proof -
  have h: "holds b 0 (name @ [NUL])" using assms(1) cstr_iff by (auto simp: field_is_def)
  have c: "cap b = n" using assms(1) by (simp add: field_is_def)
  let ?z = "blk b (length name + 1) (n - (length name + 1))"
  have "holds b (length name + 1) ?z" by (rule holds_of_blk) (use assms(2) c in simp)
  then have "holds b 0 ((name @ [NUL]) @ ?z)" using h by (subst holds_append) simp
  then show ?thesis using assms by (auto simp: path_is_def field_is_def intro!: exI [of _ ?z])
qed

text \<open>Up to the limiter: the path of the file goes into the connection.\<close>

lemma answer_reaches_limit:
  assumes c: "c = st_ctx st" "wf_buf (ctx_file_path c)" "cap (ctx_file_path c) = 1024"
    and w: "web_root_build (ctx_conf c) (st_http_req st) = Some w"
    and f: "file_parse (env_stat E) (env_realpath E) (st_http_req st) w (cap w) = Some (code, f)" "code \<noteq> 301" "0 \<le> code"
    and p: "field_is (file_path f) 4096 p" "length p < 1024" "file_uri_path_n f < 2 ^ 24"
  shows "\<exists>b. cstr b 0 = Some p \<and>
    answer E st tm = answer_limited E (st\<lparr>st_ctx := c\<lparr>ctx_file_path := b\<rparr>\<rparr>) tm code (suffix ''.html'' p) f"
proof -
  note d = field_isD [OF p(1)]
  have hn: "holds (file_path f) 0 (p @ [NUL])" using p(1) cstr_iff by (auto simp: field_is_def)
  have rd: "rd_n (file_path f) 0 (length p + 1) = Some (p @ [NUL])"
    using holds_rd_n [OF hn, of "length p + 1"] by simp
  obtain b where b: "wr (ctx_file_path c) 0 (p @ [NUL]) = Some b"
    using wr_defined [of "ctx_file_path c" 0 "p @ [NUL]"] c(3) p(2) by auto
  have "cstr b 0 = Some p" using cstr_wr [OF _ b] c(2) d(4) by simp
  moreover have "answer E st tm = answer_limited E (st\<lparr>st_ctx := c\<lparr>ctx_file_path := b\<rparr>\<rparr>) tm code (suffix ''.html'' p) f"
    using w f(1) f(2,3) d(1,5) p(2) is_html_exact [OF p(1,3)] rd b
    by (simp add: answer_def c(1) [symmetric])
  ultimately show ?thesis by blast
qed

lemma answer_sends:
  assumes T: "tls_ok (env_tls E) got sent" "patient (env_tls E) (\<lambda>w. 0)" "realpath_ok (env_realpath E)"
    and conf: "conf_mime_is (ctx_conf c) t d" "c = st_ctx st" "field_is (conf_web_root (ctx_conf c)) 128 root"
    and c: "wf_buf (ctx_file_path c)" "cap (ctx_file_path c) = 1024" "ctx_file_len c = 0"
    and q: "q = st_http_req st" "req_path q = Some 0" "req_path_n q = length s" "rd_n (req_uri q) 0 (length s) = Some s"
      "NUL \<notin> set s" "length s \<le> 4085" "field_is (req_subdomain q) 64 sub"
      "tag_is (req_etag q) tag" "cstr (req_origin q) 0 = Some []"
    and url: "NUL \<notin> set (url_decode s)" "length (sub_root root sub) + length (url_decode s) \<le> 4084"
      "file_answer (env_stat E) (env_realpath E) (sub_root root sub) s = 0"
      "candidate (env_stat E) (uri_code s = 1) (sub_root root sub @ CHR ''/'' # url_decode s) = Some (fname, int (length content))"
      "env_realpath E fname = Some name" "length name < 1024"
    and lim: "fst (nft_request (ctx_conf c) (ctx_client_ip_buf c) (suffix ''.html'' name) (st_nft_arr st)) = Serve"
    and disk: "env_open_stat E name = Some (Some (m, sz))" "env_open_read E name = Some content"
      "length content < 2 ^ 31"
    and date: "length (date_text tm) < 32"
    and ty: "lookup (ext_of name) t \<noteq> MimeErr" "length d < 64"
  shows "\<exists>st'. answer E st tm = Some (if tag = tag_of m sz then Out 0 st' else Again st') \<and>
     sent (st_tls st') = sent (st_tls st) @ header_text (tag = tag_of m sz) (date_text tm) (conf_cache_max_age (ctx_conf c))
        (tag_of m sz) (if tag = tag_of m sz then [] else type_of t d name) (int (length content))
        (hsts_age (ctx_conf c)) False [] @
       (if tag = tag_of m sz then [] else content)"
proof -
  let ?root = "sub_root root sub" and ?w = "text_buf 256 (sub_root root sub)"
  have rl: "length ?root < 256" "NUL \<notin> set ?root" "cap ?w = 256"
    using field_isD(3,4) [OF conf(3)] field_isD(3,4) [OF q(7)] by (auto simp: sub_root_def text_buf_def)
  then have w: "wf_buf ?w" "cstr ?w 0 = Some ?root" by (simp_all add: text_buf_cstr)
  have rp: "\<And>name r. env_realpath E name = Some r \<Longrightarrow> NUL \<notin> set r" using T(3) by (auto simp: realpath_ok_def)
  obtain f where f: "file_parse (env_stat E) (env_realpath E) q ?w 256 = Some (0, f)" "file_size f = int (length content)"
      "cstr (file_path f) 0 = Some name"
    using file_parse_answers [where stat = "env_stat E", OF q(2-6) w rl(1) url(1,2), where realpath = "env_realpath E"] rp url(3-5)
    by (auto simp: url(3))
  have fp: "field_is (file_path f) 4096 name"
    using answered_file [OF names_ok_root [OF T(3)] w, OF f(1)] f(3) by (auto simp: field_is_def)
  have fn: "file_uri_path_n f < 2 ^ 24" using pred_SomeD [OF file_parse_file f(1)] q(3,6) by auto
  have wb: "web_root_build (ctx_conf c) (st_http_req st) = Some ?w" using web_root_exact [OF conf(3) q(7)] q(1) by simp
  obtain b where b: "cstr b 0 = Some name"
    "answer E st tm = answer_limited E (st\<lparr>st_ctx := c\<lparr>ctx_file_path := b\<rparr>\<rparr>) tm 0 (suffix ''.html'' name) f"
    using answer_reaches_limit [OF conf(2) c(1,2) wb, of E 0 f name tm] f(1) q(1) fp url(6) fn rl(3) by auto
  obtain arr where arr: "nft_request (ctx_conf c) (ctx_client_ip_buf c) (suffix ''.html'' name) (st_nft_arr st) = (Serve, arr)"
    using lim by (metis surj_pair fst_conv)
  let ?st = "st\<lparr>st_ctx := c\<lparr>ctx_file_path := b\<rparr>, st_nft_arr := arr\<rparr>"
  have "answer E st tm = answer_file E ?st tm f"
    using b(2) arr by (simp add: answer_limited_def conf(2) [symmetric])
  moreover note answer_file_sends [OF T(1,2), of "c\<lparr>ctx_file_path := b\<rparr>" t d ?st tag f name m sz content tm]
  ultimately show ?thesis
    using conf(1) q path_is_field [OF fp] b(1) c(3) field_isD(5) [OF fp] url(6) disk date ty f(2) by simp
qed

section \<open>Answers that are no file\<close>

text \<open>An error page, to a client that takes every byte.\<close>

definition page_is :: "'w env \<Rightarrow> (s32 \<Rightarrow> string) \<Rightarrow> bool" where
  "page_is E body \<longleftrightarrow> (\<exists>html. env_open_read E err_page_path = Some html \<and> html \<noteq> [] \<and>
     (\<forall>code. body code \<noteq> [] \<and> length (body code) < 2 ^ 64 \<and> fmt (takeWhile (\<lambda>c. c \<noteq> NUL) html)
        [AInt (fst (err_msg code)), AInt (fst (err_msg code)), AStr (snd (err_msg code))] = Some (body code)))"

definition err_page :: "(s32 \<Rightarrow> string) \<Rightarrow> s32 \<Rightarrow> string" where
  "err_page body code = err_head code (length (body code)) @ body code"

lemma answer_error_sends:
  assumes T: "tls_ok (env_tls E) got sent" "patient (env_tls E) (\<lambda>w. 0)" and page: "page_is E body"
  shows "\<exists>st'. answer_error E st code = Some (0, st') \<and> sent (st_tls st') = sent (st_tls st) @ err_page body code"
proof -
  obtain html where html: "env_open_read E err_page_path = Some html" "html \<noteq> []" "length (body code) < 2 ^ 64"
    "fmt (takeWhile (\<lambda>c. c \<noteq> NUL) html)
      [AInt (fst (err_msg code)), AInt (fst (err_msg code)), AStr (snd (err_msg code))] = Some (body code)"
    and ne: "body code \<noteq> []"
    using page by (auto simp: page_is_def)
  obtain r1 c1 w1 where 1: "net_443_write (env_tls E) (st_tls st) (st_ctx st) (err_head code (length (body code))) = (r1, c1, w1)"
    using prod_cases3 by blast
  obtain r2 c2 w2 where 2: "net_443_write (env_tls E) w1 c1 (body code) = (r2, c2, w2)" using prod_cases3 by blast
  have h: "err_head code (length (body code)) \<noteq> []" by (simp add: err_head_def)
  note a = accepting_write [OF T h 1] and b = accepting_write [OF T ne 2]
  have "net_443_err_write (env_tls E) (env_open_read E) (st_tls st) (st_ctx st) code = Some (0, c2, w2)"
    unfolding err_write_is [where open_read = "env_open_read E", OF html] 1 using a(1) b(1) 2 by simp
  then show ?thesis using a(2) b(2) by (simp add: answer_error_def err_page_def)
qed

text \<open>What the limiter leaves of an answer that is no file: an error page, and whether the loop goes on.\<close>

lemma answer_limited_sends:
  assumes T: "tls_ok (env_tls E) got sent" "patient (env_tls E) (\<lambda>w. 0)" and page: "page_is E body"
    and ip: "length (env_ip_text E (ctx_client_ip_buf (st_ctx st))) < 45"
    and v: "fst (nft_request (ctx_conf (st_ctx st)) (ctx_client_ip_buf (st_ctx st)) (h \<or> code \<noteq> 0) (st_nft_arr st)) = v"
      "v = Serve \<longrightarrow> code \<noteq> 0" "0 \<le> code"
  shows "\<exists>st'. answer_limited E st tm code h f = Some (case v of Refused _ \<Rightarrow> Out 0 st' | _ \<Rightarrow> Again st') \<and>
    sent (st_tls st') = sent (st_tls st) @ err_page body (if v = Serve then code else 429)"
proof -
  obtain arr where n: "nft_request (ctx_conf (st_ctx st)) (ctx_client_ip_buf (st_ctx st)) (h \<or> code \<noteq> 0) (st_nft_arr st) = (v, arr)"
    using v(1) by (metis surj_pair fst_conv)
  note e = answer_error_sends [OF T page]
  show ?thesis
  proof (cases v)
    case Serve
    obtain st' where "answer_error E (st\<lparr>st_nft_arr := arr\<rparr>) code = Some (0, st')"
      "sent (st_tls st') = sent (st_tls st) @ err_page body code"
      using e [of "st\<lparr>st_nft_arr := arr\<rparr>" code] by auto
    then show ?thesis using n v(2) Serve by (simp add: answer_limited_def)
  next
    case Limited
    obtain st' where "answer_error E (st\<lparr>st_nft_arr := arr\<rparr>) 429 = Some (0, st')"
      "sent (st_tls st') = sent (st_tls st) @ err_page body 429"
      using e [of "st\<lparr>st_nft_arr := arr\<rparr>" 429] by auto
    then show ?thesis using n Limited by (simp add: answer_limited_def)
  next
    case (Refused ban)
    let ?m = "CHR ''1'' # env_ip_text E (ctx_client_ip_buf (st_ctx st)) @ [NUL]"
    let ?st = "if ban then st\<lparr>st_nft_arr := arr, st_pipe := st_pipe st @ [?m]\<rparr> else st\<lparr>st_nft_arr := arr\<rparr>"
    obtain st' where st': "answer_error E ?st 429 = Some (0, st')"
      "sent (st_tls st') = sent (st_tls ?st) @ err_page body 429"
      using e [of ?st 429] by blast
    have "st_tls ?st = st_tls st" by simp
    with st' show ?thesis using n Refused ban_message_is [OF ip] by (cases ban) (simp_all add: answer_limited_def)
  qed
qed

lemma parsed_file:
  assumes f: "file_parse stat realpath q w n = Some (code, f)" and n: "req_path_n q \<le> 4096"
    and rp: "\<And>name r. realpath name = Some r \<Longrightarrow> NUL \<notin> set r \<and> length r < 1024"
  obtains p where "field_is (file_path f) 4096 p" "length p < 1024" "file_uri_path_n f < 2 ^ 24"
proof -
  have "file_uri_path_n f \<le> req_path_n q \<and> (file_path f = zbuf 4096 \<or>
     (\<exists>name r. realpath name = Some r \<and> wr (zbuf 4096) 0 (r @ [NUL]) = Some (file_path f)))"
    using pred_SomeD [OF file_parse_file f] by simp
  moreover have "field_is (zbuf 4096) 4096 []" by (simp add: field_is_def)
  moreover have "field_is b 4096 r" if "realpath name = Some r" "wr (zbuf 4096) 0 (r @ [NUL]) = Some b" for name r b
    using rp [OF that(1)] cstr_wr [OF _ that(2)] holds_zbuf_wr(2,3) [OF that(2)] by (simp add: field_is_def)
  ultimately show ?thesis using that [of "[]"] that rp n by fastforce
qed

definition moved_text :: "string \<Rightarrow> string \<Rightarrow> string" where
  "moved_text host uri = ''HTTP/1.1 301 Moved permanently'' @ crlf @ ''Location: https://'' @ host @ uri @ crlf @
     ''Content-Length: 0'' @ crlf @ ''Connection: keep-alive'' @ crlf @ ''Keep-Alive: timeout=3'' @ crlf @ crlf"

lemma answer_redirects:
  assumes T: "tls_ok (env_tls E) got sent" "patient (env_tls E) (\<lambda>w. 0)"
    and w: "web_root_build (ctx_conf (st_ctx st)) (st_http_req st) = Some w"
    and f: "file_parse (env_stat E) (env_realpath E) (st_http_req st) w (cap w) = Some (301, f)"
    and t: "field_is (req_subdomain (st_http_req st)) 64 sub" "field_is (conf_domain (ctx_conf (st_ctx st))) 128 domain"
      "cstr (file_uri_path f) 0 = Some uri"
  shows "\<exists>st'. answer E st tm = Some (Out (-1) st') \<and> sent (st_tls st') =
    sent (st_tls st) @ moved_text (host_text_of sub domain (conf_https_port (ctx_conf (st_ctx st)))) uri"
proof -
  let ?t = "moved_text (host_text_of sub domain (conf_https_port (ctx_conf (st_ctx st)))) uri"
  obtain ret c1 w1 where 1: "net_443_write (env_tls E) (st_tls st) (st_ctx st) ?t = (ret, c1, w1)"
    using prod_cases3 by blast
  have "?t \<noteq> []" by (simp add: moved_text_def)
  note a = accepting_write [OF T this 1]
  have "path_redir_text (st_http_req st) (ctx_conf (st_ctx st)) f = Some ?t"
    using path_redir_text_is [OF t] by (simp add: moved_text_def)
  then show ?thesis using w f 1 a(2) by (simp add: answer_def with_ctx_def)
qed

text \<open>The name under which the file of a path is found.\<close>

definition names_file :: "'w env \<Rightarrow> string \<Rightarrow> string \<Rightarrow> string \<Rightarrow> bool" where
  "names_file E root s name \<longleftrightarrow> (\<exists>fname sz.
     candidate (env_stat E) (uri_code s = 1) (root @ CHR ''/'' # url_decode s) = Some (fname, sz) \<and>
     env_realpath E fname = Some name)"

lemma answer_refuses:
  assumes T: "tls_ok (env_tls E) got sent" "patient (env_tls E) (\<lambda>w. 0)" "realpath_ok (env_realpath E)"
    and c: "c = st_ctx st" "wf_buf (ctx_file_path c)" "cap (ctx_file_path c) = 1024"
    and conf: "conf = ctx_conf c" "field_is (conf_web_root conf) 128 root" "field_is (conf_domain conf) 128 domain"
    and q: "q = st_http_req st" "req_path q = Some 0" "req_path_n q = length s" "rd_n (req_uri q) 0 (length s) = Some s"
      "NUL \<notin> set s" "length s \<le> 4085" "field_is (req_subdomain q) 64 sub"
    and url: "NUL \<notin> set (url_decode s)" "length (sub_root root sub) + length (url_decode s) \<le> 4084"
      "\<forall>name r. env_realpath E name = Some r \<longrightarrow> length r < 1024"
    and a: "a = file_answer (env_stat E) (env_realpath E) (sub_root root sub) s"
      "a = 0 \<longrightarrow> names_file E (sub_root root sub) s name"
    and v: "v = fst (nft_request conf (ctx_client_ip_buf c) (a \<noteq> 0 \<or> suffix ''.html'' name) (st_nft_arr st))"
      "a = 0 \<longrightarrow> v \<noteq> Serve"
    and page: "page_is E body" "length (env_ip_text E (ctx_client_ip_buf c)) < 45"
  shows "\<exists>st'. answer E st tm =
      Some (if a = 301 \<or> a < 0 then Out (-1) st' else case v of Refused _ \<Rightarrow> Out 0 st' | _ \<Rightarrow> Again st') \<and>
    sent (st_tls st') = sent (st_tls st) @
      (if a = 301 then moved_text (host_text_of sub domain (conf_https_port conf)) (take (length s - uri_cut s) s)
       else if a < 0 then [] else err_page body (if v = Serve then a else 429))"
proof -
  let ?root = "sub_root root sub" and ?w = "text_buf 256 (sub_root root sub)"
  have rl: "length ?root < 256" "NUL \<notin> set ?root" "cap ?w = 256"
    using field_isD(3,4) [OF conf(2)] field_isD(3,4) [OF q(7)] by (auto simp: sub_root_def text_buf_def)
  then have w: "wf_buf ?w" "cstr ?w 0 = Some ?root" by (simp_all add: text_buf_cstr)
  have wb: "web_root_build (ctx_conf c) q = Some ?w" using web_root_exact [OF conf(2) q(7)] conf(1) by simp
  have rp: "\<And>name r. env_realpath E name = Some r \<Longrightarrow> NUL \<notin> set r \<and> length r < 1024"
    using T(3) url(3) by (auto simp: realpath_ok_def)
  obtain f where f: "file_parse (env_stat E) (env_realpath E) q ?w 256 = Some (a, f)"
      "a = 301 \<Longrightarrow> cstr (file_uri_path f) 0 = Some (take (length s - uri_cut s) s)"
      "a = 0 \<Longrightarrow> cstr (file_path f) 0 = Some name"
    using file_parse_answers [where stat = "env_stat E", OF q(2-6) w rl(1) url(1,2), where realpath = "env_realpath E"] rp a
    by (auto simp: names_file_def)
  obtain p where p: "field_is (file_path f) 4096 p" "length p < 1024" "file_uri_path_n f < 2 ^ 24"
    using parsed_file [OF f(1)] q(3,6) rp by auto
  have name: "a = 0 \<longrightarrow> p = name" using f(3) p(1) by (simp add: field_is_def)
  consider "a = 301" | "a \<noteq> 301" "a < 0" | "a \<noteq> 301" "0 \<le> a" by linarith
  then show ?thesis
  proof cases
    case 1
    then show ?thesis
      using answer_redirects [OF T(1,2), of st ?w f sub domain "take (length s - uri_cut s) s" tm] wb f(1,2) q(1,7) conf(1,3) c(1) rl(3)
      by auto
  next
    case 2
    then show ?thesis using wb f(1) q(1) c(1) rl(3) by (simp add: answer_def)
  next
    case 3
    obtain b where b: "answer E st tm = answer_limited E (st\<lparr>st_ctx := c\<lparr>ctx_file_path := b\<rparr>\<rparr>) tm a (suffix ''.html'' p) f"
      using answer_reaches_limit [OF c, of ?w E a f p tm] wb f(1) q(1) p 3 rl(3) by auto
    let ?st = "st\<lparr>st_ctx := c\<lparr>ctx_file_path := b\<rparr>\<rparr>"
    have "fst (nft_request (ctx_conf (st_ctx ?st)) (ctx_client_ip_buf (st_ctx ?st)) (suffix ''.html'' p \<or> a \<noteq> 0) (st_nft_arr ?st)) = v"
      using v(1) name conf(1) by (cases "a = 0") (simp_all add: disj_commute)
    from answer_limited_sends [OF T(1,2) page(1), of ?st, OF _ this, of tm f] v(2) 3(2) page(2) b 3(1)
    show ?thesis by (cases v) auto
  qed
qed

section \<open>From the bytes of a request to the bytes of its answer\<close>

text \<open>The path of a request: its URI up to the first question mark.\<close>

definition path_of :: "string \<Rightarrow> string" where
  "path_of u = takeWhile (\<lambda>c. c \<noteq> CHR ''?'') u"

lemma request_path:
  assumes "same_line (req_line m u v) q" "length u < 4096"
  shows "req_path q = Some 0" "req_path_n q = length (path_of u)"
    "rd_n (req_uri q) 0 (length (path_of u)) = Some (path_of u)"
proof -
  have q: "req_path q = Some 0" "req_uri q = \<lparr>bytes = u @ [NUL], cap = 4096\<rparr>"
      "req_path_n q = (if CHR ''?'' \<in> set u then length (path_of u) else length u)"
    using assms(1) by (simp_all add: same_line_def req_line_def uri_split_def Let_def path_of_def)
  have p: "path_of u = u" if "CHR ''?'' \<notin> set u"
    unfolding path_of_def by (rule takeWhile_eq_all_conv [THEN iffD2]) (use that in auto)
  have l: "length (path_of u) \<le> length u" "take (length (path_of u)) u = path_of u"
    unfolding path_of_def by (simp add: length_takeWhile_le, metis takeWhile_eq_take)
  have h: "holds (req_uri q) 0 (u @ [NUL])"
    using holds_bytes [of "req_uri q"] assms(2) unfolding q(2) by (simp add: wf_buf_def)
  show "req_path q = Some 0" by (fact q(1))
  show "req_path_n q = length (path_of u)" using q(3) p by simp
  show "rd_n (req_uri q) 0 (length (path_of u)) = Some (path_of u)"
    using holds_rd_n [OF h, of "length (path_of u)"] l by simp
qed

lemma serve_parses:
  assumes T: "tls_ok (env_tls E) got sent" and c: "c = st_ctx st" "pending c rcv" "ctx_want_write c \<noteq> 1"
    and conf: "field_is (conf_domain (ctx_conf c)) 128 domain" "CR \<notin> set domain"
    and read: "net_443_read (env_tls E) (st_tls st) c = Some (1, c1, w1)" "got w1 = got (st_tls st) @ d"
    and req: "rcv @ d = req_text m u v hs" "req_ok domain m u v hs" "length (req_text m u v hs) \<le> 8063"
    and hdr: "hdr_fold domain (map lower_hdr hs) (req_line m u v) = Some (k, q)"
  shows "\<exists>b. serve_one E tm st = answer E (st\<lparr>st_tls := w1, st_ctx := c1\<lparr>ctx_req_buf := b\<rparr>, st_http_req := q\<rparr>) tm"
    and "sent w1 = sent (st_tls st)" "same_conn c c1"
proof -
  obtain d' where d': "got w1 = got (st_tls st) @ d'" "sent w1 = sent (st_tls st)" "read_leaves 1 c1 (rcv @ d')"
    using net_443_read_is [OF T c(2), of "st_tls st"] read(1) by auto
  then have "d' = d" using read(2) by simp
  then have b: "wf_buf (ctx_req_buf c1)" "cap (ctx_req_buf c1) = 8192" "holds (ctx_req_buf c1) 0 (req_text m u v hs @ [NUL])"
    using d'(3) req(1) by (auto simp: read_leaves_def buf_has_def)
  show "sent w1 = sent (st_tls st)" by (fact d'(2))
  show same: "same_conn c c1" using pred_SomeD [OF read_frame read(1)] by simp
  let ?n = "length (req_text m u v hs) + 1"
  let ?t = "blk (ctx_req_buf c1) ?n (8192 - ?n)"
  have "holds (ctx_req_buf c1) ?n ?t" by (rule holds_of_blk) (use b(2) req(3) in simp)
  then have "holds (ctx_req_buf c1) 0 ((req_text m u v hs @ [NUL]) @ ?t)"
    using b(3) by (subst holds_append) simp
  then have h: "holds (ctx_req_buf c1) 0 (req_text m u v hs @ NUL # ?t)" by simp
  have tl: "128 \<le> length ?t" using req(3) by simp
  have ow: "wf_buf (conf_domain (ctx_conf c1))" "cap (conf_domain (ctx_conf c1)) = 128"
      "cstr (conf_domain (ctx_conf c1)) 0 = Some domain" "length domain < 128"
    using conf(1) same field_isD(3) [OF conf(1)] by (auto simp: field_is_def same_conn_def)
  obtain b' where "net_http_req_parse (ctx_req_buf c1) (conf_domain (ctx_conf c1)) 128 = Some (0, b', q)"
    using req_parse_is [OF h tl req(2) ow(1,3,4,2) conf(2)] hdr by auto
  then show "\<exists>b. serve_one E tm st = answer E (st\<lparr>st_tls := w1, st_ctx := c1\<lparr>ctx_req_buf := b\<rparr>, st_http_req := q\<rparr>) tm"
    using c(3) read(1) ow(2) by (intro exI [of _ b']) (simp add: serve_one_def c(1) [symmetric] with_ctx_def)
qed

text \<open>A complete request leads to its answer, in the state in which only it has been taken in.\<close>

lemma serve_request:
  assumes T: "tls_ok (env_tls E) got sent"
    and conf: "conf = ctx_conf c" "field_is (conf_domain conf) 128 domain" "CR \<notin> set domain"
    and c: "c = st_ctx st" "conn_inv root SSL_STATUS_ACCEPT c" "pending c rcv" "ctx_want_write c \<noteq> 1" "ctx_file_len c = 0"
    and read: "net_443_read (env_tls E) (st_tls st) c = Some (1, c1, w1)" "got w1 = got (st_tls st) @ rest"
    and req: "rcv @ rest = req_text m u v hs" "req_ok domain m u v hs" "length (req_text m u v hs) \<le> 8063"
      "hdr_fold domain (map lower_hdr hs) (req_line m u v) = Some (k, q)"
  obtains st1 where "serve_one E tm st = answer E st1 tm" "st_http_req st1 = q" "sent (st_tls st1) = sent (st_tls st)"
      "st_nft_arr st1 = st_nft_arr st" "ctx_conf (st_ctx st1) = conf" "ctx_client_ip_buf (st_ctx st1) = ctx_client_ip_buf c"
      "wf_buf (ctx_file_path (st_ctx st1))" "cap (ctx_file_path (st_ctx st1)) = 1024" "ctx_file_len (st_ctx st1) = 0"
    and "req_path q = Some 0" "req_path_n q = length (path_of u)" "rd_n (req_uri q) 0 (length (path_of u)) = Some (path_of u)"
      "NUL \<notin> set (path_of u)" "length (path_of u) \<le> 4085"
proof -
  have cd: "field_is (conf_domain (ctx_conf c)) 128 domain" using conf(1,2) by simp
  note p = serve_parses [OF T c(1,3,4) cd conf(3) read req]
  obtain b where b: "serve_one E tm st = answer E (st\<lparr>st_tls := w1, st_ctx := c1\<lparr>ctx_req_buf := b\<rparr>, st_http_req := q\<rparr>) tm"
    using p(1) [of tm] by blast
  have u: "length u < 4096" "NUL \<notin> set u" "length u \<le> 1000" using req(2) by (auto simp: req_ok_def)
  have line: "same_line (req_line m u v) q"
    using hdr_fold_same_line [of "req_line m u v" domain "map lower_hdr hs"] req(4) by simp
  have s: "NUL \<notin> set (path_of u)" "length (path_of u) \<le> 4085"
    using u length_takeWhile_le [of "\<lambda>c. c \<noteq> CHR ''?''" u] by (auto simp: path_of_def dest: set_takeWhileD)
  from p(2,3) conf(1) c(2,5) request_path [OF line u(1)] s show ?thesis
    by (intro that [OF b]) (simp_all add: same_conn_def conn_inv_def conn_ok_def)
qed

lemma find_sub_end: "find_sub x (y @ x) \<noteq> None"
  by (induction y) (cases x, simp_all)

lemma wf_buf_lit: "wf_buf \<lparr>bytes = s, cap = n\<rparr> \<longleftrightarrow> length s \<le> n"
  by (simp add: wf_buf_def)

text \<open>A request that arrives in one piece is read at once.\<close>

lemma read_whole:
  assumes c: "pending c []" and r: "ssl_read T w 8191 = (int (length s), s, w1)"
    and s: "s \<noteq> []" "length s < 8191" "find_sub crlf2 s \<noteq> None"
  shows "\<exists>c1. net_443_read T w c = Some (1, c1, w1)"
proof -
  let ?b = "ctx_req_buf c"
  have b: "wf_buf ?b" "cap ?b = 8192" "ctx_acc_read_n c = 0" using c by (simp_all add: pending_def buf_has_def)
  obtain b1 where b1: "wr ?b 0 s = Some b1" using wr_defined [of ?b 0 s] b(2) s(2) by auto
  have h1: "holds b1 0 s" "cap b1 = 8192" using holds_wr [OF b1] b(2) wr_SomeD(2) [OF b1] by simp_all
  obtain q where q: "find_sub crlf2 s = Some q" using s(3) by blast
  have m: "memmem b1 0 (length s) crlf2 = Some (map_option ((+) 0) (find_sub crlf2 s))"
    by (rule memmem_holds [OF crlf2_simps h1(1)]) (use s(2) h1(2) in simp)
  obtain b2 where "wr b1 (length s) [NUL] = Some b2" using wr_defined [of b1 "length s" "[NUL]"] s(2) h1(2) by auto
  then have "read_loop T w c 0 = Some (1, SSL_ERROR_NONE, c\<lparr>ctx_req_buf := b2, ctx_acc_read_n := 0\<rparr>, w1)"
    using r b1 s(1,2) m q by (subst read_loop.simps) (simp add: Let_def)
  then show ?thesis using b(3) by (simp add: net_443_read_def)
qed

section \<open>An instance: a client that takes every byte\<close>

type_synonym sink = "string \<times> string \<times> string"

definition sink_tls :: "sink tls" where
  "sink_tls = \<lparr>ssl_read = (\<lambda>(i, g, s) n. if i = [] then (-1, [], (i, g, s))
       else (int (length (take n i)), take n i, (drop n i, g @ take n i, s))),
     ssl_write = (\<lambda>(i, g, s) x. (int (length x), (i, g, s @ x))), ssl_get_error = (\<lambda>w r. SSL_ERROR_WANT_READ)\<rparr>"

definition sink_env :: "sink env" where
  "sink_env = \<lparr>env_tls = sink_tls, env_ssl_new = True, env_ssl_accept = (\<lambda>w. (1, w)), env_ktls = (True, True),
     env_time = Some example_tm, env_time_text = ''20260102030405'', env_ip_text = (\<lambda>ip. ''::1''),
     env_stat = (\<lambda>p. if p = ''/srv/www//a.css'' then Some 4 else None),
     env_realpath = (\<lambda>p. if p = ''/srv/www//a.css'' then Some ''/srv/www/a.css'' else None),
     env_open_stat = (\<lambda>p. if p = ''/srv/www/a.css'' then Some (Some (7, 4)) else None),
     env_open_read = (\<lambda>p. if p = ''/srv/www/a.css'' then Some ''body''
       else if p = err_page_path then Some ''<p>%d: %d %s</p>'' else None)\<rparr>"

definition sink_st :: "string \<Rightarrow> sink fws_state" where
  "sink_st text = \<lparr>st_ctx = idle_ctx\<lparr>ctx_conf := (example_conf ''text/plain'')\<lparr>conf_web_root := \<lparr>bytes = ''/srv'', cap = 128\<rparr>,
       conf_lim_page := 9, conf_lim_res := 9\<rparr>, ctx_client_ip_buf := replicate 16 1\<rparr>,
     st_nft_arr = nft_clear, st_pipe = [], st_log_flag = 0, st_http_req = zero_http_req, st_tls = (text, [], [])\<rparr>"

lemma sink_ok: "tls_ok (env_tls sink_env) (\<lambda>w. fst (snd w)) (\<lambda>w. snd (snd w))" "patient (env_tls sink_env) (\<lambda>w. 0)"
    "realpath_ok (env_realpath sink_env)"
  by (auto simp: sink_env_def sink_tls_def tls_ok_def patient_def realpath_ok_def split: if_splits)

lemma sink_limit: "fst (nft_request (ctx_conf (st_ctx (sink_st x))) (ctx_client_ip_buf (st_ctx (sink_st x))) page
     (st_nft_arr (sink_st x))) = Serve"
proof -
  let ?c = "st_ctx (sink_st x)"
  have n: "narrow (ctx_conf ?c)" "within (ctx_conf ?c) [page]"
    by (simp_all add: narrow_def within_def sink_st_def)
  have "valid_ip (ctx_client_ip_buf ?c)" "st_nft_arr (sink_st x) = nft_clear"
    by (simp_all add: sink_st_def valid_ip_def empty_ip_buf_def)
  then show ?thesis
    using next_verdict [OF n(1), of "[]" "ctx_client_ip_buf ?c" page] n(2) by (simp add: nft_arr_cap_def)
qed

lemma sink_file:
  "candidate (env_stat sink_env) (uri_code ''/a.css'' = 1) (sub_root ''/srv'' ''www'' @ CHR ''/'' # url_decode ''/a.css'') =
     Some (''/srv/www//a.css'', int (length ''body''))"
  "file_answer (env_stat sink_env) (env_realpath sink_env) (sub_root ''/srv'' ''www'') ''/a.css'' = 0"
proof -
  have d: "url_decode ''/a.css'' = ''/a.css''" by (simp add: url_decode_plain url_decode_short)
  have u: "uri_code ''/a.css'' = 0" by (simp add: uri_code_def uri_cut_def suffix_def)
  show c: "candidate (env_stat sink_env) (uri_code ''/a.css'' = 1) (sub_root ''/srv'' ''www'' @ CHR ''/'' # url_decode ''/a.css'') =
      Some (''/srv/www//a.css'', int (length ''body''))"
    by (simp add: candidate_def d u sub_root_def sink_env_def)
  then show "file_answer (env_stat sink_env) (env_realpath sink_env) (sub_root ''/srv'' ''www'') ''/a.css'' = 0"
    by (simp add: file_answer_def u sub_root_def sink_env_def)
qed

text \<open>The requests of the instance: a path under the host \<open>www.a.io\<close>.\<close>

definition sink_hs :: "(string \<times> string) list" where
  "sink_hs = [(''Host'', ''www.a.io'')]"

definition sink_req :: "string \<Rightarrow> string" where
  "sink_req u = req_text ''GET'' u ''HTTP/1.1'' sink_hs"

definition sink_q :: "string \<Rightarrow> fws_http_req" where
  "sink_q u = (req_line ''GET'' u ''HTTP/1.1'')\<lparr>req_subdomain := \<lparr>bytes = ''www'' @ [NUL], cap = 64\<rparr>\<rparr>"

lemma sink_fields: "field_is (req_subdomain (sink_q u)) 64 ''www''" "tag_is (req_etag (sink_q u)) []"
    "cstr (req_origin (sink_q u)) 0 = Some []"
  using cstr_lit [of "''www''" 64]
  by (simp_all add: sink_q_def field_is_def tag_is_def wf_buf_lit req_line_def uri_split_def Let_def)

lemma sink_fold: "hdr_fold ''a.io'' (map lower_hdr sink_hs) (req_line ''GET'' u ''HTTP/1.1'') = Some (0, sink_q u)"
proof -
  have k: "hdr_key ''host'' = Some HOST" by (simp add: hdr_key_def keyword_def)
  have low: "lower_hdr (''Host'', ''www.a.io'') = (''host'', ''www.a.io'')"
    by (simp add: lower_hdr_def tolower_def eval_simps)
  show ?thesis
    using k put_str_zbuf [of "''www''" 64] unfolding sink_hs_def sink_q_def list.map low
    by (simp add: hdr_set_def host_text_def req_line_def uri_split_def Let_def unset_def)
qed

lemma sink_conn: "pending (st_ctx (sink_st x)) []" "conn_inv ''/srv'' SSL_STATUS_ACCEPT (st_ctx (sink_st x))"
    "field_is (conf_web_root (ctx_conf (st_ctx (sink_st x)))) 128 ''/srv''"
    "field_is (conf_domain (ctx_conf (st_ctx (sink_st x)))) 128 ''a.io''"
  using idle_pending
  by (simp_all add: conn_inv_def conn_ok_def pending_def buf_has_def sink_st_def idle_ctx_def field_is_def wf_buf_lit cstr_bytes
      example_conf_def exI [of _ "[]"])

lemma sink_request:
  assumes "set u \<inter> {CHR '' '', CR, NUL} = {}" "length u \<le> 100"
  shows "req_ok ''a.io'' ''GET'' u ''HTTP/1.1'' sink_hs" "length (sink_req u) \<le> 8063"
    "\<exists>c1. net_443_read (env_tls sink_env) (st_tls (sink_st (sink_req u))) (st_ctx (sink_st (sink_req u))) =
      Some (1, c1, ([], sink_req u, []))"
proof -
  have len: "length (sink_req u) \<le> 200" "sink_req u \<noteq> []"
    using assms(2) by (simp_all add: sink_req_def sink_hs_def req_text_def hdr_text_def)
  then show "length (sink_req u) \<le> 8063" by simp
  show "req_ok ''a.io'' ''GET'' u ''HTTP/1.1'' sink_hs"
    using assms example_headers(1,2) len(1) by (auto simp: req_ok_def sink_hs_def sink_req_def)
  have "sink_req u = (''GET '' @ u @ '' HTTP/1.1'' @ [CR, LF] @ ''Host: www.a.io'') @ crlf2"
    by (simp add: sink_req_def sink_hs_def req_text_def hdr_text_def crlf2_def)
  then have sub: "find_sub crlf2 (sink_req u) \<noteq> None" by (simp only: find_sub_end not_False_eq_True)
  have r: "ssl_read (env_tls sink_env) (st_tls (sink_st (sink_req u))) 8191 =
      (int (length (sink_req u)), sink_req u, ([], sink_req u, []))"
    using len by (auto simp: sink_env_def sink_tls_def sink_st_def)
  show "\<exists>c1. net_443_read (env_tls sink_env) (st_tls (sink_st (sink_req u))) (st_ctx (sink_st (sink_req u))) =
      Some (1, c1, ([], sink_req u, []))"
    using read_whole [OF sink_conn(1) r len(2) _ sub] len(1) by simp
qed

definition sink_page :: "s32 \<Rightarrow> string" where
  "sink_page code = ''<p>'' @ dec_int (fst (err_msg code)) @ '': '' @ dec_int (fst (err_msg code)) @ '' '' @
     snd (err_msg code) @ ''</p>''"

lemma sink_page: "page_is sink_env sink_page"
proof -
  have m: "err_msg code \<in> set http_msg" for code
    by (auto simp: err_msg_def http_msg_def split: option.split dest!: find_Some_iff [THEN iffD1])
  have "0 \<le> fst m \<and> nat (fst m) < 10 ^ 3 \<and> length (snd m) \<le> 40" if "m \<in> set http_msg" for m
    using that by (auto simp: http_msg_def)
  note b = this [OF m]
  have d: "length (dec_int (fst (err_msg code))) \<le> 3" for code
    using b [of code] length_dec_bound [of "nat (fst (err_msg code))" 3] by (simp add: dec_int_def not_less)
  have "length (sink_page code) < 2 ^ 64" for code
  proof -
    have "length (sink_page code) \<le> 60" using b [of code] d [of code] by (simp add: sink_page_def)
    then show ?thesis by (rule order_le_less_trans) simp
  qed
  moreover have "fmt ''<p>%d: %d %s</p>'' [AInt (fst (err_msg code)), AInt (fst (err_msg code)), AStr (snd (err_msg code))] =
      Some (sink_page code)" for code
    by (simp add: eval_simps sink_page_def)
  ultimately show ?thesis
    by (simp add: page_is_def sink_env_def err_page_path_def sink_page_def)
qed

end
