(* ===== verification/Resume.thy ===== *)
theory Resume
  imports Handler_Inv
begin

text \<open>
  The body of an answer when the connection cannot take it at once: \<open>_fws_443_run\<close> returns 1 with
  \<open>want_write\<close> set, the event loop calls it again, and it goes on at the label \<open>write\<close>.  Here over
  any number of calls of the handler; \<open>Net_443\<close> has the single transfer.  And a call that serves several
  requests before the peer falls silent.
\<close>

section \<open>A pass at the label write\<close>

text \<open>
  The file \<open>name\<close> with \<open>content\<close> is under way: after \<open>base\<close>, its first \<open>k\<close> bytes have been accepted, and the
  handler will go on from there.
\<close>

definition transferring ::
  "('w \<Rightarrow> string) \<Rightarrow> string \<Rightarrow> string \<Rightarrow> string \<Rightarrow> nat \<Rightarrow> 'w fws_state \<Rightarrow> bool" where
  "transferring sent name base content k st \<longleftrightarrow>
     ctx_ssl_status (st_ctx st) = SSL_STATUS_ACCEPT \<and> ctx_want_write (st_ctx st) = 1 \<and>
     cstr (ctx_file_path (st_ctx st)) 0 = Some name \<and> ctx_file_len (st_ctx st) = int k \<and>
     k \<le> length content \<and> sent (st_tls st) = base @ take k content"

lemma write_file_pass:
  assumes T: "tls_ok (env_tls E) got sent" "patient (env_tls E) left"
    and f: "env_open_read E name = Some content" "length content < 2 ^ 31"
    and t: "transferring sent name base content k st"
  obtains (whole) st' where "write_file E st = Some (Again st')" "sent (st_tls st') = base @ content"
      "ctx_want_write (st_ctx st') = 0" "ctx_file_len (st_ctx st') = 0"
  | (part) st' k' where "write_file E st = Some (Out 1 st')" "transferring sent name base content k' st'" "k \<le> k'"
      "left (st_tls st') < left (st_tls st)" "st_http_req st' = st_http_req st"
proof -
  note t = t [unfolded transferring_def]
  let ?c = "(st_ctx st)\<lparr>ctx_want_write := 0\<rparr>"
  obtain ret c' w' where r: "net_443_file_write (env_tls E) (env_open_read E) (st_tls st) ?c name = (ret, c', w')"
    by (cases "net_443_file_write (env_tls E) (env_open_read E) (st_tls st) ?c name")
  have c: "ctx_file_len ?c = int k" "k \<le> length content" using t by simp_all
  obtain n where n: "k \<le> n" "n \<le> length content" "sent w' = sent (st_tls st) @ take (n - k) (drop k content)"
    "ret = 0 \<and> n = length content \<and> ctx_file_len c' = 0
      \<or> ret = 1 \<and> n < length content \<and> ctx_file_len c' = int n
      \<or> ret = -1 \<and> ctx_file_len c' = 0"
    using net_443_file_write_is [where open_read = "env_open_read E" and path = name, OF T(1) f c r] by blast
  have "(if 0 < ctx_file_len ?c then nat (ctx_file_len ?c) else 0) = k" using c by simp
  moreover have "to_s32 (int k) = int k" by (rule to_s32_id) (use c(2) f(2) in auto)
  ultimately have "file_loop (env_tls E) (st_tls st) ?c content k = (ret, c', w')"
    using r f(1) unfolding net_443_file_write_def Let_def by simp
  note p = patient_loop [OF T(2) this]
  obtain e m where fr: "c' = ?c\<lparr>ctx_events := e, ctx_file_len := m\<rparr>" using file_write_frame [OF r] by blast
  have s: "sent w' = base @ take n content"
    using n(1,3) t by (metis append.assoc append_take_drop_id le_add_diff_inverse take_add)
  have run: "write_file E st = (if ret = 1 then Some (Out 1 (with_ctx st (c'\<lparr>ctx_want_write := 1\<rparr>) w'))
      else Some (Again (with_ctx st c' w')))"
    using t r by (simp add: write_file_def)
  from p show ?thesis
  proof
    assume "ret = 0"
    with run n(4) s fr whole [of "with_ctx st c' w'"] show ?thesis by auto
  next
    assume "ret = 1 \<and> left w' < left (st_tls st)"
    with run n s fr t part [of "with_ctx st (c'\<lparr>ctx_want_write := 1\<rparr>) w'" n] show ?thesis
      by (auto simp: transferring_def)
  qed
qed

section \<open>Calls of the handler\<close>

text \<open>The start of a call of the handler on an accepted connection.\<close>

definition begun :: "'w env \<Rightarrow> 'w fws_state \<Rightarrow> 'w fws_state" where
  "begun E st = ktls_flags E (st\<lparr>st_log_flag := 0, st_http_req := zero_http_req\<rparr>)"

lemma begun_simps [simp]: "st_ctx (begun E st) = st_ctx st" "st_tls (begun E st) = st_tls st"
    "st_http_req (begun E st) = zero_http_req" "transferring sent name base content k (begun E st) = transferring sent name base content k st"
  by (simp_all add: begun_def transferring_def ktls_flags_def log_flag_set_def Let_def)

lemma pending_call:
  assumes "transferring sent name base content k st" "env_time E = Some tm"
  shows "fws_443_run E (Suc n) st = do {
      p \<leftarrow> write_file E (begun E st);
      case p of Out ret s \<Rightarrow> map_option Some (finish E ret s)
      | Again s \<Rightarrow> do {
          p \<leftarrow> serve E tm n s;
          case p of Again _ \<Rightarrow> Some None | Out ret st \<Rightarrow> map_option Some (finish E ret st)
        }
    }"
    and "serve_one E tm (begun E st) = write_file E (begun E st)"
proof -
  note t = assms(1) [unfolded transferring_def]
  have k: "ctx_want_write (st_ctx (ktls_flags E (st\<lparr>st_log_flag := 0, st_http_req := zero_http_req\<rparr>))) = 1"
    using t by simp
  show s: "serve_one E tm (begun E st) = write_file E (begun E st)" using t by (simp add: serve_one_def)
  show "fws_443_run E (Suc n) st = do {
      p \<leftarrow> write_file E (begun E st);
      case p of Out ret s \<Rightarrow> map_option Some (finish E ret s)
      | Again s \<Rightarrow> do {
          p \<leftarrow> serve E tm n s;
          case p of Again _ \<Rightarrow> Some None | Out ret st \<Rightarrow> map_option Some (finish E ret st)
        }
    }"
    using t assms(2) s
    by (cases "write_file E (begun E st)") (auto simp: fws_443_run_def accept_tls_def Let_def begun_def split: pass.split)
qed

lemma finish_waiting:
  assumes "transferring sent name base content k st" "st_http_req st = zero_http_req"
  obtains pipe where "finish E 1 st = Some (1, st\<lparr>st_pipe := pipe\<rparr>, False)"
proof -
  have z: "cstr (zbuf n) 0 = Some []" if "0 < n" for n using that by simp
  note l = log_line_is [of zero_http_req "[]" "[]" "[]" "[]" "[]" "[]" "[]"
    "env_ip_text E (ctx_client_ip_buf (st_ctx st))" "env_time_text E" "st_log_flag st"]
  obtain m where "log_line (env_ip_text E (ctx_client_ip_buf (st_ctx st))) (env_time_text E) (st_log_flag st) zero_http_req = Some m"
    using l by (simp add: z Let_def)
  then have m: "finish E 1 st = Some (1, case m of None \<Rightarrow> st | Some m \<Rightarrow> st\<lparr>st_pipe := st_pipe st @ [m]\<rparr>, False)"
    using assms by (simp add: finish_def transferring_def)
  show ?thesis
    by (rule that [of "case m of None \<Rightarrow> st_pipe st | Some m \<Rightarrow> st_pipe st @ [m]"]) (use m in \<open>simp split: option.split\<close>)
qed

text \<open>The state after \<open>j\<close> calls of which each returned 1, that is has left the connection open to go on.\<close>

primrec after_calls :: "'w env \<Rightarrow> nat \<Rightarrow> nat \<Rightarrow> 'w fws_state \<Rightarrow> 'w fws_state option" where
  "after_calls E n 0 st = Some st"
| "after_calls E n (Suc j) st =
     (case fws_443_run E n st of Some (Some (ret, st', closed)) \<Rightarrow>
        if ret = 1 \<and> \<not> closed then after_calls E n j st' else None
      | _ \<Rightarrow> None)"

lemma transfer_calls:
  assumes T: "tls_ok (env_tls E) got sent" "patient (env_tls E) left"
    and f: "env_open_read E name = Some content" "length content < 2 ^ 31" and tm: "env_time E = Some tm" and n: "0 < n"
  shows "transferring sent name base content k st \<Longrightarrow>
    \<exists>j st1 st2. j \<le> left (st_tls st) \<and> after_calls E n j st = Some st1 \<and>
      serve_one E tm (begun E st1) = Some (Again st2) \<and> sent (st_tls st2) = base @ content \<and>
      ctx_want_write (st_ctx st2) = 0 \<and> ctx_file_len (st_ctx st2) = 0 \<and>
      (\<forall>i \<le> j. \<exists>si ki. after_calls E n i st = Some si \<and> k \<le> ki \<and> transferring sent name base content ki si)"
proof (induction "left (st_tls st)" arbitrary: st k rule: less_induct)
  case less
  note call = pending_call [OF less.prems tm]
  have b: "transferring sent name base content k (begun E st)" using less.prems by simp
  from T f b show ?case
  proof (cases rule: write_file_pass)
    case (whole st')
    then show ?thesis
      using call(2) less.prems by (intro exI [of _ 0] exI [of _ st] exI [of _ st']) auto
  next
    case (part st' k')
    obtain pipe where fin: "finish E 1 st' = Some (1, st'\<lparr>st_pipe := pipe\<rparr>, False)"
      using finish_waiting [OF part(2)] part(5) by auto
    let ?st = "st'\<lparr>st_pipe := pipe\<rparr>"
    have run: "fws_443_run E n st = Some (Some (1, ?st, False))"
      using call(1) [of "n - 1"] n part(1) fin by simp
    have t: "transferring sent name base content k' ?st" using part(2) by (simp add: transferring_def)
    from less.hyps [OF _ t] part(4) obtain j st1 st2 where
      j: "j \<le> left (st_tls ?st)" "after_calls E n j ?st = Some st1" "serve_one E tm (begun E st1) = Some (Again st2)"
        "sent (st_tls st2) = base @ content" "ctx_want_write (st_ctx st2) = 0" "ctx_file_len (st_ctx st2) = 0"
      and i: "\<forall>i \<le> j. \<exists>si ki. after_calls E n i ?st = Some si \<and> k' \<le> ki \<and> transferring sent name base content ki si"
      by auto
    have "\<exists>si ki. after_calls E n i st = Some si \<and> k \<le> ki \<and> transferring sent name base content ki si" if "i \<le> Suc j" for i
    proof (cases i)
      case 0
      then show ?thesis using less.prems by auto
    next
      case (Suc l)
      with i that part(3) run show ?thesis by (auto dest!: spec [of _ l] intro: order_trans)
    qed
    then show ?thesis
      using j run part(4) by (intro exI [of _ "Suc j"] exI [of _ st1] exI [of _ st2]) auto
  qed
qed

section \<open>A call that serves several requests\<close>

text \<open>What a pass of the loop leaves alone when the loop goes on.\<close>

definition kept :: "'w fws_state \<Rightarrow> 'w fws_state \<Rightarrow> bool" where
  "kept st s \<longleftrightarrow> st_pipe s = st_pipe st \<and> st_log_flag s = st_log_flag st \<and>
     ctx_ssl_status (st_ctx s) = ctx_ssl_status (st_ctx st) \<and>
     ctx_client_ip_buf (st_ctx s) = ctx_client_ip_buf (st_ctx st) \<and>
     (text_inv (st_http_req st) \<longrightarrow> text_inv (st_http_req s))"

definition pass_kept :: "'w fws_state \<Rightarrow> 'w pass \<Rightarrow> bool" where
  "pass_kept st p \<longleftrightarrow> (case p of Out _ _ \<Rightarrow> True | Again s \<Rightarrow> kept st s \<and> ctx_want_write (st_ctx s) \<noteq> 1)"

lemma pass_kept_simps [simp]: "pass_kept st (Out r s)"
    "pass_kept st (Again s) = (kept st s \<and> ctx_want_write (st_ctx s) \<noteq> 1)"
  by (simp_all add: pass_kept_def)

lemma kept_simps [simp]:
  "kept st (s\<lparr>st_nft_arr := a\<rparr>) = kept st s"
  "kept st (s\<lparr>st_ctx := (st_ctx s)\<lparr>ctx_file_path := b\<rparr>\<rparr>) = kept st s"
  by (simp_all add: kept_def)

lemma kept_with_ctx: "kept st s \<Longrightarrow> ctx_ssl_status c = ctx_ssl_status (st_ctx s) \<Longrightarrow>
    ctx_client_ip_buf c = ctx_client_ip_buf (st_ctx s) \<Longrightarrow> kept st (with_ctx s c w)"
  by (simp add: kept_def with_ctx_def)

lemma write_file_kept: "kept st s \<Longrightarrow> pred_option (pass_kept st) (write_file E s)"
  unfolding write_file_def Let_def
  by (intro pred_rules) (auto dest!: file_write_frame intro!: kept_with_ctx)

lemma answer_error_kept:
  "pred_option (\<lambda>(ret, s'). (kept st s \<longrightarrow> kept st s') \<and> ctx_want_write (st_ctx s') = ctx_want_write (st_ctx s)) (answer_error E s code)"
  using answer_error_inv [of s E code]
  by (cases "answer_error E s code") (auto intro!: kept_with_ctx)

lemma answer_file_kept: "kept st s \<Longrightarrow> pred_option (pass_kept st) (answer_file E s tm f)"
  unfolding answer_file_def Let_def
  apply (intro pred_rules)
         apply simp_all
  apply (rule write_file_kept)
  by (auto dest!: pred_SomeD [OF res_write_frame] intro!: kept_with_ctx)

lemma answer_limited_kept:
  assumes "kept st s" "ctx_want_write (st_ctx s) \<noteq> 1"
  shows "pred_option (pass_kept st) (answer_limited E s tm code is_html f)"
  unfolding answer_limited_def Let_def
  apply (intro pred_rules)
  apply (split verdict.split)
  apply (intro conjI allI impI pred_rules)
  apply (use assms in \<open>auto dest!: pred_SomeD [OF answer_error_kept [of st]] intro!: answer_file_kept split: if_splits\<close>)
  done

lemma answer_kept:
  assumes "kept st s" "ctx_want_write (st_ctx s) \<noteq> 1"
  shows "pred_option (pass_kept st) (answer E s tm)"
  unfolding answer_def Let_def
  by (intro pred_rules) (use assms in \<open>simp_all add: answer_limited_kept\<close>)

lemma serve_one_kept: "pred_option (pass_kept st) (serve_one E tm st)"
proof (cases "ctx_want_write (st_ctx st) = 1")
  case True
  then show ?thesis using write_file_kept [of st st E] by (simp add: serve_one_def kept_def)
next
  case False
  show ?thesis
    unfolding serve_one_def Let_def if_not_P [OF False]
    apply (intro pred_rules)
       apply simp_all
    apply (rule answer_kept)
    using False by (auto simp: kept_def with_ctx_def same_conn_def req_inv_def dest!: pred_SomeD [OF read_frame] pred_SomeD [OF net_http_req_parse_inv])
qed


text \<open>A peer that has nothing more to say for now.\<close>

definition silent :: "'w tls \<Rightarrow> 'w \<Rightarrow> bool" where
  "silent T w \<longleftrightarrow> (\<forall>n. case ssl_read T w n of (r, d, w') \<Rightarrow> r \<le> 0 \<and> ssl_get_error T w' r = SSL_ERROR_WANT_READ)"

lemma read_silent:
  assumes "silent T w" "tls_ok T got sent"
  obtains c' w' where "net_443_read T w c = Some (0, c', w')" "sent w' = sent w" "got w' = got w"
proof -
  let ?n = "if ctx_acc_read_n c \<noteq> 0 then nat (ctx_acc_read_n c) else 0"
  obtain r d w' where r: "ssl_read T w (8192 - ?n - 1) = (r, d, w')" using prod_cases3 by blast
  then have q: "r \<le> 0" "ssl_get_error T w' r = SSL_ERROR_WANT_READ"
    using assms(1) by (auto simp: silent_def dest: spec [of _ "8192 - ?n - 1"])
  then have "read_loop T w c ?n = Some (0, SSL_ERROR_WANT_READ, c\<lparr>ctx_events := EPOLLIN, ctx_acc_read_n := int ?n\<rparr>, w')"
    using r by (subst read_loop.simps) (simp add: Let_def)
  then have "\<exists>c'. net_443_read T w c = Some (0, c', w')" by (simp add: net_443_read_def)
  moreover have "sent w' = sent w" "got w' = got w" using tls_readD [OF assms(2) r] q(1) by auto
  ultimately show ?thesis using that by blast
qed

lemma text_inv_log:
  assumes "text_inv q" shows "\<exists>m. log_line ip time flag q = Some m"
proof -
  obtain v m sub u l os br where "cstr (req_version q) 0 = Some v" "cstr (req_method q) 0 = Some m"
    "cstr (req_subdomain q) 0 = Some sub" "cstr (req_uri q) 0 = Some u" "cstr (req_lang q) 0 = Some l"
    "cstr (req_os q) 0 = Some os" "cstr (req_browser q) 0 = Some br"
    using assms by (auto simp: text_inv_def)
  from log_line_is [OF this] show ?thesis by (simp add: Let_def)
qed

lemma kept_trans: "kept st s \<Longrightarrow> kept s s' \<Longrightarrow> kept st s'"
  by (simp add: kept_def)

lemma serve_kept:
  "serve E tm k st = Some (Again s) \<Longrightarrow> kept st s \<and>
     (0 < k \<or> ctx_want_write (st_ctx st) \<noteq> 1 \<longrightarrow> ctx_want_write (st_ctx s) \<noteq> 1)"
proof (induction k arbitrary: st)
  case 0
  then show ?case by (simp add: kept_def)
next
  case (Suc k)
  obtain p where p: "serve_one E tm st = Some p" using Suc.prems by (auto simp: Option.bind_eq_Some_conv)
  with Suc.prems obtain s1 where s1: "p = Again s1" "serve E tm k s1 = Some (Again s)" by (cases p) auto
  then have "kept st s1" "ctx_want_write (st_ctx s1) \<noteq> 1" using pred_SomeD [OF serve_one_kept p] by simp_all
  with Suc.IH [OF s1(2)] kept_trans show ?case by blast
qed

lemma serve_add: "serve E tm k st = Some (Again s) \<Longrightarrow> serve E tm (k + n) st = serve E tm n s"
proof (induction k arbitrary: st)
  case (Suc k)
  obtain p where p: "serve_one E tm st = Some p" using Suc.prems by (auto simp: Option.bind_eq_Some_conv)
  with Suc show ?case by (cases p) auto
qed simp

lemma handler_waits:
  assumes T: "tls_ok (env_tls E) got sent" and st: "ctx_ssl_status (st_ctx st) = SSL_STATUS_ACCEPT" "env_time E = Some tm"
      "0 < k \<or> ctx_want_write (st_ctx st) \<noteq> 1"
    and pass: "serve E tm k (begun E st) = Some (Again s)" "silent (env_tls E) (st_tls s)" "k < n"
  shows "\<exists>st' line. fws_443_run E n st = Some (Some (1, st', False)) \<and>
    sent (st_tls st') = sent (st_tls s) \<and> got (st_tls st') = got (st_tls s) \<and> st_nft_arr st' = st_nft_arr s \<and>
    log_line (env_ip_text E (ctx_client_ip_buf (st_ctx st))) (env_time_text E) (st_log_flag (begun E st)) (st_http_req s) = Some line \<and>
    st_pipe st' = st_pipe st @ (case line of None \<Rightarrow> [] | Some m \<Rightarrow> [m])"
proof -
  have z: "text_inv zero_http_req" by (simp add: text_inv_def)
  have q: "st_pipe (begun E st) = st_pipe st" by (simp add: begun_def ktls_flags_def log_flag_set_def Let_def)
  have k: "st_pipe s = st_pipe st" "st_log_flag s = st_log_flag (begun E st)" "ctx_ssl_status (st_ctx s) = SSL_STATUS_ACCEPT"
      "ctx_client_ip_buf (st_ctx s) = ctx_client_ip_buf (st_ctx st)" "text_inv (st_http_req s)" "ctx_want_write (st_ctx s) \<noteq> 1"
    using serve_kept [OF pass(1)] st(1,3) z by (simp_all add: kept_def q)
  obtain c w where r: "net_443_read (env_tls E) (st_tls s) (st_ctx s) = Some (0, c, w)" "sent w = sent (st_tls s)" "got w = got (st_tls s)"
    using read_silent [OF pass(2) T] by metis
  have "same_conn (st_ctx s) c" using pred_SomeD [OF read_frame r(1)] by simp
  then have c: "ctx_ssl_status c = SSL_STATUS_ACCEPT" "ctx_client_ip_buf c = ctx_client_ip_buf (st_ctx st)"
    using k by (simp_all add: same_conn_def)
  have "serve E tm (Suc m) s = Some (Out 1 (with_ctx s c w))" for m using r(1) k(6) by (simp add: serve_one_def)
  moreover obtain m where m: "n = k + Suc m" using pass(3) less_iff_Suc_add by auto
  ultimately have run: "serve E tm n (begun E st) = Some (Out 1 (with_ctx s c w))"
    using serve_add [OF pass(1), of "Suc m"] by simp
  obtain line where l: "log_line (env_ip_text E (ctx_client_ip_buf (st_ctx st))) (env_time_text E) (st_log_flag (begun E st))
      (st_http_req s) = Some line"
    using text_inv_log [OF k(5)] by blast
  let ?st = "case line of None \<Rightarrow> with_ctx s c w | Some m \<Rightarrow> (with_ctx s c w)\<lparr>st_pipe := st_pipe s @ [m]\<rparr>"
  have "finish E 1 (with_ctx s c w) = Some (1, ?st, False)"
    using c k l by (simp add: finish_def split: option.split)
  then have "fws_443_run E n st = Some (Some (1, ?st, False))"
    using st run by (simp add: fws_443_run_def accept_tls_def Let_def begun_def)
  then show ?thesis using l r(2,3) k(1) by (intro exI [of _ ?st] exI [of _ line]) (simp split: option.split)
qed

section \<open>Properties\<close>

text \<open>
  C3. An interrupted answer, over calls of the handler: with a TLS library that refuses only finitely many
  writes, a transfer under way is finished after at most as many further calls as refusals are left.
  Each of these calls returns 1 and leaves the connection open, with a front part of the file
  sent and the place to go on; the next pass sends the rest, so that the client gets
  the file once and whole, and the connection is ready for the next request.
\<close>

theorem transfer_resumed:
  assumes "tls_ok (env_tls E) got sent" "patient (env_tls E) left" "env_time E = Some tm" "0 < n"
    and "env_open_read E name = Some content" "length content < 2 ^ 31"
    and "transferring sent name base content k st"
  shows "\<exists>j st1 st2. j \<le> left (st_tls st) \<and> after_calls E n j st = Some st1 \<and>
      serve_one E tm (begun E st1) = Some (Again st2) \<and> sent (st_tls st2) = base @ content \<and>
      ctx_want_write (st_ctx st2) = 0 \<and> ctx_file_len (st_ctx st2) = 0 \<and>
      (\<forall>i \<le> j. \<exists>si ki. after_calls E n i st = Some si \<and> k \<le> ki \<and> transferring sent name base content ki si)"
  by (rule transfer_calls [OF assms(1,2,5,6,3,4,7)])

definition example_transfer :: "script fws_state" where
  "example_transfer = (example_st [])\<lparr>st_ctx := (st_ctx (example_st []))\<lparr>ctx_want_write := 1, ctx_file_len := 1,
      ctx_file_path := \<lparr>bytes = ''/srv/www/a.css'', cap = 1024\<rparr>\<rparr>, st_tls := (2, [], ''b'', [])\<rparr>"

theorem transfer_resumed_witness:
  "\<exists>j st1 st2. j \<le> 2 \<and> after_calls example_env 1 j example_transfer = Some st1 \<and>
     serve_one example_env example_tm (begun example_env st1) = Some (Again st2) \<and> script_sent (st_tls st2) = ''body''"
proof -
  have p: "patient (env_tls example_env) fst" using script_patient by (simp add: example_env_def)
  have t: "transferring script_sent ''/srv/www/a.css'' [] ''body'' 1 example_transfer"
    by (simp add: transferring_def example_transfer_def example_st_def idle_ctx_def cstr_bytes script_sent_def)
  have "env_time example_env = Some example_tm" "env_open_read example_env ''/srv/www/a.css'' = Some ''body''"
    by (simp_all add: example_env_def)
  from transfer_resumed [where n = 1, OF example_tls p this(1) _ this(2) _ t]
  show ?thesis by (simp add: example_transfer_def) blast
qed

text \<open>
  C4. A call of the handler, after \<open>k\<close> passes of its loop that each went on, meets a peer that has nothing more to say for now:
  it returns 1 and leaves the connection open, whatever the passes were about.  What was sent and
  received is what the passes sent and received, the table of counters is theirs, and the pipe gets one
  line at most, with the fields of the last request of the call.
\<close>

theorem requests_of_a_call:
  assumes "tls_ok (env_tls E) got sent" "ctx_ssl_status (st_ctx st) = SSL_STATUS_ACCEPT" "env_time E = Some tm"
    and "serve E tm k (begun E st) = Some (Again s)" "0 < k \<or> ctx_want_write (st_ctx st) \<noteq> 1"
    and "silent (env_tls E) (st_tls s)" "k < n"
  shows "\<exists>st' line. fws_443_run E n st = Some (Some (1, st', False)) \<and>
    sent (st_tls st') = sent (st_tls s) \<and> got (st_tls st') = got (st_tls s) \<and> st_nft_arr st' = st_nft_arr s \<and>
    log_line (env_ip_text E (ctx_client_ip_buf (st_ctx st))) (env_time_text E) (st_log_flag (begun E st)) (st_http_req s) = Some line \<and>
    st_pipe st' = st_pipe st @ (case line of None \<Rightarrow> [] | Some m \<Rightarrow> [m])"
  by (rule handler_waits [OF assms(1-3,5,4,6,7)])

theorem requests_of_a_call_witness:
  "\<exists>st'. fws_443_run example_env 9 (example_transfer\<lparr>st_tls := (0, [], ''b'', [])\<rparr>) = Some (Some (1, st', False)) \<and>
     script_sent (st_tls st') = ''body''"
proof -
  let ?st = "example_transfer\<lparr>st_tls := (0, [], ''b'', [])\<rparr>"
  have p: "patient (env_tls example_env) fst" using script_patient by (simp add: example_env_def)
  have t: "transferring script_sent ''/srv/www/a.css'' [] ''body'' 1 (begun example_env ?st)"
    by (simp add: transferring_def example_transfer_def example_st_def idle_ctx_def cstr_bytes script_sent_def)
  have e: "env_time example_env = Some example_tm" "env_open_read example_env ''/srv/www/a.css'' = Some ''body''"
    by (simp_all add: example_env_def)
  have a: "ctx_ssl_status (st_ctx ?st) = SSL_STATUS_ACCEPT"
    by (simp add: example_transfer_def example_st_def idle_ctx_def)
  have len: "length ''body'' < 2 ^ 31" by simp
  have "\<exists>s. write_file example_env (begun example_env ?st) = Some (Again s) \<and> script_sent (st_tls s) = ''body''"
    using example_tls p e(2) len t
  proof (cases rule: write_file_pass)
    case (whole s)
    then show ?thesis by simp
  next
    case (part s k)
    then show ?thesis by simp
  qed
  then obtain s where s: "write_file example_env (begun example_env ?st) = Some (Again s)" "script_sent (st_tls s) = ''body''" by blast
  have F: "finite_peer example_env script_left" by (rule example_finite)
  have "script_left (st_tls (begun example_env ?st)) \<le> 0" by (simp add: script_left_def)
  from pred_SomeD [OF write_file_ends [OF F this] s(1)] have "script_left (st_tls s) = 0" by simp
  then have q: "silent (env_tls example_env) (st_tls s)"
    by (cases "st_tls s") (auto simp: silent_def script_left_def example_env_def script_tls_def split: list.splits if_splits)
  have "serve example_env example_tm 1 (begun example_env ?st) = Some (Again s)"
    using pending_call(2) [OF t [unfolded begun_simps] e(1)] s(1) by simp
  from requests_of_a_call [OF example_tls a e(1) this _ q, of 9] s(2) show ?thesis by auto
qed

end
