(* ===== verification/Nft.thy ===== *)
theory Nft
  imports Printf
begin

text \<open>
  \<open>src/net_nft.c\<close>: the commands for the packet filter.  \<open>libnftables\<close> is outside the program; a
  function of this file is modelled by its return code and the texts it hands to
  \<open>nft_run_cmd_from_buffer\<close>, in order.  The lines of \<open>/proc/net/route\<close> are an argument.
\<close>

section \<open>Formats with numbered arguments\<close>

text \<open>\<open>%k$d\<close> and \<open>%k$s\<close>: the argument with number \<open>k\<close>.\<close>

fun fmt_pos :: "string \<Rightarrow> arg list \<Rightarrow> string option" where
  "fmt_pos [] as = Some []"
| "fmt_pos (c # f) as =
     (if c \<noteq> CHR ''%'' then map_option (Cons c) (fmt_pos f as)
      else (case f of
          k # d # x # f' \<Rightarrow>
            (let i = (of_char k :: nat) - 49 in
             if d = CHR ''$'' \<and> 49 \<le> (of_char k :: nat) \<and> i < length as then do {
               s \<leftarrow> conv [] x (as ! i);
               t \<leftarrow> fmt_pos f' as;
               Some (s @ t)
             } else None)
        | _ \<Rightarrow> None))"

declare fmt_pos.simps(2) [simp del]

lemma fmt_pos_lit: "c \<noteq> CHR ''%'' \<Longrightarrow> fmt_pos (c # f) as = map_option (Cons c) (fmt_pos f as)"
  by (simp add: fmt_pos.simps)

lemma fmt_pos_text: "CHR ''%'' \<notin> set f \<Longrightarrow> fmt_pos (f @ g) as = map_option ((@) f) (fmt_pos g as)"
proof (induction f)
  case Nil
  then show ?case by (cases "fmt_pos g as") simp_all
next
  case (Cons c f)
  then have "c \<noteq> CHR ''%''" "CHR ''%'' \<notin> set f" by auto
  with Cons.IH show ?case by (cases "fmt_pos g as") (simp_all add: fmt_pos_lit)
qed

lemma fmt_pos_arg:
  assumes "(of_char k :: nat) = 49 + i" "i < length as"
  shows "as ! i = AInt n \<Longrightarrow> fmt_pos (CHR ''%'' # k # CHR ''$'' # CHR ''d'' # f) as =
      map_option ((@) (dec_int n)) (fmt_pos f as)"
    and "as ! i = AStr s \<Longrightarrow> fmt_pos (CHR ''%'' # k # CHR ''$'' # CHR ''s'' # f) as =
      map_option ((@) s) (fmt_pos f as)"
  using assms by (cases "fmt_pos f as"; simp add: fmt_pos.simps(2) conv_def)+

text \<open>A \<open>%d\<close> argument of type \<open>u32\<close> is read as a signed number.\<close>

definition d32 :: "u32 \<Rightarrow> arg" where "d32 w = AInt (sint w)"

text \<open>A \<open>u16\<close> is promoted to \<open>int\<close>.\<close>

definition d16 :: "u16 \<Rightarrow> arg" where "d16 w = AInt (uint w)"

text \<open>The two calls of \<open>snprintf\<close> around \<open>calloc\<close>, and the C string that is run.\<close>

definition cmd_text :: "string \<Rightarrow> string option" where
  "cmd_text s = do {
     (_, b) \<leftarrow> snprintf (zbuf (length s + 1)) 0 (length s + 1) s;
     cstr b 0
   }"

lemma cmd_text_is: "NUL \<notin> set s \<Longrightarrow> cmd_text s = Some s"
  by (simp add: cmd_text_def snprintf_fits text_buf_start text_buf_cstr)

section \<open>The rules\<close>

text \<open>The two formats differ in the name of the tables and the priority of the filter.\<close>

definition nft_fmt :: "string \<Rightarrow> string \<Rightarrow> string" where
  "nft_fmt table prio =
     ''add table netdev '' @ table @ '';'' @ [LF] @
     ''delete table netdev '' @ table @ '';'' @ [LF] @
     ''add table inet '' @ table @ '';'' @ [LF] @
     ''delete table inet '' @ table @ '';'' @ [LF] @
     ''table netdev '' @ table @ '' {'' @ [LF] @
     ''set facows_ban4 {type ipv4_addr; flags timeout;}'' @ [LF] @
     ''set facows_ban6 {type ipv6_addr; flags timeout;}'' @ [LF] @
     ''set facows_flood4 {type ipv4_addr; flags dynamic;}'' @ [LF] @
     ''set facows_flood6 {type ipv6_addr; flags dynamic;}'' @ [LF] @
     ''chain facows_ingress {'' @ [LF] @
     ''type filter hook ingress device '' @ [DQ] @ ''%7$s'' @ [DQ] @ '' priority '' @ prio @ ''; policy accept;'' @ [LF] @
     ''ip saddr @facows_ban4 drop;'' @ [LF] @
     ''ip6 saddr @facows_ban6 drop;'' @ [LF] @
     ''ip protocol tcp tcp dport {%4$d, %5$d %6$s} update @facows_flood4 {ip saddr limit rate over %1$d/second burst %2$d packets} update @facows_ban4 {ip saddr timeout %3$dm} drop;'' @ [LF] @
     ''ip6 nexthdr tcp tcp dport {%4$d, %5$d %6$s} update @facows_flood6 {ip6 saddr limit rate over %1$d/second burst %2$d packets} update @facows_ban6 {ip6 saddr timeout %3$dm} drop;'' @ [LF] @
     ''}'' @ [LF] @ ''}'' @ [LF] @
     ''table inet '' @ table @ '' {'' @ [LF] @
     ''set facows_ports {type inet_service; flags interval; elements={%4$d, %5$d %6$s};}'' @ [LF] @
     ''chain facows_input {'' @ [LF] @
     ''type filter hook input priority 0; policy drop;'' @ [LF] @
     ''iif '' @ [DQ] @ ''lo'' @ [DQ] @ '' accept;'' @ [LF] @
     ''ct state established,related accept;'' @ [LF] @
     ''tcp dport @facows_ports accept;'' @ [LF] @
     ''}'' @ [LF] @ ''}''"

definition nft_init_fmt :: string where "nft_init_fmt = nft_fmt ''facows'' ''-300''"
definition nft_init_test_fmt :: string where "nft_init_test_fmt = nft_fmt ''facows_test'' ''-301''"

definition nft_ports_fmt :: string where
  "nft_ports_fmt = ''add element inet facows facows_ports { %d, %d };''"

definition nft_fini_str :: string where
  "nft_fini_str = ''delete table netdev facows; delete table inet facows;''"
definition nft_fini_test_str :: string where
  "nft_fini_test_str = ''delete table netdev facows_test; delete table inet facows_test;''"
definition nft_fini_ports_fmt :: string where
  "nft_fini_ports_fmt = ''delete element inet facows facows_ports {%d, %d};''"

section \<open>The network interface\<close>

definition route_dst :: string where "route_dst = ''00000000''"

text \<open>\<open>%15s\<close> of \<open>sscanf\<close>: white space is skipped, then up to 15 other bytes are taken.\<close>

definition scan_word :: "string \<Rightarrow> (string \<times> string) option" where
  "scan_word s =
     (let t = dropWhile isspace s; w = take 15 (takeWhile (\<lambda>c. \<not> isspace c) t)
      in if w = [] then None else Some (w, drop (length w) t))"

text \<open>One line: \<open>sscanf(glp, "%15s %15s", net_buf, dst_buf) == 2\<close>, of the C string the line is.\<close>

definition route_line :: "string \<Rightarrow> (string \<times> string) option" where
  "route_line glp = do {
     (net_buf, s) \<leftarrow> scan_word (takeWhile (\<lambda>c. c \<noteq> NUL) glp);
     (dst_buf, _) \<leftarrow> scan_word (dropWhile isspace s);
     Some (net_buf, dst_buf)
   }"

text \<open>The \<open>while\<close> loop over the lines: the first one with destination zero.\<close>

primrec route_scan :: "string list \<Rightarrow> string" where
  "route_scan [] = []"
| "route_scan (l # ls) =
     (case route_line l of
        Some (net_buf, dst_buf) \<Rightarrow> if prefix route_dst dst_buf then net_buf else route_scan ls
      | None \<Rightarrow> route_scan ls)"

text \<open>
  \<open>_name_get\<close>: the lines, or \<open>None\<close> when \<open>fopen\<close> fails, and whether \<open>ferror\<close> holds at the end.
  The buffer is the zeroed \<open>name_buf\<close> of 16 bytes.
\<close>

definition name_get :: "string list option \<Rightarrow> bool \<Rightarrow> (s32 \<times> cbuf) option" where
  "name_get route err =
     (case route of None \<Rightarrow> Some (-1, zbuf 16)
      | Some ls \<Rightarrow> do {
          buf \<leftarrow> (if route_scan ls = [] then Some (zbuf 16)
                 else do { (_, b) \<leftarrow> snprintf (zbuf 16) 0 16 (route_scan ls); Some b });
          if err then Some (-1, buf)
          else do {
            c \<leftarrow> rd buf 0;
            if c = NUL then Some (-1, buf) else Some (0, buf)
          }
        })"

text \<open>Up to five attempts, one second apart; \<open>route k\<close> is what attempt \<open>k\<close> finds.\<close>

primrec name_tries ::
  "(nat \<Rightarrow> string list option \<times> bool) \<Rightarrow> nat \<Rightarrow> nat \<Rightarrow> cbuf option option" where
  "name_tries route k 0 = Some None"
| "name_tries route k (Suc n) = do {
     (ret, buf) \<leftarrow> name_get (fst (route k)) (snd (route k));
     if 0 \<le> ret then Some (Some buf) else name_tries route (Suc k) n
   }"

section \<open>Start and end of the filter\<close>

text \<open>\<open>ctx_ok\<close>: \<open>nft_ctx_new\<close> succeeds.\<close>

definition net_nft_init ::
  "(nat \<Rightarrow> string list option \<times> bool) \<Rightarrow> bool \<Rightarrow> fws_conf \<Rightarrow> (s32 \<times> string list) option" where
  "net_nft_init route ctx_ok conf = do {
     r \<leftarrow> name_tries route 0 5;
     case r of None \<Rightarrow> Some (-1, [])
     | Some name_buf \<Rightarrow>
         if \<not> ctx_ok then Some (-1, [])
         else do {
           ports \<leftarrow> (if conf_test_mode conf then do {
                      s \<leftarrow> fmt nft_ports_fmt [d16 (conf_http_port conf), d16 (conf_https_port conf)];
                      t \<leftarrow> cmd_text s;
                      Some [t]
                    } else Some []);
           allow_ports \<leftarrow> cstr (conf_allow_ports conf) 0;
           name \<leftarrow> cstr name_buf 0;
           s \<leftarrow> fmt_pos (if conf_test_mode conf then nft_init_test_fmt else nft_init_fmt)
                 [d32 (conf_pps_limit conf), d32 (conf_pps_burst conf), d32 (conf_ban_time conf),
                  d16 (conf_http_port conf), d16 (conf_https_port conf), AStr allow_ports, AStr name];
           t \<leftarrow> cmd_text s;
           Some (0, ports @ [t])
         }
   }"

definition net_nft_fini :: "bool \<Rightarrow> fws_conf \<Rightarrow> (s32 \<times> string list) option" where
  "net_nft_fini ctx_ok conf_p =
     (if \<not> ctx_ok then Some (-1, [])
      else if conf_test_mode conf_p then do {
        s \<leftarrow> fmt nft_fini_ports_fmt [d16 (conf_http_port conf_p), d16 (conf_https_port conf_p)];
        t \<leftarrow> cmd_text s;
        Some (0, [t, nft_fini_test_str])
      } else Some (0, [nft_fini_str]))"

section \<open>Banning an address\<close>

definition ipv4_map_str :: string where "ipv4_map_str = ''::ffff:''"

definition nft_ban4_fmt :: string where
  "nft_ban4_fmt = ''add element netdev facows facows_ban4 {%s timeout %dm}''"
definition nft_ban6_fmt :: string where
  "nft_ban6_fmt = ''add element netdev facows facows_ban6 {%s timeout %dm}''"
definition nft_ban4_test_fmt :: string where
  "nft_ban4_test_fmt = ''add element netdev facows_test facows_ban4 {%s timeout %dm}''"
definition nft_ban6_test_fmt :: string where
  "nft_ban6_test_fmt = ''add element netdev facows_test facows_ban6 {%s timeout %dm}''"

text \<open>The address is a C string inside a larger array: \<open>ip_buf + p\<close>.\<close>

definition net_nft_dos_ban :: "fws_conf \<Rightarrow> cbuf \<Rightarrow> nat \<Rightarrow> u32 \<Rightarrow> string option" where
  "net_nft_dos_ban conf_p ip_buf p ban_time = do {
     mapped \<leftarrow> mem_eq ip_buf p ipv4_map_str;
     ip_p \<leftarrow> cstr ip_buf (if mapped then p + length ipv4_map_str else p);
     s \<leftarrow> fmt (if conf_test_mode conf_p then (if mapped then nft_ban4_test_fmt else nft_ban6_test_fmt)
               else (if mapped then nft_ban4_fmt else nft_ban6_fmt))
           [AStr ip_p, d32 ban_time];
     cmd_text s
   }"

section \<open>The rules, from the values\<close>

text \<open>Both families: the selector, the name of the address and the digit of the sets.\<close>

definition flood_rule :: "string \<Rightarrow> string \<Rightarrow> string \<Rightarrow> string \<Rightarrow> fws_conf \<Rightarrow> string" where
  "flood_rule sel ip d ports conf =
     sel @ '' tcp dport {'' @ ports @ ''} update @facows_flood'' @ d @ '' {'' @ ip @
     '' saddr limit rate over '' @ dec_int (sint (conf_pps_limit conf)) @ ''/second burst '' @
     dec_int (sint (conf_pps_burst conf)) @ '' packets} update @facows_ban'' @ d @ '' {'' @ ip @
     '' saddr timeout '' @ dec_int (sint (conf_ban_time conf)) @ ''m} drop;''"

definition port_list :: "fws_conf \<Rightarrow> string \<Rightarrow> string" where
  "port_list conf allow =
     dec_int (uint (conf_http_port conf)) @ '', '' @ dec_int (uint (conf_https_port conf)) @ '' '' @ allow"

definition ruleset :: "string \<Rightarrow> string \<Rightarrow> string \<Rightarrow> string \<Rightarrow> fws_conf \<Rightarrow> string" where
  "ruleset table prio dev allow conf =
     concat (map (\<lambda>l. l @ [LF])
      [''add table netdev '' @ table @ '';'', ''delete table netdev '' @ table @ '';'',
       ''add table inet '' @ table @ '';'', ''delete table inet '' @ table @ '';'',
       ''table netdev '' @ table @ '' {'',
       ''set facows_ban4 {type ipv4_addr; flags timeout;}'',
       ''set facows_ban6 {type ipv6_addr; flags timeout;}'',
       ''set facows_flood4 {type ipv4_addr; flags dynamic;}'',
       ''set facows_flood6 {type ipv6_addr; flags dynamic;}'',
       ''chain facows_ingress {'',
       ''type filter hook ingress device '' @ DQ # dev @ DQ # '' priority '' @ prio @ ''; policy accept;'',
       ''ip saddr @facows_ban4 drop;'', ''ip6 saddr @facows_ban6 drop;'',
       flood_rule ''ip protocol tcp'' ''ip'' ''4'' (port_list conf allow) conf,
       flood_rule ''ip6 nexthdr tcp'' ''ip6'' ''6'' (port_list conf allow) conf,
       ''}'', ''}'',
       ''table inet '' @ table @ '' {'',
       ''set facows_ports {type inet_service; flags interval; elements={'' @ port_list conf allow @ ''};}'',
       ''chain facows_input {'',
       ''type filter hook input priority 0; policy drop;'',
       ''iif '' @ DQ # ''lo'' @ DQ # '' accept;'',
       ''ct state established,related accept;'', ''tcp dport @facows_ports accept;'', ''}'']) @ ''}''"

lemma rules_text:
  assumes t: "CHR ''%'' \<notin> set table" "CHR ''%'' \<notin> set prio"
  shows "fmt_pos (nft_fmt table prio) [d32 (conf_pps_limit conf), d32 (conf_pps_burst conf), d32 (conf_ban_time conf),
      d16 (conf_http_port conf), d16 (conf_https_port conf), AStr allow, AStr dev] =
    Some (ruleset table prio dev allow conf)"
proof -
  let ?as = "[d32 (conf_pps_limit conf), d32 (conf_pps_burst conf), d32 (conf_ban_time conf),
      d16 (conf_http_port conf), d16 (conf_https_port conf), AStr allow, AStr dev]"
  have a: "fmt_pos (CHR ''%'' # CHR ''1'' # CHR ''$'' # CHR ''d'' # f) ?as = map_option ((@) (dec_int (sint (conf_pps_limit conf)))) (fmt_pos f ?as)"
    "fmt_pos (CHR ''%'' # CHR ''2'' # CHR ''$'' # CHR ''d'' # f) ?as = map_option ((@) (dec_int (sint (conf_pps_burst conf)))) (fmt_pos f ?as)"
    "fmt_pos (CHR ''%'' # CHR ''3'' # CHR ''$'' # CHR ''d'' # f) ?as = map_option ((@) (dec_int (sint (conf_ban_time conf)))) (fmt_pos f ?as)"
    "fmt_pos (CHR ''%'' # CHR ''4'' # CHR ''$'' # CHR ''d'' # f) ?as = map_option ((@) (dec_int (uint (conf_http_port conf)))) (fmt_pos f ?as)"
    "fmt_pos (CHR ''%'' # CHR ''5'' # CHR ''$'' # CHR ''d'' # f) ?as = map_option ((@) (dec_int (uint (conf_https_port conf)))) (fmt_pos f ?as)"
    "fmt_pos (CHR ''%'' # CHR ''6'' # CHR ''$'' # CHR ''s'' # f) ?as = map_option ((@) allow) (fmt_pos f ?as)"
    "fmt_pos (CHR ''%'' # CHR ''7'' # CHR ''$'' # CHR ''s'' # f) ?as = map_option ((@) dev) (fmt_pos f ?as)"
    for f
    by (simp_all add: fmt_pos.simps(2) conv_def d32_def d16_def map_conv_bind_option comp_def)
  show ?thesis
    unfolding nft_fmt_def ruleset_def flood_rule_def port_list_def
    by (simp add: fmt_pos_text t fmt_pos_lit a)
qed

section \<open>The interface\<close>

text \<open>What one attempt finds, and the first find of several.\<close>

definition found :: "string list option \<times> bool \<Rightarrow> string option" where
  "found r = (case fst r of None \<Rightarrow> None
     | Some ls \<Rightarrow> if snd r \<or> route_scan ls = [] then None else Some (route_scan ls))"

primrec first_found :: "'a option list \<Rightarrow> 'a option" where
  "first_found [] = None"
| "first_found (x # xs) = (case x of None \<Rightarrow> first_found xs | Some y \<Rightarrow> Some y)"

lemma route_scan_word: "length (route_scan ls) \<le> 15 \<and> NUL \<notin> set (route_scan ls)"
proof (induction ls)
  case (Cons l ls)
  have word: "length w \<le> 15 \<and> set w \<subseteq> set s" if "scan_word s = Some (w, r)" for s w r
    using that by (auto simp: scan_word_def Let_def split: if_splits dest!: in_set_takeD set_takeWhileD set_dropWhileD)
  have "length w \<le> 15 \<and> NUL \<notin> set w" if rl: "route_line l = Some (w, d)" for w d
  proof -
    obtain r where "scan_word (takeWhile (\<lambda>c. c \<noteq> NUL) l) = Some (w, r)"
      using rl by (auto simp: route_line_def Option.bind_eq_Some_conv)
    from word [OF this] show ?thesis by (auto dest: set_takeWhileD)
  qed
  with Cons show ?case by (auto split: option.split)
qed simp

lemma name_get_is:
  "name_get (fst r) (snd r) = (case found r of
     Some dev \<Rightarrow> Some (0, text_buf 16 dev)
   | None \<Rightarrow> map_option (\<lambda>(c, b). (-1, b)) (name_get (fst r) (snd r)))"
proof (cases "fst r")
  case (Some ls)
  have s: "snprintf (zbuf 16) 0 16 (route_scan ls) = Some (length (route_scan ls), text_buf 16 (route_scan ls))"
    using route_scan_word [of ls] text_buf_start [of "route_scan ls" 16] by (simp add: snprintf_fits)
  have z: "rd (zbuf 16) 0 = Some NUL" by (simp add: rd_def)
  have c: "rd (text_buf 16 (route_scan ls)) 0 = Some (hd (route_scan ls))" "hd (route_scan ls) \<noteq> NUL"
    if "route_scan ls \<noteq> []"
    using that route_scan_word [of ls] by (auto simp: rd_def byte_at_def text_buf_def nth_append hd_conv_nth in_set_conv_nth)
  show ?thesis
    using Some s z c by (auto simp: name_get_def found_def)
qed (simp add: name_get_def found_def)

lemma name_get_defined: "\<exists>c b. name_get (fst r) (snd r) = Some (c, b)"
proof (cases "fst r")
  case (Some ls)
  have s: "snprintf (zbuf 16) 0 16 (route_scan ls) = Some (length (route_scan ls), text_buf 16 (route_scan ls))"
    using route_scan_word [of ls] text_buf_start [of "route_scan ls" 16] by (simp add: snprintf_fits)
  show ?thesis using Some s by (auto simp: name_get_def rd_def)
qed (simp add: name_get_def)

lemma name_tries_is:
  "name_tries route k n = Some (map_option (text_buf 16) (first_found (map (found \<circ> route) [k..<k + n])))"
proof (induction n arbitrary: k)
  case (Suc n)
  obtain c b where cb: "name_get (fst (route k)) (snd (route k)) = Some (c, b)" using name_get_defined by blast
  have up: "[k..<k + Suc n] = k # [Suc k..<Suc k + n]" by (simp add: upt_conv_Cons)
  show ?case
    using Suc.IH [of "Suc k"] name_get_is [of "route k"] cb
    unfolding up by (cases "found (route k)") simp_all
qed simp

lemma first_found_set: "first_found xs = Some y \<Longrightarrow> Some y \<in> set xs"
  by (induction xs) (auto split: option.splits)

definition port_elements :: "string \<Rightarrow> fws_conf \<Rightarrow> string \<Rightarrow> string" where
  "port_elements verb conf sep = verb @ '' element inet facows facows_ports {'' @ sep @ dec_int (uint (conf_http_port conf)) @
     '', '' @ dec_int (uint (conf_https_port conf)) @ sep @ ''};''"

lemma NUL_rules: "NUL \<notin> set dev \<Longrightarrow> NUL \<notin> set allow \<Longrightarrow> NUL \<notin> set table \<Longrightarrow> NUL \<notin> set prio \<Longrightarrow>
    NUL \<notin> set (ruleset table prio dev allow conf)"
  by (simp add: ruleset_def flood_rule_def port_list_def)

lemma nft_init_is:
  assumes allow: "cstr (conf_allow_ports conf) 0 = Some allow" "NUL \<notin> set allow"
  shows "net_nft_init route ctx_ok conf = Some (case first_found (map (found \<circ> route) [0..<5]) of
      None \<Rightarrow> (-1, [])
    | Some dev \<Rightarrow>
        if \<not> ctx_ok then (-1, [])
        else if conf_test_mode conf then
          (0, [port_elements ''add'' conf '' '', ruleset ''facows_test'' ''-301'' dev allow conf])
        else (0, [ruleset ''facows'' ''-300'' dev allow conf]))"
proof -
  have t: "name_tries route 0 5 = Some (map_option (text_buf 16) (first_found (map (found \<circ> route) [0..<5])))"
    using name_tries_is [of route 0 5] by simp
  have p: "fmt nft_ports_fmt [d16 (conf_http_port conf), d16 (conf_https_port conf)] = Some (port_elements ''add'' conf '' '')"
    by (simp add: nft_ports_fmt_def d16_def port_elements_def eval_simps)
  have pc: "cmd_text (port_elements ''add'' conf '' '') = Some (port_elements ''add'' conf '' '')"
    by (rule cmd_text_is) (simp add: port_elements_def)
  show ?thesis
  proof (cases "first_found (map (found \<circ> route) [0..<5])")
    case None
    with t show ?thesis by (simp add: net_nft_init_def)
  next
    case (Some dev)
    from first_found_set [OF this] obtain ls where "dev = route_scan ls"
      by (auto simp: found_def split: option.splits if_splits)
    then have dev: "length dev \<le> 15" "NUL \<notin> set dev" using route_scan_word by simp_all
    have c: "cstr (text_buf 16 dev) 0 = Some dev" by (rule text_buf_cstr) (use dev in simp_all)
    have f: "fmt_pos nft_init_fmt
        [d32 (conf_pps_limit conf), d32 (conf_pps_burst conf), d32 (conf_ban_time conf), d16 (conf_http_port conf),
         d16 (conf_https_port conf), AStr allow, AStr dev] = Some (ruleset ''facows'' ''-300'' dev allow conf)"
      "fmt_pos nft_init_test_fmt
        [d32 (conf_pps_limit conf), d32 (conf_pps_burst conf), d32 (conf_ban_time conf), d16 (conf_http_port conf),
         d16 (conf_https_port conf), AStr allow, AStr dev] = Some (ruleset ''facows_test'' ''-301'' dev allow conf)"
      unfolding nft_init_fmt_def nft_init_test_fmt_def by (rule rules_text; simp)+
    have fc: "cmd_text (ruleset ''facows'' ''-300'' dev allow conf) = Some (ruleset ''facows'' ''-300'' dev allow conf)"
      "cmd_text (ruleset ''facows_test'' ''-301'' dev allow conf) = Some (ruleset ''facows_test'' ''-301'' dev allow conf)"
      by (rule cmd_text_is, rule NUL_rules; use dev allow in simp)+
    show ?thesis
      unfolding net_nft_init_def t Some option.map option.case Option.bind.bind_lunit p pc allow(1) c
      by (simp add: f fc)
  qed
qed

section \<open>Properties\<close>

text \<open>
  C26. The start of the packet filter: the interface is the first one with a default route that one
  of five attempts finds; without one, and without a context of the library, nothing is run and
  the result is -1.  Otherwise exactly one rule set is run, in which every number and name of the
  configuration stands in its place (in test mode under other names, after opening the two
  ports in the tables of the running server).
\<close>

theorem firewall_start:
  assumes "cstr (conf_allow_ports conf) 0 = Some allow" "NUL \<notin> set allow"
  shows "net_nft_init route ctx_ok conf = Some (case first_found (map (found \<circ> route) [0..<5]) of
      None \<Rightarrow> (-1, [])
    | Some dev \<Rightarrow>
        if \<not> ctx_ok then (-1, [])
        else if conf_test_mode conf then
          (0, [port_elements ''add'' conf '' '', ruleset ''facows_test'' ''-301'' dev allow conf])
        else (0, [ruleset ''facows'' ''-300'' dev allow conf]))"
  using assms by (rule nft_init_is)

theorem firewall_start_witness:
  "net_nft_init (\<lambda>k. (Some [''Iface Destination'', ''eth0 00000000 0102A8C0''], False)) True zero_conf =
     Some (0, [ruleset ''facows'' ''-300'' ''eth0'' [] zero_conf])"
proof -
  let ?r = "\<lambda>k :: nat. (Some [''Iface Destination'', ''eth0 00000000 0102A8C0''], False)"
  have s: "route_scan [''Iface Destination'', ''eth0 00000000 0102A8C0''] = ''eth0''"
    by (simp add: route_line_def scan_word_def isspace_def route_dst_def)
  have c: "cstr (conf_allow_ports zero_conf) 0 = Some []" "conf_test_mode zero_conf = False"
    by (simp_all add: zero_conf_def)
  have "first_found (map (found \<circ> ?r) [0..<5]) = Some ''eth0''"
    using s by (simp add: found_def numeral_eq_Suc upt_conv_Cons del: upt_Suc route_scan.simps)
  then show ?thesis
    using firewall_start [OF c(1), of ?r True] c(2) by (simp del: route_scan.simps)
qed

end
