(* ===== verification/Parent.thy ===== *)
theory Parent
  imports Nft
begin

text \<open>
  \<open>fws_parent_run\<close> of \<open>src/fws.c\<close>: the parent process reads the messages the child writes to the
  pipe, bans addresses and writes the log.  The events of epoll and the results of \<open>read\<close> are
  arguments; what the parent does is a list of effects.
\<close>

section \<open>Reading the pipe\<close>

text \<open>
  The inner \<open>while\<close> loop: \<open>read_flag\<close>, the buffer and \<open>read_acc\<close> at its end.  Every \<open>read\<close> stores its
  data at the start of \<open>read_buf\<close>.  A list that ends is a pipe with nothing left (\<open>EAGAIN\<close>).
\<close>

primrec drain :: "bool \<Rightarrow> io_read list \<Rightarrow> s32 \<Rightarrow> cbuf \<Rightarrow> nat \<Rightarrow> (s32 \<times> cbuf \<times> nat) option" where
  "drain hup [] read_flag read_buf read_acc = Some (read_flag, read_buf, read_acc)"
| "drain hup (r # rs) read_flag read_buf read_acc =
     (case r of
        RData d \<Rightarrow> do { b \<leftarrow> wr read_buf 0 d; drain hup rs read_flag b (read_acc + length d) }
      | REof \<Rightarrow> Some (2, read_buf, read_acc)
      | RAgain \<Rightarrow> Some (read_flag, read_buf, read_acc)
      | RErr \<Rightarrow> if hup then Some (2, read_buf, read_acc) else drain hup rs 1 read_buf read_acc)"

section \<open>The messages\<close>

text \<open>What the parent does: a command for the packet filter, or text appended to the log.\<close>

datatype parent_effect = Ban string | Log string

text \<open>The loop over the messages; the flag says that it met an unknown one and gave up.\<close>

function msg_loop :: "fws_conf \<Rightarrow> cbuf \<Rightarrow> nat \<Rightarrow> int \<Rightarrow> (bool \<times> parent_effect list) option" where
  "msg_loop conf_p read_buf p read_acc =
     (if read_acc \<le> 0 then Some (False, [])
      else do {
        n \<leftarrow> strnlen read_buf p (nat read_acc);
        c \<leftarrow> rd read_buf p;
        if c = CHR ''1'' then do {
          cmd \<leftarrow> net_nft_dos_ban conf_p read_buf (p + 1) (conf_ban_time conf_p);
          (f, es) \<leftarrow> msg_loop conf_p read_buf (p + (n + 1)) (read_acc - (int n + 1));
          Some (f, Ban cmd # es)
        } else if c = CHR ''2'' then do {
          s \<leftarrow> rd_n read_buf (p + 1) (n - 1);
          (f, es) \<leftarrow> msg_loop conf_p read_buf (p + (n + 1)) (read_acc - (int n + 1));
          Some (f, Log s # es)
        } else Some (True, [])
      })"
  by pat_completeness auto
termination by (relation "measure (\<lambda>(c, b, p, k). nat k)") auto

declare msg_loop.simps [simp del]

section \<open>The event loop\<close>

text \<open>
  A return of \<open>epoll_wait\<close>: an error (an interruption while a signal to stop was caught, or
  another), or an event (\<open>EPOLLIN\<close> or \<open>EPOLLHUP\<close> is set, \<open>EPOLLHUP\<close> is set) with what the
  reads of it find.
\<close>

datatype ep_result = EpErr bool | EpReady bool bool "io_read list"

datatype loop_end = Waiting | Stopped | Failed

primrec parent_loop :: "fws_conf \<Rightarrow> ep_result list \<Rightarrow> (loop_end \<times> parent_effect list) option" where
  "parent_loop conf_p [] = Some (Waiting, [])"
| "parent_loop conf_p (e # eps) =
     (case e of
        EpErr sig_cond \<Rightarrow> Some (if sig_cond then Stopped else Failed, [])
      | EpReady ready hup rs \<Rightarrow>
          if \<not> ready then Some (Failed, [])
          else do {
            (read_flag, read_buf, read_acc) \<leftarrow> drain hup rs 0 (zbuf 8192) 0;
            if read_flag = 1 then parent_loop conf_p eps
            else if read_flag = 2 then Some (Stopped, [])
            else do {
              read_buf \<leftarrow> wr read_buf read_acc [NUL];
              (_, es) \<leftarrow> msg_loop conf_p read_buf 0 (int read_acc);
              (r, es') \<leftarrow> parent_loop conf_p eps;
              Some (r, es @ es')
            }
          })"

section \<open>The process\<close>

definition log_file_str :: string where "log_file_str = ''/facows.log''"

definition log_path_build :: "fws_conf \<Rightarrow> cbuf option" where
  "log_path_build conf_p = do {
     let log_path_buf = zbuf 256;
     n \<leftarrow> strnlen (conf_web_log conf_p) 0 (cap (conf_web_log conf_p));
     s \<leftarrow> rd_n (conf_web_log conf_p) 0 n;
     b \<leftarrow> wr log_path_buf 0 s;
     b \<leftarrow> wr b n log_file_str;
     wr b (n + length log_file_str) [NUL]
   }"

text \<open>
  \<open>nft_ctx_new\<close> succeeds (for the parent, for \<open>net_nft_fini\<close>), the log file can be opened, and
  the result of \<open>waitpid\<close>.
\<close>

record parent_env =
  penv_nft :: bool
  penv_nft_fini :: bool
  penv_log_open :: "string \<Rightarrow> bool"
  penv_waitpid :: s32

text \<open>
  The return code, what was done while running and the commands of the end; \<open>Some None\<close> while the
  parent waits for the next event.
\<close>

definition fws_parent_run ::
  "fws_conf \<Rightarrow> parent_env \<Rightarrow> ep_result list \<Rightarrow> (s32 \<times> parent_effect list \<times> string list) option option" where
  "fws_parent_run conf_p env eps =
     (if \<not> penv_nft env then Some (Some (-1, [], []))
      else do {
        b \<leftarrow> log_path_build conf_p;
        path \<leftarrow> cstr b 0;
        if \<not> penv_log_open env path then Some (Some (-1, [], []))
        else do {
          (r, es) \<leftarrow> parent_loop conf_p eps;
          case r of
            Waiting \<Rightarrow> Some None
          | Failed \<Rightarrow> Some (Some (-1, es, []))
          | Stopped \<Rightarrow>
              if penv_waitpid env < 0 then Some (Some (-1, es, []))
              else if conf_use_nft conf_p then do {
                (ret, cmds) \<leftarrow> net_nft_fini (penv_nft_fini env) conf_p;
                Some (Some (if ret < 0 then -1 else 0, es, cmds))
              } else Some (Some (0, es, []))
        }
      })"

section \<open>What a ban command says\<close>

definition ban_text :: "fws_conf \<Rightarrow> string \<Rightarrow> string" where
  "ban_text conf ip =
     (let mapped = prefix ipv4_map_str ip
      in ''add element netdev '' @ (if conf_test_mode conf then ''facows_test'' else ''facows'') @
         (if mapped then '' facows_ban4 {'' else '' facows_ban6 {'') @
         (if mapped then drop (length ipv4_map_str) ip else ip) @ '' timeout '' @
         dec_int (sint (conf_ban_time conf)) @ ''m}'')"

lemma NUL_ban_text: "NUL \<notin> set ip \<Longrightarrow> NUL \<notin> set (ban_text conf ip)"
  by (auto simp: ban_text_def Let_def dest: in_set_dropD)

lemma prefix_zero: "NUL \<notin> set x \<Longrightarrow> prefix x (y @ NUL # z) \<longleftrightarrow> prefix x y"
  by (auto simp: prefix_append prefix_Cons)

lemma dos_ban_is:
  assumes b: "wf_buf b" "holds b p (ip @ NUL # rest)" "6 \<le> length ip + length rest" and ip: "NUL \<notin> set ip"
  shows "net_nft_dos_ban conf b p (conf_ban_time conf) = Some (ban_text conf ip)"
proof -
  have m: "mem_eq b p ipv4_map_str = Some (prefix ipv4_map_str ip)"
    using mem_eq_holds [OF b(2), of ipv4_map_str] b(3) prefix_zero [of ipv4_map_str ip rest]
    by (simp add: ipv4_map_str_def)
  have c: "cstr b (if prefix ipv4_map_str ip then p + length ipv4_map_str else p) =
      Some (if prefix ipv4_map_str ip then drop (length ipv4_map_str) ip else ip)"
  proof -
    have h: "holds b p (ip @ [NUL])" using b(2) holds_append [of b p "ip @ [NUL]" rest] by simp
    have "holds b (p + length ipv4_map_str) (drop (length ipv4_map_str) ip @ [NUL])"
      if "prefix ipv4_map_str ip"
      using holds_drop [OF h, of "length ipv4_map_str"] prefix_length_le [OF that] by simp
    moreover have "NUL \<notin> set (drop k ip)" for k using ip by (auto dest: in_set_dropD)
    ultimately show ?thesis using h ip cstr_iff [OF b(1)] by simp
  qed
  let ?f = "if conf_test_mode conf then (if prefix ipv4_map_str ip then nft_ban4_test_fmt else nft_ban6_test_fmt)
      else (if prefix ipv4_map_str ip then nft_ban4_fmt else nft_ban6_fmt)"
  have f: "fmt ?f [AStr (if prefix ipv4_map_str ip then drop (length ipv4_map_str) ip else ip), d32 (conf_ban_time conf)] =
      Some (ban_text conf ip)"
    by (simp add: ban_text_def Let_def d32_def eval_simps nft_ban4_fmt_def nft_ban6_fmt_def nft_ban4_test_fmt_def
        nft_ban6_test_fmt_def)
  show ?thesis
    unfolding net_nft_dos_ban_def m Option.bind.bind_lunit c f
    by (rule cmd_text_is [OF NUL_ban_text [OF ip]])
qed

section \<open>What the bytes in the pipe mean\<close>

text \<open>The reference: messages end at a zero byte; the first unknown one ends the reading.\<close>

function parse_msgs :: "fws_conf \<Rightarrow> string \<Rightarrow> bool \<times> parent_effect list" where
  "parse_msgs conf s =
     (if s = [] then (False, [])
      else (let m = takeWhile (\<lambda>c. c \<noteq> NUL) s; (f, es) = parse_msgs conf (drop (length m + 1) s)
            in case m of
                 c # t \<Rightarrow>
                   if c = CHR ''1'' then (f, Ban (ban_text conf t) # es)
                   else if c = CHR ''2'' then (f, Log t # es)
                   else (True, [])
               | [] \<Rightarrow> (True, [])))"
  by pat_completeness auto
termination by (relation "measure (\<lambda>(c, s). length s)") auto

declare parse_msgs.simps [simp del]

lemma msg_loop_is:
  assumes b: "wf_buf b"
  shows "holds b p (s @ replicate k NUL) \<Longrightarrow> 7 \<le> k \<Longrightarrow>
     msg_loop conf b p (int (length s)) = Some (parse_msgs conf s)"
proof (induction "length s" arbitrary: p s rule: less_induct)
  case less
  show ?case
  proof (cases "s = []")
    case True
    then show ?thesis by (subst msg_loop.simps, subst parse_msgs.simps) simp
  next
    case False
    define m where "m = takeWhile (\<lambda>c. c \<noteq> NUL) s"
    define r where "r = drop (length m + 1) s"
    have nm: "NUL \<notin> set m" by (auto simp: m_def dest: set_takeWhileD)
    have lm: "length m \<le> length s" by (simp add: m_def length_takeWhile_le)
    have z: "\<exists>rest. s @ replicate k NUL = m @ NUL # rest \<and> k \<le> Suc (length rest)"
    proof (cases "length m = length s")
      case True
      then have "m = s" using takeWhile_eq_take [of "\<lambda>c. c \<noteq> NUL" s] by (simp flip: m_def)
      then show ?thesis using less.prems(2) by (cases k) (auto intro!: exI [of _ "replicate (k - 1) NUL"])
    next
      case False
      then have lt: "length m < length s" using lm by simp
      then have "s ! length m = NUL" using nth_length_takeWhile [of "\<lambda>c. c \<noteq> NUL" s] by (simp add: m_def)
      moreover have "take (length m) s = m"
        using takeWhile_eq_take [of "\<lambda>c. c \<noteq> NUL" s] by (simp flip: m_def)
      ultimately have "s = m @ NUL # drop (length m + 1) s"
        using id_take_nth_drop [OF lt] by simp
      then show ?thesis by (intro exI [of _ "drop (length m + 1) s @ replicate k NUL"]) simp
    qed
    then obtain rest where rest: "s @ replicate k NUL = m @ NUL # rest" "k \<le> Suc (length rest)" by blast
    have hm: "holds b p (m @ NUL # rest)" using less.prems(1) rest by simp
    have n: "strnlen b p (length s) = Some (length m)"
      using strnlen_holds [of b p m "length s"] holds_append [of b p "m @ [NUL]" rest] hm nm lm by simp
    have c: "rd b p = Some (if m = [] then NUL else hd m)" using hm by (cases m) (auto simp: holds_Cons)
    have tail: "msg_loop conf b (p + (length m + 1)) (int (length s) - (int (length m) + 1)) = Some (parse_msgs conf r)"
    proof (cases "length m + 1 \<le> length s")
      case True
      have "holds b (p + (length m + 1)) (r @ replicate k NUL)"
        using holds_drop [OF less.prems(1), of "length m + 1"] True by (simp add: r_def)
      moreover have "length r < length s" using True by (simp add: r_def)
      moreover have "int (length s) - (int (length m) + 1) = int (length r)" using True by (simp add: r_def of_nat_diff)
      ultimately show ?thesis using less.hyps less.prems(2) by simp
    next
      case False
      then have "r = []" "int (length s) - (int (length m) + 1) \<le> 0" using lm by (simp_all add: r_def)
      then show ?thesis by (subst msg_loop.simps, subst parse_msgs.simps) simp
    qed
    show ?thesis
    proof (cases m)
      case Nil
      have "parse_msgs conf s = (True, [])"
        using False Nil by (subst parse_msgs.simps) (simp add: Let_def split: prod.split flip: m_def)
      then show ?thesis using False n c Nil by (subst msg_loop.simps) simp
    next
      case (Cons x t)
      have parse: "parse_msgs conf s = (case parse_msgs conf r of (f, es) \<Rightarrow>
          if x = CHR ''1'' then (f, Ban (ban_text conf t) # es)
          else if x = CHR ''2'' then (f, Log t # es) else (True, []))"
        unfolding parse_msgs.simps [of conf s] Let_def m_def [symmetric] r_def [symmetric]
        using False Cons by simp
      have ht: "holds b (p + 1) (t @ NUL # rest)" using hm Cons by (simp add: holds_Cons)
      have ban: "net_nft_dos_ban conf b (p + 1) (conf_ban_time conf) = Some (ban_text conf t)"
        by (rule dos_ban_is [OF b ht]) (use less.prems(2) rest(2) nm Cons in auto)
      have tx: "rd_n b (p + 1) (length m - 1) = Some t"
        using holds_rd_n [OF ht, of "length t"] Cons by simp
      show ?thesis
        unfolding parse using False n c Cons tail ban tx
        by (subst msg_loop.simps) (simp split: prod.split)
    qed
  qed
qed


lemma drain_one:
  assumes "length s \<le> 8185" "s \<noteq> []"
  shows "parent_loop conf (EpReady True hup [RData s] # eps) =
     map_option (\<lambda>(r, es'). (r, snd (parse_msgs conf s) @ es')) (parent_loop conf eps)"
proof -
  obtain b where b: "wr (zbuf 8192) 0 s = Some b" using wr_defined [of "zbuf 8192" 0 s] assms by auto
  have w: "wr b (length s) [NUL] = wr (zbuf 8192) 0 (s @ [NUL])" using wr_append_Some [OF b, of "[NUL]"] by simp
  obtain b' where b': "wr (zbuf 8192) 0 (s @ [NUL]) = Some b'" using wr_defined [of "zbuf 8192" 0 "s @ [NUL]"] assms by auto
  note z = holds_zbuf_wr [OF b']
  have "holds b' 0 (s @ replicate (8192 - length s) NUL)"
  proof -
    have "8192 - length s = Suc (8191 - length s)" using assms(1) by simp
    with z(1) show ?thesis by simp
  qed
  from msg_loop_is [OF z(2) this, of conf] assms(1)
  have "msg_loop conf b' 0 (int (length s)) = Some (parse_msgs conf s)" by simp
  with b w b' show ?thesis
    by (cases "parent_loop conf eps") (auto simp: split: prod.split)
qed

section \<open>Messages through a pipe\<close>

text \<open>
  The contract of the two ends of the pipe: what one side sends for a message, the other side,
  wherever a read ends, takes for that message, and goes on with what follows it.
\<close>

locale message_pipe =
  fixes send :: "'m \<Rightarrow> string" and recv :: "string \<Rightarrow> 'e list" and act :: "'m \<Rightarrow> 'e" and ok :: "'m \<Rightarrow> bool"
  assumes recv_Nil: "recv [] = []" and recv_send: "ok m \<Longrightarrow> recv (send m @ s) = act m # recv s"
begin

lemma recv_all: "list_all ok ms \<Longrightarrow> recv (concat (map send ms)) = map act ms"
  by (induction ms) (simp_all add: recv_Nil recv_send)

lemma recv_prefix: "list_all ok ms \<Longrightarrow> recv (concat (map send ms) @ s) = map act ms @ recv s"
  by (induction ms) (simp_all add: recv_send)

end

text \<open>The two messages of the program.\<close>

datatype message = MBan string | MLog string

fun msg_text :: "message \<Rightarrow> string" where
  "msg_text (MBan ip) = CHR ''1'' # ip @ [NUL]"
| "msg_text (MLog t) = CHR ''2'' # t @ [NUL]"

fun msg_effect :: "fws_conf \<Rightarrow> message \<Rightarrow> parent_effect" where
  "msg_effect conf (MBan ip) = Ban (ban_text conf ip)"
| "msg_effect conf (MLog t) = Log t"

fun msg_ok :: "message \<Rightarrow> bool" where
  "msg_ok (MBan ip) = (NUL \<notin> set ip)"
| "msg_ok (MLog t) = (NUL \<notin> set t)"

lemma parse_msg:
  assumes "NUL \<notin> set t" "c \<noteq> NUL"
  shows "parse_msgs conf (c # t @ NUL # s) = (case parse_msgs conf s of (f, es) \<Rightarrow>
     if c = CHR ''1'' then (f, Ban (ban_text conf t) # es)
     else if c = CHR ''2'' then (f, Log t # es) else (True, []))"
proof -
  have "takeWhile (\<lambda>c. c \<noteq> NUL) (c # t @ NUL # s) = c # t" using assms by simp
  then show ?thesis unfolding parse_msgs.simps [of conf "c # t @ NUL # s"] by (simp add: Let_def)
qed

interpretation child_pipe: message_pipe msg_text "\<lambda>s. snd (parse_msgs conf s)" "msg_effect conf" msg_ok for conf
proof unfold_locales
  show "snd (parse_msgs conf []) = []" by (simp add: parse_msgs.simps)
  show "snd (parse_msgs conf (msg_text m @ s)) = msg_effect conf m # snd (parse_msgs conf s)" if "msg_ok m" for m s
    using that by (cases m) (simp_all add: parse_msg split: prod.split)
qed

lemma pipe_delivers:
  assumes "\<forall>ms \<in> set mss. ms \<noteq> [] \<and> list_all msg_ok ms \<and> length (concat (map msg_text ms)) \<le> 8185"
  shows "parent_loop conf (map (\<lambda>ms. EpReady True False [RData (concat (map msg_text ms))]) mss) =
    Some (Waiting, map (msg_effect conf) (concat mss))"
  using assms
proof (induction mss)
  case (Cons ms mss)
  have "concat (map msg_text ms) \<noteq> []" using Cons.prems by (cases ms; cases "hd ms") auto
  then have "parent_loop conf (EpReady True False [RData (concat (map msg_text ms))] # eps) =
      map_option (\<lambda>(r, es'). (r, map (msg_effect conf) ms @ es')) (parent_loop conf eps)" for eps
    using drain_one [of "concat (map msg_text ms)" conf False eps] child_pipe.recv_all [of ms conf] Cons.prems by simp
  then show ?case using Cons by (simp del: parent_loop.simps(2))
qed simp

lemma concat_split:
  "concat xss = map f ms \<Longrightarrow> \<exists>mss. concat mss = ms \<and> xss = map (map f) mss"
proof (induction xss arbitrary: ms)
  case Nil
  then show ?case by (intro exI [of _ "[]"]) simp
next
  case (Cons xs xss)
  then obtain ms1 ms2 where m: "ms = ms1 @ ms2" "xs = map f ms1" "concat xss = map f ms2"
    by (metis append_eq_map_conv concat.simps(2))
  with Cons.IH obtain mss where "concat mss = ms2" "xss = map (map f) mss" by blast
  with m show ?case by (intro exI [of _ "ms1 # mss"]) simp
qed

text \<open>The same from the side of the pipe: the messages in it, read in groups.\<close>

lemma pipe_groups:
  assumes "concat xss = map msg_text ms" "list_all msg_ok ms"
    and "\<forall>xs \<in> set xss. xs \<noteq> [] \<and> length (concat xs) \<le> 8185"
  shows "parent_loop conf (map (\<lambda>xs. EpReady True False [RData (concat xs)]) xss) = Some (Waiting, map (msg_effect conf) ms)"
proof -
  obtain mss where m: "concat mss = ms" "xss = map (map msg_text) mss" using concat_split [OF assms(1)] by blast
  have "\<forall>ms \<in> set mss. ms \<noteq> [] \<and> list_all msg_ok ms \<and> length (concat (map msg_text ms)) \<le> 8185"
    using assms(2,3) m by (auto simp: list_all_iff)
  from pipe_delivers [OF this, of conf] m show ?thesis by (simp add: o_def)
qed

lemma one_message:
  assumes "msg_ok m" "length (msg_text m) \<le> 8185"
  shows "parent_loop conf [EpReady True False [RData (msg_text m)]] = Some (Waiting, [msg_effect conf m])"
  using pipe_delivers [of "[[m]]" conf] assms by (simp del: parent_loop.simps)

lemma parent_loop_append:
  "parent_loop conf es1 = Some (Waiting, effs) \<Longrightarrow>
     parent_loop conf (es1 @ es2) = map_option (\<lambda>(r, effs'). (r, effs @ effs')) (parent_loop conf es2)"
proof (induction es1 arbitrary: effs)
  case Nil
  then show ?case by (cases "parent_loop conf es2") auto
next
  case (Cons e es1)
  show ?case
  proof (cases e)
    case (EpErr sig)
    with Cons.prems show ?thesis by (simp split: if_splits)
  next
    case (EpReady ready hup rs)
    obtain f b k where d: "drain hup rs 0 (zbuf 8192) 0 = Some (f, b, k)" and ready
      using Cons.prems EpReady by (auto simp: Option.bind_eq_Some_conv split: if_splits)
    consider "f = 1" | "f \<noteq> 1" "f \<noteq> 2" using Cons.prems EpReady d \<open>ready\<close> by (auto split: if_splits)
    then show ?thesis
    proof cases
      case 1
      with Cons EpReady d \<open>ready\<close> show ?thesis by simp
    next
      case 2
      obtain b' g es' effs' where m: "wr b k [NUL] = Some b'" "msg_loop conf b' 0 (int k) = Some (g, es')"
        "parent_loop conf es1 = Some (Waiting, effs')" "effs = es' @ effs'"
        using Cons.prems EpReady d \<open>ready\<close> 2 by (auto simp: Option.bind_eq_Some_conv)
      with Cons.IH [OF m(3)] EpReady d \<open>ready\<close> 2 show ?thesis
        by (cases "parent_loop conf es2") auto
    qed
  qed
qed

lemma log_path_is:
  assumes "conf_web_log conf = b" "wf_buf b" "cap b = 128" "cstr b 0 = Some dir"
  shows "log_path_build conf = Some (text_buf 256 (dir @ log_file_str))"
proof -
  have h: "holds b 0 (dir @ [NUL])" "NUL \<notin> set dir" using assms cstr_iff by auto
  have len: "length dir < 128" using holds_le_cap [OF h(1)] assms(3) by simp
  have s: "strnlen b 0 128 = Some (length dir)" "rd_n b 0 (length dir) = Some dir"
    using strnlen_holds [OF h, of 128] holds_rd_n [OF h(1), of "length dir"] len by simp_all
  let ?t = "dir @ log_file_str"
  have l: "length log_file_str = 11" by (simp add: log_file_str_def)
  have "Option.bind (wr (zbuf 256) 0 dir) (\<lambda>b. Option.bind (wr b (length dir) log_file_str)
      (\<lambda>b. wr b (length dir + length log_file_str) [NUL])) = wr (zbuf 256) 0 (?t @ [NUL])"
  proof -
    have "Option.bind (wr b (length dir) log_file_str) (\<lambda>b. wr b (length dir + length log_file_str) [NUL]) =
        wr b (length dir) (log_file_str @ [NUL])" for b
      using wr_append [of b "length dir" log_file_str "[NUL]"] by simp
    then show ?thesis using wr_append [of "zbuf 256" 0 dir "log_file_str @ [NUL]"] by simp
  qed
  moreover have "wr (zbuf 256) 0 (?t @ [NUL]) = Some (text_buf 256 ?t)" by (rule text_buf_start) (use len l in simp)
  ultimately show ?thesis using assms(1,3) s by (simp add: log_path_build_def)
qed

lemma fini_is:
  "net_nft_fini ok conf = Some (if \<not> ok then (-1, [])
     else (0, if conf_test_mode conf then [port_elements ''delete'' conf [], nft_fini_test_str] else [nft_fini_str]))"
proof -
  have "fmt nft_fini_ports_fmt [d16 (conf_http_port conf), d16 (conf_https_port conf)] = Some (port_elements ''delete'' conf [])"
    by (simp add: nft_fini_ports_fmt_def d16_def port_elements_def eval_simps)
  moreover have "cmd_text (port_elements ''delete'' conf []) = Some (port_elements ''delete'' conf [])"
    by (rule cmd_text_is) (simp add: port_elements_def)
  ultimately show ?thesis by (simp add: net_nft_fini_def)
qed

section \<open>Properties\<close>

text \<open>
  C27. A life of the parent, for events of the pipe that each bring whole messages, at most 8185 bytes of them, in one read, and an
  end of file that comes as an event of its own (other events lose messages, see \<open>parent_loses_messages\<close>):
  every message is acted on, in
  order and once, a ban as the command for the set of its address family, a log line as its
  text; at the end of file the rules are removed and the result is 0.
\<close>

theorem parent_session:
  assumes "\<forall>ms \<in> set mss. ms \<noteq> [] \<and> list_all msg_ok ms \<and> length (concat (map msg_text ms)) \<le> 8185"
    and "penv_nft env" "penv_nft_fini env" "penv_log_open env (dir @ log_file_str)" "0 \<le> penv_waitpid env"
    and "wf_buf (conf_web_log conf)" "cap (conf_web_log conf) = 128" "cstr (conf_web_log conf) 0 = Some dir"
  shows "fws_parent_run conf env
      (map (\<lambda>ms. EpReady True False [RData (concat (map msg_text ms))]) mss @ [EpReady True True [REof]]) =
    Some (Some (0, map (msg_effect conf) (concat mss),
      if \<not> conf_use_nft conf then []
      else if conf_test_mode conf then [port_elements ''delete'' conf [], nft_fini_test_str]
      else [nft_fini_str]))"
proof -
  have h: "holds (conf_web_log conf) 0 (dir @ [NUL])" "NUL \<notin> set dir" using assms(6,8) cstr_iff by auto
  have l: "length dir < 128" using holds_le_cap [OF h(1)] assms(7) by simp
  have c: "cstr (text_buf 256 (dir @ log_file_str)) 0 = Some (dir @ log_file_str)"
    by (rule text_buf_cstr) (use h(2) l in \<open>auto simp: log_file_str_def\<close>)
  show ?thesis
    using parent_loop_append [OF pipe_delivers [OF assms(1), of conf], of "[EpReady True True [REof]]"] assms(2-5)
      log_path_is [OF refl assms(6,7,8)] c
    by (simp add: fws_parent_run_def fini_is)
qed

theorem parent_session_witness:
  "fws_parent_run (zero_conf\<lparr>conf_use_nft := True, conf_ban_time := 15\<rparr>)
      \<lparr>penv_nft = True, penv_nft_fini = True, penv_log_open = (\<lambda>p. p = log_file_str), penv_waitpid = 7\<rparr>
      (map (\<lambda>ms. EpReady True False [RData (concat (map msg_text ms))])
         [[MLog ''first line'', MBan ''::ffff:10.0.0.9''], [MBan ''2001:db8::1'']] @ [EpReady True True [REof]]) =
    Some (Some (0, [Log ''first line'', Ban ''add element netdev facows facows_ban4 {10.0.0.9 timeout 15m}'',
      Ban ''add element netdev facows facows_ban6 {2001:db8::1 timeout 15m}''], [nft_fini_str]))"
proof -
  define c where "c = zero_conf\<lparr>conf_use_nft := True, conf_ban_time := 15\<rparr>"
  define e where "e = \<lparr>penv_nft = True, penv_nft_fini = True, penv_log_open = (\<lambda>p. p = log_file_str), penv_waitpid = 7\<rparr>"
  define mss where "mss = [[MLog ''first line'', MBan ''::ffff:10.0.0.9''], [MBan ''2001:db8::1'']]"
  have flags: "conf_use_nft c" "\<not> conf_test_mode c" "wf_buf (conf_web_log c)" "cap (conf_web_log c) = 128"
    "cstr (conf_web_log c) 0 = Some []" by (simp_all add: c_def zero_conf_def)
  have env: "penv_nft e" "penv_nft_fini e" "penv_log_open e ([] @ log_file_str)" "0 \<le> penv_waitpid e"
    by (simp_all add: e_def)
  have b: "ban_text c ''::ffff:10.0.0.9'' = ''add element netdev facows facows_ban4 {10.0.0.9 timeout 15m}''"
    "ban_text c ''2001:db8::1'' = ''add element netdev facows facows_ban6 {2001:db8::1 timeout 15m}''"
    by (simp_all add: c_def ban_text_def ipv4_map_str_def zero_conf_def dec_int_def dec.simps eval_simps)
  have ok: "\<forall>ms \<in> set mss. ms \<noteq> [] \<and> list_all msg_ok ms \<and> length (concat (map msg_text ms)) \<le> 8185"
    by (simp add: mss_def)
  have eff: "map (msg_effect c) (concat mss) = [Log ''first line'',
      Ban ''add element netdev facows facows_ban4 {10.0.0.9 timeout 15m}'',
      Ban ''add element netdev facows facows_ban6 {2001:db8::1 timeout 15m}'']"
    by (simp add: mss_def b)
  from parent_session [OF ok env flags(3-5)] flags(1,2) show ?thesis
    unfolding eff by (simp only: c_def e_def mss_def if_False not_True_eq_False)
qed

text \<open>
  C36. Messages can be lost: when one event takes two reads, the second is stored over the first,
  and only its messages are acted on (it being at least as long); more than 8191 bytes in all
  are undefined behaviour; and when the child ends in the same event, nothing that was read in it
  is acted on.
\<close>

theorem parent_loses_messages:
  assumes "ms \<noteq> []" "list_all msg_ok ms" "length a \<le> length (concat (map msg_text ms))"
    "length (concat (map msg_text ms)) \<le> 8191"
  shows "(8191 < length a + length (concat (map msg_text ms)) \<longrightarrow>
      parent_loop conf (EpReady True hup [RData a, RData (concat (map msg_text ms))] # eps) = None) \<and>
    (length a + length (concat (map msg_text ms)) \<le> 8185 \<longrightarrow>
      parent_loop conf (EpReady True hup [RData a, RData (concat (map msg_text ms))] # eps) =
        map_option (\<lambda>(r, es). (r, map (msg_effect conf) ms @ es)) (parent_loop conf eps)) \<and>
    parent_loop conf (EpReady True hup [RData (concat (map msg_text ms)), REof] # eps) = Some (Stopped, [])"
proof -
  define b where "b = concat (map msg_text ms)"
  have len: "length a \<le> length b" "length b \<le> 8191" using assms b_def by simp_all
  obtain b0 where b0: "wr (zbuf 8192) 0 b = Some b0" using wr_defined [of "zbuf 8192" 0 b] len by auto
  obtain b1 where b1: "wr (zbuf 8192) 0 a = Some b1" using wr_defined [of "zbuf 8192" 0 a] len by auto
  have b2: "wr b1 0 b = Some b0" using wr_overwrite [OF len(1), of "zbuf 8192" 0] b0 b1 by simp
  note z = holds_zbuf_wr [OF b0]
  have two: "parent_loop conf (EpReady True hup [RData a, RData b] # eps) = do {
      rb \<leftarrow> wr b0 (length a + length b) [NUL];
      (_, es) \<leftarrow> msg_loop conf rb 0 (int (length a + length b));
      (r, es') \<leftarrow> parent_loop conf eps;
      Some (r, es @ es') }"
    using b1 b2 by simp
  have long: "parent_loop conf (EpReady True hup [RData a, RData b] # eps) = None" if "8191 < length a + length b"
    unfolding two using that z(3) by (simp add: wr_def)
  have fits: "parent_loop conf (EpReady True hup [RData a, RData b] # eps) =
      map_option (\<lambda>(r, es). (r, map (msg_effect conf) ms @ es)) (parent_loop conf eps)" if l: "length a + length b \<le> 8185"
  proof -
    obtain b3 where b3: "wr b0 (length a + length b) [NUL] = Some b3"
      using wr_defined [of b0 "length a + length b" "[NUL]"] l z(3) by auto
    note w = wr_SomeD [OF b3]
    have byte: "byte_at b3 i = (b @ replicate (8192 - length b) NUL) ! i" if "i < 8192" for i
      using z(1) that w(3) [of i] len by (auto simp: holds_def rd_eq_Some nth_append)
    have "b @ replicate (8192 - length b) NUL =
        (b @ replicate (length a) NUL) @ replicate (8192 - (length a + length b)) NUL"
      using l by (simp flip: replicate_add)
    moreover have "holds b3 0 (b @ replicate (8192 - length b) NUL)"
      using byte w(2) z(3) len by (simp add: holds_def rd_eq_Some)
    ultimately have "holds b3 0 ((b @ replicate (length a) NUL) @ replicate (8192 - (length a + length b)) NUL)" by simp
    from msg_loop_is [OF wr_wf [OF b3 z(2)] this, of conf] l
    have m: "msg_loop conf b3 0 (int (length a + length b)) = Some (parse_msgs conf (b @ replicate (length a) NUL))"
      by (simp add: add.commute)
    have "snd (parse_msgs conf (replicate n NUL)) = []" for n
      by (cases n) (simp_all add: parse_msgs.simps)
    then have "snd (parse_msgs conf (b @ replicate (length a) NUL)) = map (msg_effect conf) ms"
      using child_pipe.recv_prefix [OF assms(2), of conf "replicate (length a) NUL"] by (simp add: b_def)
    with m b3 show ?thesis unfolding two by (cases "parent_loop conf eps") (auto split: prod.split)
  qed
  have "parent_loop conf (EpReady True hup [RData b, REof] # eps) = Some (Stopped, [])" using b0 by simp
  with long fits show ?thesis by (simp only: b_def) blast
qed

theorem parent_loses_messages_witness:
  "parent_loop zero_conf [EpReady True False [RData (msg_text (MLog ''first'')), RData (concat (map msg_text [MLog ''second'']))]] =
     Some (Waiting, [Log ''second''])"
  using parent_loses_messages [of "[MLog ''second'']" "msg_text (MLog ''first'')" zero_conf False "[]"]
  by (simp del: parent_loop.simps(2))

end
