(* ===== verification/Net_80.thy ===== *)
theory Net_80
  imports Http_Response Http_Request Net_443
begin

text \<open>
  \<open>src/net_80.c\<close> and \<open>_fws_80_run\<close> of \<open>src/fws.c\<close>: the answer to a request on the plain port, a
  redirect to the same path on the TLS port.  The results of \<open>recv\<close> and of \<open>send\<close> are arguments.
\<close>

section \<open>Receiving\<close>

text \<open>
  The loop over \<open>recv\<close>: \<open>None\<close> inside for \<open>return -1\<close>, otherwise the buffer.  Every \<open>recv\<close> stores
  its data at the start of \<open>recv_buf\<close> while \<open>recv_acc\<close> adds up; nothing left is \<open>EAGAIN\<close>.
\<close>

primrec recv_loop :: "io_read list \<Rightarrow> cbuf \<Rightarrow> nat \<Rightarrow> cbuf option option" where
  "recv_loop [] recv_buf recv_acc = Some (Some recv_buf)"
| "recv_loop (r # rs) recv_buf recv_acc =
     (case r of
        RErr \<Rightarrow> Some None
      | REof \<Rightarrow> Some (Some recv_buf)
      | RAgain \<Rightarrow> Some (Some recv_buf)
      | RData d \<Rightarrow> do {
          b \<leftarrow> wr recv_buf 0 d;
          let recv_acc = recv_acc + length d;
          b \<leftarrow> wr b recv_acc [NUL];
          if 8191 \<le> recv_acc then Some None
          else do {
            p \<leftarrow> memmem b 0 recv_acc crlf2;
            if p \<noteq> None then Some (Some b) else recv_loop rs b recv_acc
          }
        })"

section \<open>The request\<close>

definition host_key_str :: string where "host_key_str = ''Host:''"
definition www_str :: string where "www_str = ''www''"

text \<open>The URI: what stands between the first two spaces.\<close>

definition uri_80 :: "cbuf \<Rightarrow> fws_http_req \<Rightarrow> fws_http_req option option" where
  "uri_80 recv_buf http_req = do {
     r \<leftarrow> memchr recv_buf 0 (CHR '' '') (cap (req_method http_req));
     case r of None \<Rightarrow> Some None
     | Some n \<Rightarrow> do {
         let p_start = n + 1;
         r \<leftarrow> memchr recv_buf p_start (CHR '' '') (cap (req_uri http_req));
         case r of None \<Rightarrow> Some None
         | Some p_end \<Rightarrow> do {
             let n = p_end - p_start;
             s \<leftarrow> rd_n recv_buf p_start n;
             u \<leftarrow> put_str (req_uri http_req) s;
             Some (Some (http_req\<lparr>req_uri := u\<rparr>))
           }
       }
   }"

text \<open>The value of a \<open>Host\<close> header that starts at \<open>p_start\<close>: the subdomain.\<close>

definition host_80 :: "cbuf \<Rightarrow> nat \<Rightarrow> cbuf \<Rightarrow> fws_http_req \<Rightarrow> nat \<Rightarrow> fws_http_req option option" where
  "host_80 domain domain_len recv_buf http_req p_start = do {
     c \<leftarrow> rd (req_subdomain http_req) 0;
     if c \<noteq> NUL then Some None
     else do {
       r \<leftarrow> memchr recv_buf p_start (CHR '':'') 64;
       case r of None \<Rightarrow> Some None
       | Some p_end \<Rightarrow> do {
           p_start \<leftarrow> skip_spaces recv_buf (p_end + 1);
           d \<leftarrow> rd_n domain 0 domain_len;
           own \<leftarrow> mem_eq recv_buf p_start d;
           if own then do {
             b \<leftarrow> wr (req_subdomain http_req) 0 (www_str @ [NUL]);
             Some (Some (http_req\<lparr>req_subdomain := b\<rparr>))
           } else do {
             r \<leftarrow> memchr recv_buf p_start (CHR ''.'') (cap (req_subdomain http_req));
             let p_end = (case r of None \<Rightarrow> p_start | Some q \<Rightarrow> q);
             let n = p_end - p_start;
             s \<leftarrow> rd_n recv_buf p_start n;
             b \<leftarrow> put_str (req_subdomain http_req) s;
             Some (Some (http_req\<lparr>req_subdomain := b\<rparr>))
           }
         }
     }
   }"

text \<open>The loop over the header lines, up to an empty line or the \<open>Host\<close> header.\<close>

function host_loop :: "cbuf \<Rightarrow> nat \<Rightarrow> cbuf \<Rightarrow> fws_http_req \<Rightarrow> nat \<Rightarrow> fws_http_req option option" where
  "host_loop domain domain_len recv_buf http_req p_start = do {
     last \<leftarrow> mem_eq recv_buf p_start crlf;
     if last then Some (Some http_req)
     else do {
       host \<leftarrow> strncase_eq recv_buf p_start host_key_str;
       if host then host_80 domain domain_len recv_buf http_req p_start
       else do {
         r \<leftarrow> memmem recv_buf p_start 1024 crlf;
         case r of None \<Rightarrow> Some None
         | Some p_end \<Rightarrow> host_loop domain domain_len recv_buf http_req (p_end + 2)
       }
     }
   }"
  by pat_completeness auto
termination
proof (relation "measure (\<lambda>(d, n, b, q, p). cap b - p)", goal_cases)
  case (2 d n b q p l h r e)
  then have "p \<le> e" "e + 2 \<le> p + 1024" "p + 1024 \<le> cap b"
    using memmem_SomeD(1,2,3) [of b p 1024 crlf e] by auto
  then show ?case by simp
qed simp

declare host_loop.simps [simp del]

section \<open>The redirect\<close>

definition res_301_80_fmt :: string where
  "res_301_80_fmt = ''HTTP/1.1 301 Moved Permanently'' @ crlf @ ''Location: https://%s%s'' @ crlf @
     ''Content-Length: 0'' @ crlf @ ''Connection: close'' @ crlf @ ''Server: Facooya-Web-Server'' @ crlf @ crlf"

text \<open>The return code and what was sent; \<open>send_ok\<close>: the result of \<open>send\<close> is not negative.\<close>

definition net_80_443_redir ::
  "io_read list \<Rightarrow> (string \<Rightarrow> bool) \<Rightarrow> fws_conf \<Rightarrow> (s32 \<times> string list) option" where
  "net_80_443_redir rs send_ok conf_p = do {
     r \<leftarrow> recv_loop rs (zbuf 8192) 0;
     case r of None \<Rightarrow> Some (-1, [])
     | Some recv_buf \<Rightarrow> do {
         r \<leftarrow> uri_80 recv_buf zero_http_req;
         case r of None \<Rightarrow> Some (-1, [])
         | Some http_req \<Rightarrow> do {
             r \<leftarrow> memmem recv_buf 0 1024 crlf;
             case r of None \<Rightarrow> Some (-1, [])
             | Some p_end \<Rightarrow> do {
                 domain_len \<leftarrow> strnlen (conf_domain conf_p) 0 (cap (conf_domain conf_p));
                 if domain_len = cap (conf_domain conf_p) then Some (-1, [])
                 else do {
                   r \<leftarrow> host_loop (conf_domain conf_p) domain_len recv_buf http_req (p_end + 2);
                   case r of None \<Rightarrow> Some (-1, [])
                   | Some http_req \<Rightarrow> do {
                       host_buf \<leftarrow> net_host_build (zbuf 512) http_req conf_p;
                       host \<leftarrow> cstr host_buf 0;
                       uri \<leftarrow> cstr (req_uri http_req) 0;
                       text \<leftarrow> fmt res_301_80_fmt [AStr host, AStr uri];
                       let res_n = length text;
                       (_, res_buf) \<leftarrow> snprintf (zbuf (res_n + 1)) 0 (res_n + 1) text;
                       n \<leftarrow> strnlen res_buf 0 (res_n + 1);
                       s \<leftarrow> rd_n res_buf 0 n;
                       Some (if send_ok s then 0 else -1, [s])
                     }
                 }
               }
           }
       }
   }"

text \<open>\<open>_fws_80_run\<close>; the connection is closed in every case.\<close>

definition fws_80_run ::
  "bool \<Rightarrow> io_read list \<Rightarrow> (string \<Rightarrow> bool) \<Rightarrow> fws_conf \<Rightarrow> (s32 \<times> string list) option" where
  "fws_80_run sockopt_ok rs send_ok conf_p =
     (if \<not> sockopt_ok then Some (-1, [])
      else do {
        (ret, s) \<leftarrow> net_80_443_redir rs send_ok conf_p;
        Some (if ret < 0 then -1 else 0, s)
      })"

section \<open>The redirect, from the request\<close>

definition is_host :: "string \<times> string \<Rightarrow> bool" where
  "is_host h \<longleftrightarrow> map tolower (fst h) = ''host''"

text \<open>The subdomain a request is sent to: by its first \<open>Host\<close> header.\<close>

definition sub_80 :: "string \<Rightarrow> (string \<times> string) list \<Rightarrow> string" where
  "sub_80 own hs = (case find is_host hs of None \<Rightarrow> [] | Some h \<Rightarrow> host_text own (snd h))"

text \<open>Header lines a request can have here, a \<open>Host\<close> value being of this domain or with a dot.\<close>

definition hdr_80_ok :: "string \<Rightarrow> string \<times> string \<Rightarrow> bool" where
  "hdr_80_ok own h \<longleftrightarrow> CHR '':'' \<notin> set (fst h) \<and> CR \<notin> set (fst h) \<and> NUL \<notin> set (fst h) \<and> length (fst h) < 64 \<and>
     set (snd h) \<inter> {CR, NUL} = {} \<and> length (fst h) + length (snd h) \<le> 1000 \<and>
     (snd h \<noteq> [] \<longrightarrow> hd (snd h) \<noteq> CHR '' '') \<and>
     (is_host h \<longrightarrow> prefix own (snd h) \<or> CHR ''.'' \<in> set (take 64 (snd h)))"

lemma strncase_eq_is:
  "holds b p xs \<Longrightarrow> length ys \<le> length xs \<Longrightarrow>
     strncase_eq b p ys = Some (map tolower (take (length ys) xs) = map tolower ys)"
proof (induction ys arbitrary: p xs)
  case (Cons y ys)
  then show ?case by (cases xs) (auto simp: holds_Cons)
qed simp

lemma tolower_colon: "tolower x = CHR '':'' \<longleftrightarrow> x = CHR '':''"
  by (rule tolower_eq_iff) simp_all

lemma tolower_colon_id [simp]: "tolower CHR '':'' = CHR '':''"
  using tolower_colon by simp

lemma host_prefix_iff:
  assumes "CHR '':'' \<notin> set k"
  shows "map tolower (take 5 (k @ CHR '':'' # rest)) = ''host:'' \<longleftrightarrow> map tolower k = ''host''"
proof -
  consider "k = []" | a where "k = [a]" | a b where "k = [a, b]" | a b c where "k = [a, b, c]"
    | a b c d k' where "k = a # b # c # d # k'"
    by (metis neq_Nil_conv)
  then show ?thesis
  proof cases
    case 5
    show ?thesis using assms unfolding 5 by (cases k') (auto simp: tolower_colon)
  qed simp_all
qed

lemma host_line:
  assumes "holds b p (hdr_text h @ rest)" "CHR '':'' \<notin> set (fst h)" "4 \<le> length rest"
  shows "strncase_eq b p host_key_str = Some (is_host h)"
proof -
  have l: "length host_key_str = 5" "map tolower host_key_str = ''host:''"
    by (simp_all add: host_key_str_def tolower_def eval_simps)
  have "strncase_eq b p host_key_str =
      Some (map tolower (take 5 (hdr_text h @ rest)) = ''host:'')"
    using strncase_eq_is [OF assms(1), of host_key_str] assms(3) unfolding l
    by (simp add: hdr_text_def)
  then show ?thesis
    using host_prefix_iff [OF assms(2)] by (simp add: hdr_text_def is_host_def)
qed

lemma find_sub_crlf: "CR \<notin> set xs \<Longrightarrow> find_sub crlf (xs @ crlf @ ys) = Some (length xs)"
  by (induction xs) auto

lemma memmem_crlf:
  assumes "holds b p (xs @ crlf @ rest)" "CR \<notin> set xs" "length xs + 2 \<le> n"
    "n \<le> length xs + 2 + length rest"
  shows "memmem b p n crlf = Some (Some (p + length xs))"
proof -
  let ?r = "take (n - length xs - 2) rest"
  have h: "holds b p ((xs @ crlf @ ?r) @ drop (n - length xs - 2) rest)" using assms(1) by simp
  have l: "length (xs @ crlf @ ?r) = n" using assms(3,4) by simp
  have "p + length (xs @ crlf @ ?r) \<le> cap b"
    using holds_le_cap [OF h] by simp
  moreover have "holds b p (xs @ crlf @ ?r)" using h holds_append by blast
  ultimately show ?thesis
    using memmem_holds [of crlf b p "xs @ crlf @ ?r"] find_sub_crlf [OF assms(2), of ?r]
    unfolding l by simp
qed

lemma host_80_is:
  assumes l: "holds b p (hdr_text h @ rest)" "length rest \<ge> 128"
    and ok: "hdr_80_ok own h" "is_host h"
    and own: "field_is domain 128 own" "CR \<notin> set own"
    and q: "cap (req_subdomain q) = 64" "byte_at (req_subdomain q) 0 = NUL"
  shows "host_80 domain (length own) b q p =
     do { f \<leftarrow> put_str (req_subdomain q) (host_text own (snd h)); Some (Some (q\<lparr>req_subdomain := f\<rparr>)) }"
proof -
  obtain k v where h: "h = (k, v)" by (cases h)
  note d = field_isD [OF own(1)]
  have line: "holds b p (k @ CHR '':'' # CHR '' '' # v @ CR # LF # rest)" using l(1) h by (simp add: hdr_text_def)
  have colon: "memchr b p (CHR '':'') 64 = Some (Some (p + length k))"
    using memchr_holds [OF line, of 64] ok(1) h by (simp add: hdr_80_ok_def)
  let ?q = "Suc (Suc (p + length k))"
  have sp: "skip_spaces b (Suc (p + length k)) = Some ?q"
    by (rule skip_spaces_is [of _ _ v "LF # rest"])
      (use line ok(1) h in \<open>simp_all add: holds_append holds_Cons hdr_80_ok_def\<close>)
  have hv: "holds b ?q (v @ CR # LF # rest)" using line by (simp add: holds_append holds_Cons)
  have pre: "mem_eq b ?q own = Some (prefix own v)"
    using mem_eq_holds [OF hv, of own] own(2) l(2) d(3) by (simp add: prefix_cut)
  have first: "rd (req_subdomain q) 0 = Some NUL" using q by (simp add: rd_def)
  show ?thesis
  proof (cases "prefix own v")
    case True
    then show ?thesis
      by (simp add: host_80_def first colon sp d pre h host_text_def put_str_eq www_str_def)
  next
    case False
    then have "CHR ''.'' \<in> set (take 64 v)" using ok h by (simp add: hdr_80_ok_def)
    from first_byte [OF hv this] ok(1) h have "memchr b ?q (CHR ''.'') 64 =
        Some (Some (?q + length (takeWhile (\<lambda>c. c \<noteq> CHR ''.'') v)))"
      "rd_n b ?q (length (takeWhile (\<lambda>c. c \<noteq> CHR ''.'') v)) = Some (takeWhile (\<lambda>c. c \<noteq> CHR ''.'') v)"
      by simp_all
    with False show ?thesis
      by (simp add: host_80_def first colon sp d pre h host_text_def q)
  qed
qed

lemma host_loop_is:
  assumes own: "field_is domain 128 own" "CR \<notin> set own"
    and q: "cap (req_subdomain q) = 64" "byte_at (req_subdomain q) 0 = NUL"
    and "holds b p (concat (map hdr_text hs) @ crlf @ tail)" "1024 \<le> length tail"
    and "\<forall>h \<in> set hs. hdr_80_ok own h"
  shows "host_loop domain (length own) b q p =
     (case find is_host hs of None \<Rightarrow> Some (Some q)
      | Some h \<Rightarrow> do { f \<leftarrow> put_str (req_subdomain q) (host_text own (snd h));
                     Some (Some (q\<lparr>req_subdomain := f\<rparr>)) })"
  using assms(5-)
proof (induction hs arbitrary: p)
  case Nil
  then have "mem_eq b p crlf = Some True" using mem_eq_holds [OF Nil.prems(1), of crlf] by simp
  then show ?case by (subst host_loop.simps) simp
next
  case (Cons h hs)
  let ?rest = "concat (map hdr_text hs) @ crlf @ tail"
  have l: "holds b p (hdr_text h @ ?rest)" using Cons.prems(1) by simp
  have ok: "hdr_80_ok own h" using Cons.prems(3) by simp
  then have "\<not> prefix crlf (hdr_text h @ ?rest)"
    by (cases "fst h") (auto simp: hdr_text_def hdr_80_ok_def)
  then have n: "mem_eq b p crlf = Some False"
    using mem_eq_holds [OF l, of crlf] by (simp add: hdr_text_def)
  have ih: "strncase_eq b p host_key_str = Some (is_host h)"
    by (rule host_line [OF l]) (use ok Cons.prems(2) in \<open>simp_all add: hdr_80_ok_def\<close>)
  show ?case
  proof (cases "is_host h")
    case True
    then show ?thesis
      using n ih host_80_is [OF l _ ok True own q] Cons.prems(2) by (subst host_loop.simps) simp
  next
    case False
    have t: "hdr_text h = (fst h @ '': '' @ snd h) @ crlf" by (simp add: hdr_text_def)
    have "memmem b p 1024 crlf = Some (Some (p + length (fst h @ '': '' @ snd h)))"
      by (rule memmem_crlf [of _ _ _ ?rest])
        (use l ok Cons.prems(2) in \<open>auto simp: hdr_80_ok_def hdr_text_def\<close>)
    moreover have "holds b (p + length (hdr_text h)) ?rest" using l by (simp add: holds_append)
    ultimately show ?thesis
      using n ih False Cons.IH Cons.prems t by (subst host_loop.simps) simp
  qed
qed

section \<open>The whole exchange\<close>

lemma find_sub_suffix: "\<exists>n. find_sub x (y @ x) = Some n"
proof (induction y)
  case Nil
  then show ?case using find_sub_0 [of x x] by auto
qed auto

lemma req_text_end: "\<exists>y. req_text m u v hs = y @ crlf2"
proof (cases hs rule: rev_cases)
  case Nil
  then have "req_text m u v hs = (m @ '' '' @ u @ '' '' @ v) @ crlf2" by (simp add: req_text_def crlf2_def)
  then show ?thesis by blast
next
  case (snoc ys h)
  then have "req_text m u v hs = (m @ '' '' @ u @ '' '' @ v @ crlf @ concat (map hdr_text ys) @
      fst h @ '': '' @ snd h) @ crlf2"
    by (simp add: req_text_def hdr_text_def crlf2_def)
  then show ?thesis by blast
qed

lemma recv_text:
  assumes "length t < 8191" "t = y @ crlf2"
  shows "recv_loop (RData t # rs) (zbuf 8192) 0 = Some (Some (text_buf 8192 t))"
proof -
  have w: "wr (zbuf 8192) 0 t = Some \<lparr>bytes = t, cap = 8192\<rparr>"
    using assms(1) by (simp add: wr_def zbuf_def)
  have w2: "wr \<lparr>bytes = t, cap = 8192\<rparr> (length t) [NUL] = Some (text_buf 8192 t)"
    using assms(1) by (simp add: wr_def text_buf_def)
  have "holds (text_buf 8192 t) 0 (t @ [NUL])"
    using holds_pad [of "t @ [NUL]" 0 8192] assms(1) by (simp add: text_buf_def)
  then have h: "holds (text_buf 8192 t) 0 t" by (simp add: holds_append)
  obtain n where "find_sub crlf2 t = Some n" using find_sub_suffix assms(2) by metis
  with memmem_holds [OF _ _ h, of crlf2] assms(1) show ?thesis
    by (simp add: w w2 Let_def crlf2_def)
qed

lemma uri_80_is:
  assumes "holds b 0 (m @ CHR '' '' # u @ CHR '' '' # rest)" "CHR '' '' \<notin> set (m @ u)"
    "length m < 16" "length u < 4096"
  shows "uri_80 b zero_http_req = Some (Some (zero_http_req\<lparr>req_uri := text_buf 4096 u\<rparr>))"
proof -
  have h: "holds b (Suc (length m)) (u @ CHR '' '' # rest)"
    using assms(1) by (simp add: holds_append holds_Cons)
  have "memchr b 0 (CHR '' '') 16 = Some (Some (length m))"
    using memchr_holds [OF assms(1)] assms(2,3) by simp
  moreover have "memchr b (Suc (length m)) (CHR '' '') 4096 = Some (Some (Suc (length m) + length u))"
    using memchr_holds [OF h] assms(2,4) by simp
  moreover have "rd_n b (Suc (length m)) (length u) = Some u"
    using holds_rd_n [OF h, of "length u"] by simp
  ultimately show ?thesis
    using assms(4) by (simp add: uri_80_def put_str_zbuf text_buf_def)
qed

definition redirect_text :: "string \<Rightarrow> string \<Rightarrow> u16 \<Rightarrow> string \<Rightarrow> string" where
  "redirect_text sub own port u = ''HTTP/1.1 301 Moved Permanently'' @ crlf @ ''Location: https://'' @
     host_text_of sub own port @ u @ crlf @ ''Content-Length: 0'' @ crlf @ ''Connection: close'' @ crlf @
     ''Server: Facooya-Web-Server'' @ crlf @ crlf"

lemma find_host_ok:
  assumes "find is_host hs = Some h" "\<forall>h \<in> set hs. hdr_80_ok own h"
  shows "length (host_text own (snd h)) < 64" "NUL \<notin> set (host_text own (snd h))"
proof -
  have ok: "hdr_80_ok own h" "is_host h"
    using assms by (auto simp: find_Some_iff)
  show "NUL \<notin> set (host_text own (snd h))"
    using ok(1) by (auto simp: hdr_80_ok_def host_text_def dest: set_takeWhileD)
  show "length (host_text own (snd h)) < 64"
  proof (cases "prefix own (snd h)")
    case False
    then have "CHR ''.'' \<in> set (take 64 (snd h))" using ok by (simp add: hdr_80_ok_def)
    then obtain i where i: "i < 64" "i < length (snd h)" "snd h ! i = CHR ''.''"
      by (auto simp: in_set_conv_nth)
    have "length (takeWhile (\<lambda>c. c \<noteq> CHR ''.'') (snd h)) \<le> i"
    proof (rule ccontr)
      assume "\<not> ?thesis"
      then have l: "i < length (takeWhile (\<lambda>c. c \<noteq> CHR ''.'') (snd h))" by simp
      from nth_mem [OF l] takeWhile_nth [OF l] i(3) show False by (auto dest: set_takeWhileD)
    qed
    with i(1) False show ?thesis by (simp add: host_text_def)
  qed (simp add: host_text_def)
qed

lemma sub_80_is:
  assumes "\<forall>h \<in> set hs. hdr_80_ok own h" "cap (req_subdomain q) = 64" "req_subdomain q = zbuf 64"
  shows "\<exists>b. (case find is_host hs of None \<Rightarrow> Some (Some q)
      | Some h \<Rightarrow> do { f \<leftarrow> put_str (req_subdomain q) (host_text own (snd h));
                     Some (Some (q\<lparr>req_subdomain := f\<rparr>)) }) = Some (Some (q\<lparr>req_subdomain := b\<rparr>)) \<and>
     field_is b 64 (sub_80 own hs)"
proof (cases "find is_host hs")
  case None
  have "q\<lparr>req_subdomain := zbuf 64\<rparr> = q" using assms(3) by simp
  with None show ?thesis
    by (intro exI [of _ "zbuf 64"]) (simp add: sub_80_def field_is_def)
next
  case (Some h)
  note f = find_host_ok [OF Some assms(1)]
  with Some assms(3) show ?thesis
    by (intro exI [of _ "text_buf 64 (host_text own (snd h))"])
      (simp add: sub_80_def field_is_def put_str_zbuf text_buf_cstr flip: text_buf_def)
qed

lemma redir_80_is:
  assumes own: "field_is (conf_domain c) 128 own" "CR \<notin> set own"
    and line: "CHR '' '' \<notin> set (m @ u)" "CR \<notin> set (m @ u @ v)" "NUL \<notin> set u" "length m < 16"
      "length m + length u + length v \<le> 1000"
    and hs: "\<forall>h \<in> set hs. hdr_80_ok own h" "length (req_text m u v hs) \<le> 7000"
  shows "net_80_443_redir (RData (req_text m u v hs) # rs) send_ok c =
     (let t = redirect_text (sub_80 own hs) own (conf_https_port c) u in Some (if send_ok t then 0 else -1, [t]))"
proof -
  let ?t = "req_text m u v hs" and ?port = "conf_https_port c"
  let ?b = "text_buf 8192 ?t" and ?q = "zero_http_req\<lparr>req_uri := text_buf 4096 u\<rparr>"
  obtain y where "?t = y @ crlf2" using req_text_end by blast
  from recv_text [OF _ this] hs(2)
  have r: "recv_loop (RData ?t # rs) (zbuf 8192) 0 = Some (Some ?b)" by simp
  let ?tail = "NUL # replicate (8191 - length ?t) NUL"
  have h: "holds ?b 0 (?t @ ?tail)"
    using holds_pad [of "?t @ [NUL]" "8191 - length ?t" 8192] hs(2) by (simp add: text_buf_def)
  have u: "uri_80 ?b zero_http_req = Some (Some ?q)"
    by (rule uri_80_is [of _ m u "v @ CR # LF # concat (map hdr_text hs) @ crlf @ ?tail"])
      (use h line in \<open>simp_all add: req_text_def\<close>)
  let ?l = "m @ CHR '' '' # u @ CHR '' '' # v"
  have h2: "holds ?b 0 (?l @ crlf @ concat (map hdr_text hs) @ crlf @ ?tail)"
    using h by (simp add: req_text_def)
  have l: "memmem ?b 0 1024 crlf = Some (Some (length ?l))"
    using memmem_crlf [OF h2, of 1024] line hs(2) by simp
  have "holds ?b (length ?l + 2) (concat (map hdr_text hs) @ crlf @ ?tail)"
    using h2 by (simp add: holds_append holds_Cons add.assoc)
  from host_loop_is [OF own _ _ this, of ?q] hs
  have "host_loop (conf_domain c) (length own) ?b ?q (length ?l + 2) =
      (case find is_host hs of None \<Rightarrow> Some (Some ?q)
      | Some h \<Rightarrow> do { f \<leftarrow> put_str (req_subdomain ?q) (host_text own (snd h));
                     Some (Some (?q\<lparr>req_subdomain := f\<rparr>)) })"
    by simp
  then obtain b where hl: "host_loop (conf_domain c) (length own) ?b ?q (length ?l + 2) =
      Some (Some (?q\<lparr>req_subdomain := b\<rparr>))" and b: "field_is b 64 (sub_80 own hs)"
    using sub_80_is [OF hs(1), of ?q] by auto
  note d = field_isD [OF own(1)]
  obtain hb where hb: "net_host_build (zbuf 512) (?q\<lparr>req_subdomain := b\<rparr>) c = Some hb"
    "cstr hb 0 = Some (host_text_of (sub_80 own hs) own ?port)"
    using net_host_build_is [of "?q\<lparr>req_subdomain := b\<rparr>" _ c] b own(1) by auto
  let ?text = "redirect_text (sub_80 own hs) own ?port u"
  have f: "fmt res_301_80_fmt [AStr (host_text_of (sub_80 own hs) own ?port), AStr u] = Some ?text"
    by (simp add: res_301_80_fmt_def redirect_text_def eval_simps)
  have cu: "cstr (req_uri (?q\<lparr>req_subdomain := b\<rparr>)) 0 = Some u" using text_buf_cstr line by simp
  have ne: "(length own = 128) = False" using d(3) by simp
  have nn: "NUL \<notin> set ?text"
    using field_isD(4) [OF b] d(4) line(3) by (auto simp: redirect_text_def host_text_of_def)
  have w: "wr (zbuf (length ?text + 1)) 0 (?text @ [NUL]) = Some (text_buf (length ?text + 1) ?text)"
    by (rule text_buf_start) simp
  have s: "snprintf (zbuf (length ?text + 1)) 0 (length ?text + 1) ?text =
      Some (length ?text, text_buf (length ?text + 1) ?text)"
    using w by (simp add: snprintf_fits)
  have n: "strnlen (text_buf (length ?text + 1) ?text) 0 (length ?text + 1) = Some (length ?text)"
    using text_buf_strnlen [OF nn, of "length ?text + 1"] by (simp del: strnlen.simps)
  have rd: "rd_n (text_buf (length ?text + 1) ?text) 0 (length ?text) = Some ?text"
    using holds_rd_n [OF holds_wr [OF w], of "length ?text"] by simp
  show ?thesis
    by (simp only: net_80_443_redir_def r u l hl hb cu f s n rd d(1,5) ne if_False Option.bind.bind_lunit
        Let_def option.case prod.case)
qed

lemma redir_80_overflow:
  assumes a: "0 < length a" "length a < 8191" "find_sub crlf2 a = None"
    and b: "length b \<le> 8191" "8192 \<le> length a + length b"
  shows "net_80_443_redir (RData a # RData b # rs) send_ok c = None"
proof -
  let ?a = "text_buf 8192 a"
  have w: "wr (zbuf 8192) 0 a = Some \<lparr>bytes = a, cap = 8192\<rparr>"
    "wr \<lparr>bytes = a, cap = 8192\<rparr> (length a) [NUL] = Some ?a"
    using a(2) by (simp_all add: wr_def zbuf_def text_buf_def)
  have "holds ?a 0 (a @ [NUL])"
    using holds_pad [of "a @ [NUL]" 0 8192] a(2) by (simp add: text_buf_def)
  then have h: "holds ?a 0 a" by (simp add: holds_append)
  have m: "memmem ?a 0 (length a) crlf2 = Some None"
    using memmem_holds [OF _ _ h, of crlf2] a by (simp add: crlf2_def)
  obtain x where x: "wr ?a 0 b = Some x" "cap x = 8192"
    using wr_defined [of ?a 0 b] wr_SomeD(2) b(1) by fastforce
  have "wr x (length a + length b) [NUL] = None"
    using wr_eq_None [of x "length a + length b" "[NUL]"] x(2) b(2) by simp
  then have "recv_loop (RData a # RData b # rs) (zbuf 8192) 0 = None"
    using a by (simp add: w m x Let_def)
  then show ?thesis by (simp add: net_80_443_redir_def)
qed

text \<open>
  A request in two pieces: the second is stored over the first, so what is parsed begins with the
  second.
\<close>

lemma find_sub_mid: "find_sub x (y @ x @ z) \<noteq> None"
proof (induction y)
  case Nil
  then show ?case using find_sub_0 [of x "x @ z"] by auto
qed auto

lemma redir_80_pieces:
  assumes a: "0 < length a" "find_sub crlf2 a = None"
    and b: "b = y @ crlf2" "16 \<le> length b" "CHR '' '' \<notin> set (take 16 b)" "length a + length b < 8191"
  shows "net_80_443_redir (RData a # RData b # rs) send_ok c = Some (-1, [])"
proof -
  let ?a = "text_buf 8192 a" and ?n = "length a + length b"
  have w: "wr (zbuf 8192) 0 a = Some \<lparr>bytes = a, cap = 8192\<rparr>"
    "wr \<lparr>bytes = a, cap = 8192\<rparr> (length a) [NUL] = Some ?a"
    using b(4) by (simp_all add: wr_def zbuf_def text_buf_def)
  have "holds ?a 0 (a @ [NUL])"
    using holds_pad [of "a @ [NUL]" 0 8192] b(4) by (simp add: text_buf_def)
  then have h: "holds ?a 0 a" by (simp add: holds_append)
  have m: "memmem ?a 0 (length a) crlf2 = Some None"
    using memmem_holds [OF _ _ h, of crlf2] a b(4) by (simp add: crlf2_def)
  obtain x where x: "wr ?a 0 b = Some x" "cap x = 8192" "holds x 0 b"
    using wr_defined [of ?a 0 b] wr_SomeD(2) holds_wr b(4) by fastforce
  obtain x' where x': "wr x ?n [NUL] = Some x'" "cap x' = 8192" "holds x' 0 b"
    using wr_defined [of x ?n "[NUL]"] wr_SomeD(2) holds_wr_other [of x ?n "[NUL]" _ 0 b] b(4) x(2,3) by fastforce
  have t: "holds x' 0 (blk x' 0 ?n)" by (rule holds_of_blk) (use x'(2) b(4) in simp)
  have "blk x' 0 ?n = b @ blk x' (length b) (length a)"
    using blk_add [of x' 0 "length b" "length a"] holds_blk [OF x'(3), of "length b"] by (simp add: add.commute)
  then have "find_sub crlf2 (blk x' 0 ?n) \<noteq> None" using find_sub_mid [of crlf2 y] b(1) by simp
  then have m': "memmem x' 0 ?n crlf2 \<noteq> Some None \<and> memmem x' 0 ?n crlf2 \<noteq> None"
    using memmem_holds [OF _ _ t, of crlf2] x'(2) b(4) by (simp add: crlf2_def)
  have "recv_loop (RData a # RData b # rs) (zbuf 8192) 0 = Some (Some x')"
    using a b(4) m' by (auto simp: w m x x' Let_def)
  moreover have "memchr x' 0 (CHR '' '') 16 = Some None"
  proof (rule memchr_holds_None)
    show "holds x' 0 (take 16 b)" using holds_append [of x' 0 "take 16 b" "drop 16 b"] x'(3) by (simp del: append_take_drop_id add: append_take_drop_id [of 16 b])
    show "16 \<le> length (take 16 b)" using b(2) by simp
  qed (rule b(3))
  then have "uri_80 x' zero_http_req = Some None" by (simp add: uri_80_def)
  ultimately show ?thesis by (simp add: net_80_443_redir_def)
qed

section \<open>Properties\<close>

text \<open>
  C28. The plain port, through \<open>_fws_80_run\<close>, for a request of at most 7000
  bytes, its request line of at most 1000 with a method of less than 16, header names of less than 64, and values of \<open>Host\<close> headers
  that begin with the own domain or have a dot in their first 64 bytes.  If it arrives in one piece, it
  is answered with a 301 to the same URI at \<open>https://\<close>, the subdomain being that of the first
  \<open>Host\<close> header (\<open>www\<close> for the domain itself), the domain and the port the configured ones, and the
  return code tells whether it could be sent.  If it arrives in two pieces, the second is stored over the
  first, and when that has no space in its first 16 bytes the client gets no answer at all.
\<close>

theorem plain_port_redirects:
  assumes "field_is (conf_domain c) 128 own" "CR \<notin> set own"
    and "CHR '' '' \<notin> set (m @ u)" "CR \<notin> set (m @ u @ v)" "NUL \<notin> set u" "length m < 16"
      "length m + length u + length v \<le> 1000"
    and "\<forall>h \<in> set hs. hdr_80_ok own h" "length (req_text m u v hs) \<le> 7000"
  shows "fws_80_run True (RData (req_text m u v hs) # rs) send_ok c =
     (let t = ''HTTP/1.1 301 Moved Permanently'' @ crlf @ ''Location: https://'' @
        host_text_of (sub_80 own hs) own (conf_https_port c) @ u @ crlf @ ''Content-Length: 0'' @ crlf @
        ''Connection: close'' @ crlf @ ''Server: Facooya-Web-Server'' @ crlf @ crlf
      in Some (if send_ok t then 0 else -1, [t])) \<and>
    (\<forall>a b. req_text m u v hs = a @ b \<and> a \<noteq> [] \<and> find_sub crlf2 a = None \<and> 16 \<le> length b \<and> CHR '' '' \<notin> set (take 16 b) \<longrightarrow>
      fws_80_run True (RData a # RData b # rs) send_ok c = Some (-1, []))"
proof (intro conjI allI impI)
  show "fws_80_run True (RData (req_text m u v hs) # rs) send_ok c =
     (let t = ''HTTP/1.1 301 Moved Permanently'' @ crlf @ ''Location: https://'' @
        host_text_of (sub_80 own hs) own (conf_https_port c) @ u @ crlf @ ''Content-Length: 0'' @ crlf @
        ''Connection: close'' @ crlf @ ''Server: Facooya-Web-Server'' @ crlf @ crlf
      in Some (if send_ok t then 0 else -1, [t]))"
    using redir_80_is [OF assms] by (simp add: fws_80_run_def Let_def redirect_text_def)
next
  fix a b
  assume r: "req_text m u v hs = a @ b \<and> a \<noteq> [] \<and> find_sub crlf2 a = None \<and> 16 \<le> length b \<and> CHR '' '' \<notin> set (take 16 b)"
  obtain z where z: "req_text m u v hs = z @ crlf2" using req_text_end by blast
  have "suffix crlf2 (a @ b)" using r z by (metis suffixI)
  moreover have "suffix b (a @ b)" "length crlf2 \<le> length b" using r by (simp_all add: suffix_def crlf2_def)
  ultimately have "suffix crlf2 b" by (rule suffix_length_suffix)
  then obtain y where "b = y @ crlf2" by (auto simp: suffix_def)
  moreover have "length a + length b = length (req_text m u v hs)" using r by simp
  then have "length a + length b < 8191" using assms(9) by linarith
  ultimately show "fws_80_run True (RData a # RData b # rs) send_ok c = Some (-1, [])"
    using redir_80_pieces [of a b y rs send_ok c] r by (simp add: fws_80_run_def)
qed

theorem plain_port_redirects_witness:
  "fws_80_run True [RData (''GET /x HTTP/1.1'' @ crlf @ ''User-Agent: curl'' @ crlf @ ''HOST: img.a.io'' @ crlf @ crlf)]
     (\<lambda>_. True) (example_conf []) =
   Some (0, [''HTTP/1.1 301 Moved Permanently'' @ crlf @ ''Location: https://img.a.io:8443/x'' @ crlf @
     ''Content-Length: 0'' @ crlf @ ''Connection: close'' @ crlf @ ''Server: Facooya-Web-Server'' @ crlf @ crlf])"
proof -
  have f: "field_is (conf_domain (example_conf [])) 128 ''a.io''"
    by (simp add: field_is_def example_conf_def wf_buf_def cstr_bytes)
  have "is_host (''HOST'', ''img.a.io'')" "\<not> is_host (''User-Agent'', ''curl'')"
    by (simp_all add: is_host_def tolower_def eval_simps)
  then show ?thesis
    using plain_port_redirects [OF f, of "''GET''" "''/x''" "''HTTP/1.1''"
      "[(''User-Agent'', ''curl''), (''HOST'', ''img.a.io'')]" "[]" "\<lambda>_. True"]
    by (simp add: hdr_80_ok_def req_text_def hdr_text_def sub_80_def host_text_def host_text_of_def
        example_conf_def eval_simps)
qed

text \<open>
  C35. The loop over \<open>recv\<close> on the plain port writes outside of \<open>recv_buf\<close>: two pieces without an
  empty line in the first and of 8192 bytes or more together are enough, for every content.
\<close>

theorem plain_port_overflow:
  assumes "0 < length a" "length a < 8191" "find_sub crlf2 a = None"
    and "length b \<le> 8191" "8192 \<le> length a + length b"
  shows "fws_80_run True (RData a # RData b # rs) send_ok c = None"
  using redir_80_overflow [OF assms] by (simp add: fws_80_run_def)

theorem plain_port_overflow_witness:
  "fws_80_run True [RData (replicate 5000 (CHR ''a'')), RData (replicate 4000 (CHR ''b''))] (\<lambda>_. True)
     (example_conf []) = None"
proof -
  have "find_sub crlf2 (replicate n (CHR ''a'')) = None" for n
    by (induction n) (simp_all add: crlf2_def)
  then show ?thesis by (intro plain_port_overflow) simp_all
qed

end
