(* ===== verification/Conf_Parse.thy ===== *)
theory Conf_Parse
  imports Http_Response Http_Request
begin

text \<open>
  \<open>src/file_conf.c\<close>: the configuration file, from the bytes of the file to \<open>struct fws_conf\<close>.  The
  inner option \<open>None\<close> is \<open>return -1\<close>; \<open>main\<close> then stops and the structure is not used.
\<close>

section \<open>The table of keys\<close>

text \<open>The enumerators of \<open>CONF_LIST\<close>; each also stands for the \<open>offset\<close> of its member.\<close>

datatype conf_key = HTTP_PORT | HTTPS_PORT | ALLOW_PORTS | NFT | LIM_SWAP_TIME | LIM_PAGE | LIM_RES
  | PPS_LIMIT | PPS_BURST | BAN_LIM | BAN_TIME | DOMAIN | WEB_ROOT | WEB_LOG | SSL_CERT | SSL_KEY
  | KERNEL_TLS | CACHE_MAX_AGE | HSTS | HSTS_MAX_AGE | MIME | MIME_DEFAULT

datatype conf_type = U32_T | U16_T | BOOL_T | CHAR_T | AP_T | MIME_T

record fws_lookup =
  lk_offset :: conf_key
  lk_size :: nat
  lk_type :: conf_type
  lk_key :: string

definition conf_lookup :: "conf_key \<Rightarrow> nat \<Rightarrow> conf_type \<Rightarrow> string \<Rightarrow> fws_lookup" where
  "conf_lookup k n t s = \<lparr>lk_offset = k, lk_size = n, lk_type = t, lk_key = s\<rparr>"

definition conf_lookup_arr :: "fws_lookup list" where
  "conf_lookup_arr =
    [conf_lookup HTTP_PORT 2 U16_T ''HTTP_PORT'', conf_lookup HTTPS_PORT 2 U16_T ''HTTPS_PORT'',
     conf_lookup ALLOW_PORTS 128 AP_T ''ALLOW_PORTS'', conf_lookup NFT 1 BOOL_T ''NFT'',
     conf_lookup LIM_SWAP_TIME 4 U32_T ''LIM_SWAP_TIME'', conf_lookup LIM_PAGE 4 U32_T ''LIM_PAGE'',
     conf_lookup LIM_RES 4 U32_T ''LIM_RES'', conf_lookup PPS_LIMIT 4 U32_T ''PPS_LIMIT'',
     conf_lookup PPS_BURST 4 U32_T ''PPS_BURST'', conf_lookup BAN_LIM 4 U32_T ''BAN_LIM'',
     conf_lookup BAN_TIME 4 U32_T ''BAN_TIME'', conf_lookup DOMAIN 128 CHAR_T ''DOMAIN'',
     conf_lookup WEB_ROOT 128 CHAR_T ''WEB_ROOT'', conf_lookup WEB_LOG 128 CHAR_T ''WEB_LOG'',
     conf_lookup SSL_CERT 128 CHAR_T ''SSL_CERT'', conf_lookup SSL_KEY 128 CHAR_T ''SSL_KEY'',
     conf_lookup KERNEL_TLS 1 BOOL_T ''KERNEL_TLS'', conf_lookup CACHE_MAX_AGE 4 U32_T ''CACHE_MAX_AGE'',
     conf_lookup HSTS 1 BOOL_T ''HSTS'', conf_lookup HSTS_MAX_AGE 4 U32_T ''HSTS_MAX_AGE'',
     conf_lookup MIME 1024 MIME_T ''MIME'', conf_lookup MIME_DEFAULT 128 CHAR_T ''MIME_DEFAULT'']"

text \<open>The member at an offset, as the parsers read and write it through a cast pointer.\<close>

datatype conf_mem = U32 (un_u32: u32) | U16 (un_u16: u16) | Bool (un_bool: bool) | Chars (un_chars: cbuf)

fun conf_get :: "conf_key \<Rightarrow> fws_conf \<Rightarrow> conf_mem" where
  "conf_get HTTP_PORT c = U16 (conf_http_port c)"
| "conf_get HTTPS_PORT c = U16 (conf_https_port c)"
| "conf_get ALLOW_PORTS c = Chars (conf_allow_ports c)"
| "conf_get NFT c = Bool (conf_use_nft c)"
| "conf_get LIM_SWAP_TIME c = U32 (conf_lim_swap_time c)"
| "conf_get LIM_PAGE c = U32 (conf_lim_page c)"
| "conf_get LIM_RES c = U32 (conf_lim_res c)"
| "conf_get PPS_LIMIT c = U32 (conf_pps_limit c)"
| "conf_get PPS_BURST c = U32 (conf_pps_burst c)"
| "conf_get BAN_LIM c = U32 (conf_ban_lim c)"
| "conf_get BAN_TIME c = U32 (conf_ban_time c)"
| "conf_get DOMAIN c = Chars (conf_domain c)"
| "conf_get WEB_ROOT c = Chars (conf_web_root c)"
| "conf_get WEB_LOG c = Chars (conf_web_log c)"
| "conf_get SSL_CERT c = Chars (conf_ssl_cert c)"
| "conf_get SSL_KEY c = Chars (conf_ssl_key c)"
| "conf_get KERNEL_TLS c = Bool (conf_use_ktls c)"
| "conf_get CACHE_MAX_AGE c = U32 (conf_cache_max_age c)"
| "conf_get HSTS c = Bool (conf_use_hsts c)"
| "conf_get HSTS_MAX_AGE c = U32 (conf_hsts_max_age c)"
| "conf_get MIME c = Chars (conf_mime c)"
| "conf_get MIME_DEFAULT c = Chars (conf_mime_default c)"

fun conf_set :: "conf_key \<Rightarrow> conf_mem \<Rightarrow> fws_conf \<Rightarrow> fws_conf" where
  "conf_set HTTP_PORT m c = c\<lparr>conf_http_port := un_u16 m\<rparr>"
| "conf_set HTTPS_PORT m c = c\<lparr>conf_https_port := un_u16 m\<rparr>"
| "conf_set ALLOW_PORTS m c = c\<lparr>conf_allow_ports := un_chars m\<rparr>"
| "conf_set NFT m c = c\<lparr>conf_use_nft := un_bool m\<rparr>"
| "conf_set LIM_SWAP_TIME m c = c\<lparr>conf_lim_swap_time := un_u32 m\<rparr>"
| "conf_set LIM_PAGE m c = c\<lparr>conf_lim_page := un_u32 m\<rparr>"
| "conf_set LIM_RES m c = c\<lparr>conf_lim_res := un_u32 m\<rparr>"
| "conf_set PPS_LIMIT m c = c\<lparr>conf_pps_limit := un_u32 m\<rparr>"
| "conf_set PPS_BURST m c = c\<lparr>conf_pps_burst := un_u32 m\<rparr>"
| "conf_set BAN_LIM m c = c\<lparr>conf_ban_lim := un_u32 m\<rparr>"
| "conf_set BAN_TIME m c = c\<lparr>conf_ban_time := un_u32 m\<rparr>"
| "conf_set DOMAIN m c = c\<lparr>conf_domain := un_chars m\<rparr>"
| "conf_set WEB_ROOT m c = c\<lparr>conf_web_root := un_chars m\<rparr>"
| "conf_set WEB_LOG m c = c\<lparr>conf_web_log := un_chars m\<rparr>"
| "conf_set SSL_CERT m c = c\<lparr>conf_ssl_cert := un_chars m\<rparr>"
| "conf_set SSL_KEY m c = c\<lparr>conf_ssl_key := un_chars m\<rparr>"
| "conf_set KERNEL_TLS m c = c\<lparr>conf_use_ktls := un_bool m\<rparr>"
| "conf_set CACHE_MAX_AGE m c = c\<lparr>conf_cache_max_age := un_u32 m\<rparr>"
| "conf_set HSTS m c = c\<lparr>conf_use_hsts := un_bool m\<rparr>"
| "conf_set HSTS_MAX_AGE m c = c\<lparr>conf_hsts_max_age := un_u32 m\<rparr>"
| "conf_set MIME m c = c\<lparr>conf_mime := un_chars m\<rparr>"
| "conf_set MIME_DEFAULT m c = c\<lparr>conf_mime_default := un_chars m\<rparr>"

section \<open>Values\<close>

definition type_u32_parse :: "fws_lookup \<Rightarrow> cbuf \<Rightarrow> nat \<Rightarrow> fws_conf \<Rightarrow> fws_conf option option" where
  "type_u32_parse lk b p_base conf = do {
     (v, _) \<leftarrow> strtol b p_base;
     Some (Some (conf_set (lk_offset lk) (U32 (word_of_int v)) conf))
   }"

definition type_u16_parse :: "fws_lookup \<Rightarrow> cbuf \<Rightarrow> nat \<Rightarrow> fws_conf \<Rightarrow> fws_conf option option" where
  "type_u16_parse lk b p_base conf = do {
     (port, _) \<leftarrow> strtol b p_base;
     if port < 0 \<or> 65536 \<le> port then Some None
     else Some (Some (conf_set (lk_offset lk) (U16 (word_of_int port)) conf))
   }"

definition true_str :: string where "true_str = ''true''"
definition false_str :: string where "false_str = ''false''"

definition type_bool_parse :: "fws_lookup \<Rightarrow> cbuf \<Rightarrow> nat \<Rightarrow> fws_conf \<Rightarrow> fws_conf option option" where
  "type_bool_parse lk b p_base conf = do {
     t \<leftarrow> mem_eq b p_base true_str;
     f \<leftarrow> mem_eq b p_base false_str;
     if t then do {
       c \<leftarrow> rd b (p_base + length true_str);
       Some (if c = CHR '' '' \<or> c = LF then Some (conf_set (lk_offset lk) (Bool True) conf) else None)
     } else if f then do {
       c \<leftarrow> rd b (p_base + length false_str);
       Some (if c = CHR '' '' \<or> c = LF then Some (conf_set (lk_offset lk) (Bool False) conf) else None)
     } else Some None
   }"

definition type_char_parse :: "fws_lookup \<Rightarrow> cbuf \<Rightarrow> nat \<Rightarrow> fws_conf \<Rightarrow> fws_conf option option" where
  "type_char_parse lk b p_base conf = do {
     c \<leftarrow> rd b p_base;
     let p1 = p_base + 1;
     if c \<noteq> DQ then Some None
     else do {
       r \<leftarrow> memchr b p1 DQ (lk_size lk - 1);
       case r of None \<Rightarrow> Some None
       | Some p2 \<Rightarrow> do {
           let n = p2 - p1;
           s \<leftarrow> rd_n b p1 n;
           m \<leftarrow> put_str (un_chars (conf_get (lk_offset lk) conf)) s;
           Some (Some (conf_set (lk_offset lk) (Chars m) conf))
         }
     }
   }"

lemma strtol_le: "strtol b p = Some (v, ep) \<Longrightarrow> ep < cap b"
  by (auto simp: strtol_def strtol10_def Let_def split: if_splits)

lemma strtol_ge: "strtol b p = Some (v, ep) \<Longrightarrow> p \<le> ep"
  by (auto simp: strtol_def strtol10_def Let_def split: if_splits)

text \<open>The check of the port list: \<open>Some False\<close> for a number that is not a port.\<close>

function ap_scan :: "cbuf \<Rightarrow> nat \<Rightarrow> bool option" where
  "ap_scan b p_scan = do {
     c \<leftarrow> rd b p_scan;
     if c = LF \<or> c = NUL then Some True
     else do {
       (port, ep) \<leftarrow> strtol b p_scan;
       if ep = p_scan then ap_scan b (p_scan + 1)
       else if port < 0 \<or> 65536 \<le> port then Some False
       else do {
         c \<leftarrow> rd b ep;
         ap_scan b (if c = CHR '','' then ep + 1 else ep)
       }
     }
   }"
  by pat_completeness auto

termination
proof (relation "measure (\<lambda>(b, p). cap b - p)", goal_cases)
  case (2 b p c r v ep)
  then show ?case by (auto simp: rd_eq_Some)
next
  case (3 b p c r v ep d)
  then have "p < ep" "ep < cap b" using strtol_ge strtol_le by fastforce+
  then show ?case by auto
qed simp

declare ap_scan.simps [simp del]

definition comma_str :: string where "comma_str = '', ''"

definition type_ap_parse :: "fws_lookup \<Rightarrow> cbuf \<Rightarrow> nat \<Rightarrow> fws_conf \<Rightarrow> fws_conf option option" where
  "type_ap_parse lk b p_base conf = do {
     r \<leftarrow> memchr b p_base LF (lk_size lk - 1);
     case r of None \<Rightarrow> Some None
     | Some p_end \<Rightarrow> do {
         ok \<leftarrow> ap_scan b p_base;
         if \<not> ok then Some None
         else do {
           let n = p_end - p_base;
           let member = un_chars (conf_get (lk_offset lk) conf);
           member \<leftarrow> wr member 0 comma_str;
           s \<leftarrow> rd_n b p_base n;
           member \<leftarrow> wr member (length comma_str) s;
           member \<leftarrow> wr member (n + length comma_str) [NUL];
           Some (Some (conf_set (lk_offset lk) (Chars member) conf))
         }
       }
   }"

section \<open>The MIME block\<close>

definition tool_get_str_n :: "cbuf \<Rightarrow> nat \<Rightarrow> nat \<Rightarrow> nat option option" where
  "tool_get_str_n b p_start max_n = do {
     r \<leftarrow> memchr b p_start DQ max_n;
     Some (case r of None \<Rightarrow> None | Some p_end \<Rightarrow> Some (p_end - p_start))
   }"

text \<open>
  The loop over the extensions of one type: \<open>has_ext_norm\<close>, the end of the destination and the
  destination.  \<open>ext_n\<close> and \<open>mime_n\<close> (\<open>s32\<close> in the code) start below 1024 and never get negative:
  what is taken off was found inside them.
\<close>

function ext_loop :: "cbuf \<Rightarrow> nat \<Rightarrow> nat \<Rightarrow> nat \<Rightarrow> cbuf \<Rightarrow> (bool \<times> nat \<times> cbuf) option option" where
  "ext_loop b p_ext_scan ext_n p_dst mime =
     (if ext_n = 0 then Some (Some (False, p_dst, mime))
      else do {
        r \<leftarrow> memchr b p_ext_scan DQ ext_n;
        case r of None \<Rightarrow> Some None
        | Some p_ext_start \<Rightarrow> do {
            let ext_n = ext_n - (p_ext_start - p_ext_scan);
            let p_ext_start = p_ext_start + 1;
            let p_ext_scan = p_ext_start;
            let ext_n = ext_n - 1;
            if ext_n = 0 then Some None
            else do {
              r \<leftarrow> tool_get_str_n b p_ext_start ext_n;
              case r of None \<Rightarrow> Some None
              | Some ext_len \<Rightarrow> do {
                  s \<leftarrow> rd_n b p_ext_start ext_len;
                  mime \<leftarrow> wr mime p_dst s;
                  let p_dst = p_dst + ext_len;
                  r \<leftarrow> memchr b p_ext_scan (CHR '','') ext_n;
                  case r of
                    None \<Rightarrow> do {
                      mime \<leftarrow> wr mime p_dst (CHR '']'' # [NUL]);
                      Some (Some (True, p_dst + 1, mime))
                    }
                  | Some q \<Rightarrow> do {
                      mime \<leftarrow> wr mime p_dst (CHR '','' # [NUL]);
                      ext_loop b q (ext_n - (q - p_ext_scan)) (p_dst + 1) mime
                    }
                }
            }
          }
      })"
  by pat_completeness auto
termination by (relation "measure (\<lambda>(b, p, n, d, m). n)") auto

declare ext_loop.simps [simp del]

text \<open>
  The loop over the types.  Where \<open>p_dst\<close> is still at the start of the array, \<open>*(p_dst-1)\<close> lies
  before it.
\<close>

function mime_loop :: "cbuf \<Rightarrow> nat \<Rightarrow> nat \<Rightarrow> nat \<Rightarrow> cbuf \<Rightarrow> cbuf option option" where
  "mime_loop b p_scan mime_n p_dst mime =
     (if mime_n = 0 then Some (Some mime)
      else do {
        r \<leftarrow> memchr b p_scan DQ mime_n;
        case r of
          None \<Rightarrow> do {
            c \<leftarrow> (if p_dst = 0 then None else rd mime (p_dst - 1));
            Some (if c = CHR '']'' then Some mime else None)
          }
        | Some q \<Rightarrow> do {
            let p_start = q + 1;
            let mime_n = mime_n - (p_start - p_scan);
            r \<leftarrow> tool_get_str_n b p_start mime_n;
            case r of None \<Rightarrow> Some None
            | Some mime_len \<Rightarrow> do {
                let mime_n = mime_n - mime_len;
                let p_scan = p_start + mime_len + 1;
                s \<leftarrow> rd_n b p_start mime_len;
                mime \<leftarrow> wr mime p_dst s;
                let p_dst = p_dst + mime_len;
                r \<leftarrow> memchr b p_scan (CHR ''['') mime_n;
                case r of None \<Rightarrow> Some None
                | Some q \<Rightarrow> do {
                    let p_ext_start = q + 1;
                    let mime_n = mime_n - (p_ext_start - p_scan);
                    r \<leftarrow> memchr b p_ext_start (CHR '']'') mime_n;
                    case r of None \<Rightarrow> Some None
                    | Some p_ext_end \<Rightarrow> do {
                        let ext_n = p_ext_end - p_ext_start;
                        mime \<leftarrow> wr mime p_dst (CHR ''['' # [NUL]);
                        r \<leftarrow> ext_loop b p_ext_start ext_n (p_dst + 1) mime;
                        case r of None \<Rightarrow> Some None
                        | Some (has_ext_norm, p_dst, mime) \<Rightarrow> do {
                            mime \<leftarrow> wr mime p_dst [NUL];
                            if \<not> has_ext_norm then Some None
                            else mime_loop b p_ext_end (mime_n - ext_n) p_dst mime
                          }
                      }
                  }
              }
          }
      })"
  by pat_completeness auto
termination
proof (relation "measure (\<lambda>(b, p, n, d, m). n)", goal_cases)
  case (2 b p_scan mime_n p_dst mime r q)
  then show ?case using memchr_SomeD(1) [of b p_scan DQ mime_n q] by auto
qed simp

declare mime_loop.simps [simp del]

definition type_mime_parse :: "fws_lookup \<Rightarrow> cbuf \<Rightarrow> nat \<Rightarrow> fws_conf \<Rightarrow> fws_conf option option" where
  "type_mime_parse lk b p_base conf = do {
     r \<leftarrow> memchr b p_base (CHR ''{'') (lk_size lk - 1);
     case r of None \<Rightarrow> Some None
     | Some p_start \<Rightarrow>
         if p_base < p_start then Some None
         else do {
           let mime_skip = p_base - p_start;
           let p_start = p_start + mime_skip + 1;
           r \<leftarrow> memchr b p_start (CHR ''}'') (lk_size lk - 1 - mime_skip);
           case r of None \<Rightarrow> Some None
           | Some p_end \<Rightarrow> do {
               let mime_n = p_end - p_start;
               if lk_size lk \<le> mime_n then Some None
               else do {
                 r \<leftarrow> mime_loop b p_start mime_n 0 (conf_mime conf);
                 Some (map_option (\<lambda>m. conf\<lparr>conf_mime := m\<rparr>) r)
               }
             }
         }
   }"

section \<open>Lines\<close>

definition conf_parse_val :: "fws_lookup \<Rightarrow> cbuf \<Rightarrow> nat \<Rightarrow> fws_conf \<Rightarrow> fws_conf option option" where
  "conf_parse_val lk = (case lk_type lk of
     U32_T \<Rightarrow> type_u32_parse lk | U16_T \<Rightarrow> type_u16_parse lk | BOOL_T \<Rightarrow> type_bool_parse lk
   | CHAR_T \<Rightarrow> type_char_parse lk | AP_T \<Rightarrow> type_ap_parse lk | MIME_T \<Rightarrow> type_mime_parse lk)"

text \<open>The loop over the table: where the line goes on, and the structure.\<close>

primrec key_loop :: "fws_lookup list \<Rightarrow> cbuf \<Rightarrow> nat \<Rightarrow> fws_conf \<Rightarrow> (nat \<times> fws_conf) option option" where
  "key_loop [] b p_scan conf = Some (Some (p_scan, conf))"
| "key_loop (lk # lks) b p_scan conf = do {
     r \<leftarrow> memchr b p_scan (CHR '' '') 16;
     case r of None \<Rightarrow> Some (Some (p_scan, conf))
     | Some p_end \<Rightarrow> do {
         let conf_key_len = p_end - p_scan;
         let key_len = min 16 (length (lk_key lk));
         if conf_key_len \<noteq> key_len then key_loop lks b p_scan conf
         else do {
           eq \<leftarrow> mem_eq b p_scan (take key_len (lk_key lk));
           if \<not> eq then key_loop lks b p_scan conf
           else do {
             p_scan \<leftarrow> skip_spaces b (p_scan + conf_key_len);
             r \<leftarrow> conf_parse_val lk b p_scan conf;
             Some (map_option (\<lambda>c. (p_scan, c)) r)
           }
         }
       }
   }"

function skip_newlines :: "cbuf \<Rightarrow> nat \<Rightarrow> nat option" where
  "skip_newlines b p =
     do { c \<leftarrow> rd b p; if c = LF then skip_newlines b (p + 1) else Some p }"
  by pat_completeness auto
termination by (relation "measure (\<lambda>(b, p). cap b - p)") (auto simp: rd_eq_Some)

declare skip_newlines.simps [simp del]

lemma skip_newlines_le: "skip_newlines b p = Some p' \<Longrightarrow> p \<le> p'"
proof (induction b p rule: skip_newlines.induct)
  case (1 b p)
  from "1.prems" show ?case
    by (subst (asm) skip_newlines.simps)
      (auto simp: Option.bind_eq_Some_conv split: if_splits dest!: "1.IH")
qed

lemma key_loop_goes_on:
  "pred_option (\<lambda>r. case r of None \<Rightarrow> True | Some (p', conf') \<Rightarrow> p \<le> p') (key_loop lks b p conf)"
proof (induction lks)
  case (Cons lk lks)
  have "pred_option (\<lambda>r. case r of None \<Rightarrow> True | Some (p', conf') \<Rightarrow> p \<le> p')
      (Some (map_option (\<lambda>c. (q, c)) (r :: fws_conf option)))" if "p \<le> q" for q r
    using that by (cases r) simp_all
  then show ?case
    unfolding key_loop.simps Let_def
    by (intro pred_rules Cons.IH) (auto dest!: skip_spaces_le)
qed simp

text \<open>The loop over the lines; \<open>total_n\<close> is always the offset of \<open>p_scan\<close> in \<open>conf_buf\<close>.\<close>

function conf_loop :: "cbuf \<Rightarrow> nat \<Rightarrow> nat \<Rightarrow> fws_conf \<Rightarrow> fws_conf option option" where
  "conf_loop b conf_len p_scan conf =
     (if p_scan < conf_len then do {
        c \<leftarrow> rd b p_scan;
        r \<leftarrow> (if c = CHR ''#'' then Some (Some (p_scan, conf)) else key_loop conf_lookup_arr b p_scan conf);
        case r of None \<Rightarrow> Some None
        | Some (p_scan, conf) \<Rightarrow> do {
            r \<leftarrow> memchr b p_scan LF (conf_len - p_scan);
            case r of None \<Rightarrow> Some None
            | Some p_end \<Rightarrow> do {
                p_scan \<leftarrow> skip_newlines b (p_end + 1);
                conf_loop b conf_len p_scan conf
              }
          }
      } else Some (Some conf))"
  by pat_completeness auto
termination
proof (relation "measure (\<lambda>(b, n, p, c). n - p)", goal_cases)
  case (2 b conf_len p conf c r pc p1 conf1 r1 p_end p2)
  then have "p \<le> p1"
    using pred_SomeD [OF key_loop_goes_on [of p conf_lookup_arr b conf]] by (auto split: if_splits)
  moreover have "p1 \<le> p_end" using memchr_SomeD(1) 2 by blast
  moreover have "p_end + 1 \<le> p2" using skip_newlines_le 2 by blast
  ultimately show ?case using 2(1) by auto
qed simp

declare conf_loop.simps [simp del]

definition conf_parse :: "fws_conf \<Rightarrow> cbuf \<Rightarrow> nat \<Rightarrow> (s32 \<times> fws_conf) option" where
  "conf_parse conf conf_buf conf_len = do {
     r \<leftarrow> conf_loop conf_buf conf_len 0 conf;
     Some (case r of None \<Rightarrow> (-1, conf) | Some c \<Rightarrow> (0, c))
   }"

text \<open>
  \<open>file_conf_read\<close>: \<open>open_stat path\<close> is \<open>None\<close> when \<open>open\<close> fails, \<open>Some None\<close> when \<open>fstat\<close> fails and
  otherwise the size; \<open>content path\<close> is what \<open>read\<close> delivers, \<open>None\<close> when it fails.
\<close>

definition file_conf_read ::
  "(string \<Rightarrow> nat option option) \<Rightarrow> (string \<Rightarrow> string option) \<Rightarrow> fws_conf \<Rightarrow> string \<Rightarrow>
     (s32 \<times> fws_conf) option" where
  "file_conf_read open_stat content conf path =
     (case open_stat path of
        Some (Some st_size) \<Rightarrow> do {
          let conf_len = st_size + 1;
          let conf_buf = zbuf (conf_len + 1);
          case content path of None \<Rightarrow> Some (-1, conf)
          | Some s \<Rightarrow> do {
              conf_buf \<leftarrow> wr conf_buf 0 s;
              conf_buf \<leftarrow> wr conf_buf (conf_len - 1) [LF];
              conf_buf \<leftarrow> wr conf_buf conf_len [NUL];
              (ret, c) \<leftarrow> conf_parse conf conf_buf conf_len;
              Some (if ret < 0 then -1 else 0, c)
            }
        }
      | _ \<Rightarrow> Some (-1, conf))"

end
