(* ===== verification/Conf_Text.thy ===== *)
theory Conf_Text
  imports Conf_Parse
begin

text \<open>
  Configurations as text, what they mean, and that \<open>file_conf_read\<close> of \<open>Conf_Parse\<close> gives every key
  the meaning of its last line.
\<close>

section \<open>The text of a configuration\<close>

datatype conf_val = VNum nat | VBool bool | VStr string | VPorts "nat list"
  | VMime "(nat \<times> string \<times> string list) list"

text \<open>
  A line of the file.  A MIME block is a list of entries, each the number of blank lines before
  it, the type and the extensions.
\<close>

datatype conf_item = Blank | Comment string | Setting conf_key conf_val

fun ext_list :: "string list \<Rightarrow> string" where
  "ext_list [] = []"
| "ext_list [e] = DQ # e @ [DQ]"
| "ext_list (e # es) = DQ # e @ DQ # '', '' @ ext_list es"

fun mime_line :: "nat \<times> string \<times> string list \<Rightarrow> string" where
  "mime_line (k, ty, es) =
     replicate k LF @ CHR 0x09 # DQ # ty @ DQ # '': ['' @ ext_list es @ ''],'' @ [LF]"

fun ports_text :: "nat list \<Rightarrow> string" where
  "ports_text [] = []"
| "ports_text [n] = dec n"
| "ports_text (n # ns) = dec n @ '', '' @ ports_text ns"

fun val_text :: "conf_val \<Rightarrow> string" where
  "val_text (VNum n) = dec n"
| "val_text (VBool t) = (if t then ''true'' else ''false'')"
| "val_text (VStr s) = DQ # s @ [DQ]"
| "val_text (VPorts ps) = ports_text ps"
| "val_text (VMime es) = CHR ''{'' # LF # concat (map mime_line es) @ ''}''"

definition lookup_of :: "conf_key \<Rightarrow> fws_lookup" where
  "lookup_of k = (case find (\<lambda>lk. lk_offset lk = k) conf_lookup_arr of Some lk \<Rightarrow> lk | None \<Rightarrow> hd conf_lookup_arr)"

fun item_text :: "conf_item \<Rightarrow> string" where
  "item_text Blank = [LF]"
| "item_text (Comment s) = CHR ''#'' # s @ [LF]"
| "item_text (Setting k v) = lk_key (lookup_of k) @ CHR '' '' # val_text v @ [LF]"

definition conf_text :: "conf_item list \<Rightarrow> string" where
  "conf_text items = concat (map item_text items)"

text \<open>The values a key can have.\<close>

definition mime_ok :: "nat \<times> string \<times> string list \<Rightarrow> bool" where
  "mime_ok e \<longleftrightarrow> entry_ok (snd e) \<and> set (fst (snd e)) \<inter> {DQ, CHR ''}'', LF} = {} \<and>
     (\<forall>x \<in> set (snd (snd e)). set x \<inter> {DQ, CHR ''}'', LF} = {})"

fun val_ok :: "conf_type \<Rightarrow> conf_val \<Rightarrow> bool" where
  "val_ok U32_T (VNum n) = (n < 2 ^ 32)"
| "val_ok U16_T (VNum n) = (n < 2 ^ 16)"
| "val_ok BOOL_T (VBool t) = True"
| "val_ok CHAR_T (VStr s) = (set s \<inter> {DQ, LF, NUL} = {} \<and> length s < 127)"
| "val_ok AP_T (VPorts ps) = (ps \<noteq> [] \<and> list_all (\<lambda>n. n < 2 ^ 16) ps \<and> length (ports_text ps) < 126)"
| "val_ok MIME_T (VMime es) = (es \<noteq> [] \<and> list_all mime_ok es \<and> length (concat (map mime_line es)) < 1022)"
| "val_ok _ _ = False"

text \<open>What the member of a key holds then.\<close>

fun val_is :: "conf_type \<Rightarrow> conf_val \<Rightarrow> conf_mem \<Rightarrow> bool" where
  "val_is U32_T (VNum n) m = (m = U32 (of_nat n))"
| "val_is U16_T (VNum n) m = (m = U16 (of_nat n))"
| "val_is BOOL_T (VBool t) m = (m = Bool t)"
| "val_is CHAR_T (VStr s) m = (\<exists>b. m = Chars b \<and> field_is b 128 s)"
| "val_is AP_T (VPorts ps) m = (\<exists>b. m = Chars b \<and> field_is b 128 ('', '' @ ports_text ps))"
| "val_is MIME_T (VMime es) m =
     (\<exists>b rest. m = Chars b \<and> holds b 0 (mime_text (map snd es) @ NUL # rest) \<and> cap b = 1024)"
| "val_is _ _ m = False"

text \<open>
  Items the parser reads as intended when \<open>tail\<close> follows them.  What follows a MIME block matters: the window of
  the search for the next type grows by one byte with every entry, so no quote may stand in the
  bytes behind the block, and the array must reach that far.
\<close>

fun conf_ok :: "string \<Rightarrow> conf_item list \<Rightarrow> bool" where
  "conf_ok tail [] = True"
| "conf_ok tail (Blank # is) = conf_ok tail is"
| "conf_ok tail (Comment s # is) = (LF \<notin> set s \<and> conf_ok tail is)"
| "conf_ok tail (Setting k v # is) =
     (val_ok (lk_type (lookup_of k)) v \<and> conf_ok tail is \<and>
      (case v of VMime es \<Rightarrow>
         (let t = LF # conf_text is @ tail in
          DQ \<notin> set (take (length es) t) \<and> max 16 (length es) \<le> length t) | _ \<Rightarrow> True))"

text \<open>The last value of a key.\<close>

fun last_val :: "conf_key \<Rightarrow> conf_item list \<Rightarrow> conf_val option" where
  "last_val k [] = None"
| "last_val k (Setting j v # is) =
     (case last_val k is of Some w \<Rightarrow> Some w | None \<Rightarrow> if j = k then Some v else None)"
| "last_val k (_ # is) = last_val k is"

section \<open>Positions in the file\<close>

text \<open>From \<open>p\<close> on, the file is \<open>s\<close>.\<close>

definition at :: "cbuf \<Rightarrow> nat \<Rightarrow> string \<Rightarrow> bool" where
  "at b p s \<longleftrightarrow> length (bytes b) = cap b \<and> p \<le> cap b \<and> drop p (bytes b) = s"

lemma at_append: "at b p (x @ y) \<Longrightarrow> at b (p + length x) y"
proof -
  assume a: "at b p (x @ y)"
  then have "length (bytes b) - p = length x + length y" "p \<le> cap b" "length (bytes b) = cap b"
    unfolding at_def by (metis length_append length_drop, simp_all)
  moreover have "drop (length x) (drop p (bytes b)) = y" using a by (simp add: at_def)
  ultimately show "at b (p + length x) y" by (simp add: at_def add.commute)
qed

lemma at_Cons: "at b p (c # y) \<Longrightarrow> at b (Suc p) y"
  using at_append [of b p "[c]" y] by simp

lemma at_length: "at b p s \<Longrightarrow> p + length s = cap b"
  by (auto simp: at_def)

lemma at_holds: "at b p s \<Longrightarrow> holds b p s"
  by (auto simp: at_def holds_def rd_def byte_at_def)

lemma put_at:
  assumes "holds m 0 out" "length out + length s \<le> cap m"
  shows "\<exists>m'. wr m (length out) s = Some m' \<and> holds m' 0 (out @ s) \<and> cap m' = cap m \<and>
    (wf_buf m \<longrightarrow> wf_buf m')"
proof -
  obtain m' where w: "wr m (length out) s = Some m'" using wr_defined [of m "length out" s] assms(2) by auto
  have "holds m' 0 out" using holds_wr_other [OF w] assms(1) by simp
  moreover have "holds m' (length out) s" using holds_wr [OF w] .
  ultimately show ?thesis using w wr_SomeD(2) [OF w] wr_wf [OF w] by (auto simp: holds_append)
qed


lemma lookup_mem: "lookup_of k \<in> set conf_lookup_arr" and lookup_offset: "lk_offset (lookup_of k) = k"
  by (cases k; simp add: lookup_of_def conf_lookup_arr_def conf_lookup_def)+

lemma strtol10_space:
  "strtol10 (CHR '' '' # s) = (case strtol10 s of (v, n, r) \<Rightarrow> (v, if n = 0 then 0 else Suc n, Suc r))"
proof -
  have "isspace (CHR '' '')" by (simp add: isspace_def)
  then show ?thesis by (simp add: strtol10_def Let_def)
qed

lemma digit_start:
  assumes "sp = [] \<or> sp = '' ''"
  shows "\<exists>c t. sp @ dec n @ rest = c # t \<and> c \<noteq> LF \<and> c \<noteq> NUL"
proof -
  obtain x xs where x: "dec n = x # xs" by (cases "dec n") auto
  then have "isdigit x" using dec_isdigit [of x n] by simp
  then have "x \<noteq> LF" "x \<noteq> NUL" by (auto simp: isdigit_def)
  then show ?thesis using assms x by auto
qed

lemma at_strtol:
  assumes "at b p (sp @ dec n @ c # rest)" "int n < 2 ^ 63" "\<not> isdigit c" "sp = [] \<or> sp = '' ''"
  shows "strtol b p = Some (int n, p + length sp + length (dec n))"
proof -
  have l: "p + length sp + length (dec n) + 1 \<le> cap b" using at_length [OF assms(1)] by simp
  have d: "drop p (bytes b) = sp @ dec n @ c # rest" using assms(1) by (simp add: at_def)
  have "strtol10 (sp @ dec n @ c # rest) = (int n, length sp + length (dec n), Suc (length sp + length (dec n)))"
    using assms(4) strtol10_dec [OF assms(2,3), of rest] by (auto simp: strtol10_space)
  with l show ?thesis unfolding strtol_def d by simp
qed

lemma num_range: "n < 2 ^ 16 \<Longrightarrow> int n < 2 ^ 63" "n < 2 ^ 32 \<Longrightarrow> int n < 2 ^ 63"
  by simp_all

lemma not_digit: "\<not> isdigit LF" "\<not> isdigit (CHR '','')"
  by (simp_all add: isdigit_def)

lemma ap_scan_is:
  "ps \<noteq> [] \<Longrightarrow> list_all (\<lambda>n. n < 2 ^ 16) ps \<Longrightarrow> sp = [] \<or> sp = '' '' \<Longrightarrow>
     at b p (sp @ ports_text ps @ LF # rest) \<Longrightarrow> ap_scan b p = Some True"
proof (induction ps arbitrary: p sp rule: ports_text.induct)
  case (2 n)
  then have a: "at b p (sp @ dec n @ LF # rest)" by simp
  have n: "int n < 2 ^ 63" "int n < 65536" using 2 by simp_all
  have st: "strtol b p = Some (int n, p + length sp + length (dec n))"
    by (rule at_strtol [OF a n(1)]) (use 2 not_digit in auto)
  obtain c t where c: "sp @ dec n @ LF # rest = c # t" "c \<noteq> LF" "c \<noteq> NUL"
    using digit_start [OF "2.prems"(3)] by blast
  then have r: "rd b p = Some c" using at_holds [OF a] by (simp add: holds_Cons)
  have e: "at b (p + length sp + length (dec n)) (LF # rest)"
    using at_append [of b p "sp @ dec n"] a by (simp add: add.assoc)
  then have r2: "rd b (p + length sp + length (dec n)) = Some LF"
    using at_holds [OF e] by (simp add: holds_Cons)
  have "ap_scan b (p + length sp + length (dec n)) = Some True"
    by (subst ap_scan.simps) (simp add: r2)
  then show ?case by (subst ap_scan.simps) (use c n in \<open>simp add: r st r2\<close>)
next
  case (3 n m ns)
  let ?rest = "'' '' @ ports_text (m # ns) @ LF # rest"
  have a: "at b p (sp @ dec n @ CHR '','' # ?rest)" using 3 by simp
  have n: "int n < 2 ^ 63" "int n < 65536" using 3 by simp_all
  have st: "strtol b p = Some (int n, p + length sp + length (dec n))"
    by (rule at_strtol [OF a n(1)]) (use 3 not_digit in auto)
  obtain c t where c: "sp @ dec n @ CHR '','' # ?rest = c # t" "c \<noteq> LF" "c \<noteq> NUL"
    using digit_start [OF "3.prems"(3)] by blast
  then have r: "rd b p = Some c" using at_holds [OF a] by (simp add: holds_Cons)
  have e: "at b (p + length sp + length (dec n)) (CHR '','' # ?rest)"
    using at_append [of b p "sp @ dec n"] a by (simp add: add.assoc)
  then have r2: "rd b (p + length sp + length (dec n)) = Some (CHR '','')"
    using at_holds [OF e] by (simp add: holds_Cons)
  have "ap_scan b (Suc (p + length sp + length (dec n))) = Some True"
    by (rule "3.IH" [OF _ _ _ at_Cons [OF e]]) (use "3.prems" in auto)
  then show ?case by (subst ap_scan.simps) (use c n in \<open>simp add: r st r2\<close>)
qed simp

section \<open>MIME blocks\<close>

lemma memchr_window_None:
  "holds b p xs \<Longrightarrow> n \<le> length xs \<Longrightarrow> c \<notin> set (take n xs) \<Longrightarrow> memchr b p c n = Some None"
  using memchr_holds_None [of b p "take n xs" c n] holds_append [of b p "take n xs" "drop n xs"] by simp

lemma get_str_is:
  "holds b p (s @ DQ # rest) \<Longrightarrow> DQ \<notin> set s \<Longrightarrow> length s < n \<Longrightarrow> tool_get_str_n b p n = Some (Some (length s))"
  using memchr_holds [of b p s DQ rest n] by (simp add: tool_get_str_n_def)

lemma ext_loop_is:
  assumes "es \<noteq> []" "list_all ext_ok es" "\<forall>e \<in> set es. DQ \<notin> set e" "DQ \<notin> set sp"
    and "holds b p (sp @ ext_list es @ rest)" "n = length (sp @ ext_list es)"
    and "holds m 0 out" "length (out @ join es) + 2 \<le> cap m"
  shows "\<exists>m'. ext_loop b p n (length out) m = Some (Some (True, length out + length (join es) + 1, m')) \<and>
    holds m' 0 (out @ join es @ CHR '']'' # [NUL]) \<and> cap m' = cap m"
  using assms
proof (induction es arbitrary: p sp n m out rule: ext_list.induct)
  case (2 e)
  let ?q = "p + length sp"
  have h: "holds b p (sp @ DQ # e @ DQ # rest)" using "2.prems"(5) by simp
  have q: "memchr b p DQ n = Some (Some ?q)"
    using memchr_holds [OF h, of n] "2.prems"(4,6) by simp
  have he: "holds b (Suc ?q) (e @ DQ # rest)" using h by (simp add: holds_append holds_Cons)
  have k: "n - (?q - p) - 1 = Suc (length e)" using "2.prems"(6) by simp
  have g: "tool_get_str_n b (Suc ?q) (Suc (length e)) = Some (Some (length e))"
    by (rule get_str_is [OF he]) (use "2.prems"(3) in simp_all)
  have r: "rd_n b (Suc ?q) (length e) = Some e" using holds_rd_n [OF he, of "length e"] by simp
  have c: "memchr b (Suc ?q) (CHR '','') (Suc (length e)) = Some None"
    by (rule memchr_window_None [OF he]) (use "2.prems"(2) in \<open>auto simp: ext_ok_def\<close>)
  obtain m1 where m1: "wr m (length out) e = Some m1" "holds m1 0 (out @ e)" "cap m1 = cap m"
    using put_at [OF "2.prems"(7), of e] "2.prems"(8) by auto
  obtain m2 where m2: "wr m1 (length (out @ e)) (CHR '']'' # [NUL]) = Some m2"
      "holds m2 0 ((out @ e) @ CHR '']'' # [NUL])" "cap m2 = cap m1"
    using put_at [OF m1(2), of "CHR '']'' # [NUL]"] m1(3) "2.prems"(8) by auto
  show ?case
    by (subst ext_loop.simps)
      (use q k g r c m1 m2 "2.prems"(6) in \<open>simp add: Let_def del: memchr.simps\<close>)
next
  case (3 e e2 es)
  let ?q = "p + length sp" and ?t = "'' '' @ ext_list (e2 # es)"
  have h: "holds b p (sp @ DQ # e @ DQ # CHR '','' # ?t @ rest)" using "3.prems"(5) by simp
  have q: "memchr b p DQ n = Some (Some ?q)"
    using memchr_holds [OF h, of n] "3.prems"(4,6) by simp
  have he: "holds b (Suc ?q) (e @ DQ # CHR '','' # ?t @ rest)" using h by (simp add: holds_append holds_Cons)
  have k: "n - (?q - p) - 1 = Suc (Suc (length e + length ?t))" using "3.prems"(6) by simp
  have g: "tool_get_str_n b (Suc ?q) (Suc (Suc (length e + length ?t))) = Some (Some (length e))"
    by (rule get_str_is [OF he]) (use "3.prems"(3) in simp_all)
  have r: "rd_n b (Suc ?q) (length e) = Some e" using holds_rd_n [OF he, of "length e"] by simp
  have he2: "holds b (Suc ?q) ((e @ [DQ]) @ CHR '','' # ?t @ rest)" using he by simp
  have c: "memchr b (Suc ?q) (CHR '','') (Suc (Suc (length e + length ?t))) =
      Some (Some (Suc ?q + Suc (length e)))"
    using memchr_holds [OF he2] "3.prems"(2) by (auto simp: ext_ok_def simp del: memchr.simps)
  obtain m1 where m1: "wr m (length out) e = Some m1" "holds m1 0 (out @ e)" "cap m1 = cap m"
    using put_at [OF "3.prems"(7), of e] "3.prems"(8) by auto
  obtain m2 where m2: "wr m1 (length (out @ e)) (CHR '','' # [NUL]) = Some m2"
      "holds m2 0 ((out @ e) @ CHR '','' # [NUL])" "cap m2 = cap m1"
    using put_at [OF m1(2), of "CHR '','' # [NUL]"] m1(3) "3.prems"(8)
    by (cases e2; cases es) (auto simp: ext_ok_def)
  then have m2': "holds m2 0 (out @ e @ '','')" by (simp add: holds_append holds_Cons)
  have ht: "holds b (Suc ?q + Suc (length e)) ('', '' @ ext_list (e2 # es) @ rest)"
    using he by (simp add: holds_append holds_Cons)
  obtain m3 where m3: "ext_loop b (Suc ?q + Suc (length e)) (length ('', '' @ ext_list (e2 # es)))
        (length (out @ e @ '','')) m2 =
      Some (Some (True, length (out @ e @ '','') + length (join (e2 # es)) + 1, m3))"
    "holds m3 0 ((out @ e @ '','') @ join (e2 # es) @ CHR '']'' # [NUL])" "cap m3 = cap m2"
    using "3.IH" [OF _ _ _ _ ht refl m2'] "3.prems" m1(3) m2(3) by auto
  have n2: "Suc (Suc (length e + length ?t)) - (Suc ?q + Suc (length e) - Suc ?q) = length ('', '' @ ext_list (e2 # es))"
    by simp
  show ?case
    by (subst ext_loop.simps)
      (use q k g r c m1 m2 m3 n2 "3.prems"(6) in \<open>simp add: Let_def numeral_3_eq_3 del: memchr.simps\<close>)
qed simp


lemma no_quote_exts: "list_all ext_ok es \<Longrightarrow> CHR '']'' \<notin> set (ext_list es)"
  by (induction es rule: ext_list.induct) (auto simp: ext_ok_def)

lemma length_join: "length (join es) \<le> length (ext_list es)"
  by (induction es rule: ext_list.induct) auto

lemma length_mime_entry: "length (mime_entry (ty, es)) + 6 \<le> length (mime_line (k, ty, es))"
  using length_join [of es] by (simp add: mime_entry_def)

lemma mime_loop_is:
  assumes "list_all mime_ok es" "DQ \<notin> set sep"
    and "holds b p (sep @ concat (map mime_line es) @ CHR ''}'' # tail)"
    and "n = length (sep @ concat (map mime_line es)) + j"
    and "window = take (j + length es) (CHR ''}'' # tail)" "count_list window DQ \<le> 1" "j + length es \<le> length tail"
    and "holds m 0 out" "es = [] \<longrightarrow> holds m 0 (out @ [NUL]) \<and> out \<noteq> [] \<and> last out = CHR '']''"
    and "length out + length (mime_text (map snd es)) + 1 \<le> cap m"
  shows "\<exists>r. mime_loop b p n (length out) m = Some r \<and>
     (case r of None \<Rightarrow> DQ \<in> set window
      | Some m' \<Rightarrow> DQ \<notin> set window \<and> holds m' 0 (out @ mime_text (map snd es) @ [NUL]) \<and> cap m' = cap m)"
  using assms
proof (induction es arbitrary: p sep n j m out)
  case Nil
  have out: "holds m 0 (out @ [NUL])" "out \<noteq> []" "last out = CHR '']''" using Nil.prems(9) by simp_all
  have h: "holds b p (sep @ CHR ''}'' # tail)" using Nil.prems(3) by simp
  have n: "n = length sep + j" using Nil.prems(4) by simp
  show ?case
  proof (cases "DQ \<in> set window")
    case True
    then obtain x y where xy: "window = x @ DQ # y" "DQ \<notin> set x" by (meson split_list_first)
    then have y: "DQ \<notin> set y" using Nil.prems(6) by (simp add: count_list_0_iff)
    have "length window = j" using Nil.prems(5,7) by simp
    then have l: "length x + length y + 1 = j" using xy(1) by simp
    have "CHR ''}'' # tail = window @ drop j (CHR ''}'' # tail)" using Nil.prems(5) by simp
    then have h2: "holds b p (sep @ x @ DQ # y @ drop j (CHR ''}'' # tail))" using h xy(1) by simp
    then have "holds b p ((sep @ x) @ DQ # y @ drop j (CHR ''}'' # tail))" by simp
    from memchr_holds [OF this, of n] have q: "memchr b p DQ n = Some (Some (p + length (sep @ x)))"
      using Nil.prems(2) xy(2) n l by simp
    have "holds b (p + length (sep @ x) + 1) (y @ drop j (CHR ''}'' # tail))"
      using h2 by (simp add: holds_append holds_Cons add.assoc)
    then have "memchr b (p + length (sep @ x) + 1) DQ (length y) = Some None"
      by (rule memchr_window_None) (use y in simp_all)
    moreover have "n - (p + length (sep @ x) + 1 - p) = length y" using n l by simp
    ultimately have g: "tool_get_str_n b (p + length (sep @ x) + 1) (n - (p + length (sep @ x) + 1 - p)) = Some None"
      by (simp only: tool_get_str_n_def) simp
    have nz: "(n = 0) = False" using n l by simp
    have "mime_loop b p n (length out) m = Some None"
      by (subst mime_loop.simps) (simp only: nz if_False q g Let_def option.case Option.bind.bind_lunit)
    then show ?thesis using True by simp
  next
    case False
    have "memchr b p DQ n = Some None"
      by (rule memchr_window_None [OF h]) (use Nil.prems False in auto)
    moreover have "rd m (length out - 1) = Some (CHR '']'')"
    proof -
      obtain o' where o': "out = o' @ [CHR '']'']" using out by (metis append_butlast_last_id)
      then show ?thesis using out(1) by (simp add: holds_append holds_Cons)
    qed
    ultimately have "mime_loop b p n (length out) m = Some (Some m)"
      using out by (subst mime_loop.simps) (simp del: memchr.simps)
    then show ?thesis using False out(1) by (simp add: mime_text_def)
  qed
next
  case (Cons e es)
  obtain k ty xs where e: "e = (k, ty, xs)" by (cases e)
  let ?ls = "concat (map mime_line es)"
  have ok: "DQ \<notin> set ty" "CHR ''['' \<notin> set ty" "xs \<noteq> []" "list_all ext_ok xs" "\<forall>x \<in> set xs. DQ \<notin> set x"
    using Cons.prems(1) e by (auto simp: mime_ok_def entry_ok_def)
  let ?pre = "sep @ replicate k LF @ [CHR 0x09]"
  let ?tl = "'','' @ LF # ?ls @ CHR ''}'' # tail"
  have h: "holds b p (?pre @ DQ # ty @ DQ # '': ['' @ ext_list xs @ CHR '']'' # ?tl)"
    using Cons.prems(3) e by simp
  let ?q = "p + length ?pre" and ?N = "n - (p + length ?pre + 1 - p)"
  have n: "n = length ?pre + length ty + length (ext_list xs) + 8 + length ?ls + j"
    using Cons.prems(4) e by simp
  have q: "memchr b p DQ n = Some (Some ?q)"
    using memchr_holds [OF h, of n] Cons.prems(2) n by auto
  have hy: "holds b (?q + 1) (ty @ DQ # '': ['' @ ext_list xs @ CHR '']'' # ?tl)"
    using h by (simp add: holds_append holds_Cons add.assoc)
  have g: "tool_get_str_n b (?q + 1) ?N = Some (Some (length ty))"
    by (rule get_str_is [OF hy ok(1)]) (use n in simp)
  have r: "rd_n b (?q + 1) (length ty) = Some ty" using holds_rd_n [OF hy, of "length ty"] by simp
  let ?p2 = "?q + 1 + length ty + 1"
  have h2: "holds b ?p2 ('': '' @ CHR ''['' # ext_list xs @ CHR '']'' # ?tl)"
    using hy by (simp add: holds_append holds_Cons add.assoc)
  have br: "memchr b ?p2 (CHR ''['') (?N - length ty) = Some (Some (?p2 + 2))"
    using memchr_holds [OF h2] n by simp
  let ?p3 = "?p2 + 2 + 1" and ?N3 = "?N - length ty - (?p2 + 2 + 1 - ?p2)"
  have h3: "holds b ?p3 (ext_list xs @ CHR '']'' # ?tl)"
    using h2 by (simp add: holds_append holds_Cons add.assoc)
  have ke: "memchr b ?p3 (CHR '']'') ?N3 = Some (Some (?p3 + length (ext_list xs)))"
    using memchr_holds [OF h3 no_quote_exts [OF ok(4)]] n by simp
  let ?p4 = "?p3 + length (ext_list xs)"
  let ?o1 = "out @ ty" and ?o2 = "out @ ty @ ''[''" and ?o3 = "out @ mime_entry (ty, xs)"
  have len: "length out + length (mime_entry (ty, xs)) + length (mime_text (map snd es)) + 1 \<le> cap m"
    using Cons.prems(10) e by (simp add: mime_text_def)
  obtain m1 where m1: "wr m (length out) ty = Some m1" "holds m1 0 ?o1" "cap m1 = cap m"
    using put_at [OF Cons.prems(8), of ty] len by (auto simp: mime_entry_def)
  obtain m2 where m2: "wr m1 (length ?o1) (CHR ''['' # [NUL]) = Some m2"
      "holds m2 0 (?o1 @ CHR ''['' # [NUL])" "cap m2 = cap m"
    using put_at [OF m1(2), of "CHR ''['' # [NUL]"] m1(3) len by (auto simp: mime_entry_def)
  have m2': "holds m2 0 ?o2" using m2(2) by (simp add: holds_append holds_Cons add.assoc)
  have "\<exists>m'. ext_loop b ?p3 (length ([] @ ext_list xs)) (length ?o2) m2 =
      Some (Some (True, length ?o2 + length (join xs) + 1, m')) \<and>
    holds m' 0 (?o2 @ join xs @ CHR '']'' # [NUL]) \<and> cap m' = cap m2"
    by (rule ext_loop_is [OF ok(3-5), of "[]" _ _ "CHR '']'' # ?tl"])
      (use h3 m2' m2(3) len in \<open>simp_all add: mime_entry_def\<close>)
  then obtain m3 where m3: "ext_loop b ?p3 (length (ext_list xs)) (length ?o2) m2 =
      Some (Some (True, length ?o3, m3))" "holds m3 0 (?o3 @ [NUL])" "cap m3 = cap m"
    using m2(3) by (auto simp: mime_entry_def)
  then have m3': "holds m3 0 ?o3" by (simp add: holds_append)
  obtain m4 where m4: "wr m3 (length ?o3) [NUL] = Some m4" "holds m4 0 (?o3 @ [NUL])" "cap m4 = cap m"
    using put_at [OF m3', of "[NUL]"] m3(3) len by auto
  then have m4': "holds m4 0 ?o3" by (simp add: holds_append)
  have h4: "holds b ?p4 ('']'' @ ?tl)" using h3 by (simp add: holds_append holds_Cons add.assoc)
  have n4: "?N3 - length (ext_list xs) = length ('']'' @ '','' @ [LF] @ ?ls) + (j + 1)" using n by simp
  have "\<exists>r. mime_loop b ?p4 (?N3 - length (ext_list xs)) (length ?o3) m4 = Some r \<and>
      (case r of None \<Rightarrow> DQ \<in> set window
       | Some m' \<Rightarrow> DQ \<notin> set window \<and> holds m' 0 (?o3 @ mime_text (map snd es) @ [NUL]) \<and> cap m' = cap m4)"
    by (rule Cons.IH [of "'']'' @ '','' @ [LF]" _ _ "j + 1"])
      (use Cons.prems h4 m4 m4' n4 len in \<open>auto simp: mime_entry_def\<close>)
  then obtain r5 where m5: "mime_loop b ?p4 (?N3 - length (ext_list xs)) (length ?o3) m4 = Some r5"
      "case r5 of None \<Rightarrow> DQ \<in> set window
       | Some m' \<Rightarrow> DQ \<notin> set window \<and> holds m' 0 (?o3 @ mime_text (map snd es) @ [NUL]) \<and> cap m' = cap m4"
    by blast
  have nz: "(n = 0) = False" using n by simp
  have w: "wr m1 (length out + length ty) (CHR ''['' # [NUL]) = Some m2"
    "ext_loop b ?p3 (?p4 - ?p3) (length out + length ty + 1) m2 = Some (Some (True, length ?o3, m3))"
    "mime_loop b ?p4 (?N3 - (?p4 - ?p3)) (length ?o3) m4 = Some r5"
    using m2(1) m3(1) m5(1) by simp_all
  have "mime_loop b p n (length out) m = Some r5"
    by (subst mime_loop.simps)
      (simp only: nz if_False q g r br ke m1(1) w m4(1) Let_def option.case prod.case
        Option.bind.bind_lunit not_True_eq_False)
  then show ?case using m5(2) m4(3) e by (cases r5) (auto simp: mime_text_def)
qed

section \<open>Values\<close>

text \<open>What a member may be, by the type of its key.\<close>

definition mem_ok :: "conf_key \<Rightarrow> conf_mem \<Rightarrow> bool" where
  "mem_ok k m \<longleftrightarrow> (case lk_type (lookup_of k) of
     U32_T \<Rightarrow> \<exists>w. m = U32 w | U16_T \<Rightarrow> \<exists>w. m = U16 w | BOOL_T \<Rightarrow> \<exists>t. m = Bool t
   | MIME_T \<Rightarrow> \<exists>b. m = Chars b \<and> cap b = 1024
   | _ \<Rightarrow> \<exists>b. m = Chars b \<and> cap b = 128 \<and> wf_buf b)"

definition conf_wf :: "fws_conf \<Rightarrow> bool" where
  "conf_wf c \<longleftrightarrow> (\<forall>k. mem_ok k (conf_get k c))"

lemma lookup_simps:
  "lk_type (lookup_of k) = (case k of HTTP_PORT \<Rightarrow> U16_T | HTTPS_PORT \<Rightarrow> U16_T | ALLOW_PORTS \<Rightarrow> AP_T
     | NFT \<Rightarrow> BOOL_T | KERNEL_TLS \<Rightarrow> BOOL_T | HSTS \<Rightarrow> BOOL_T | MIME \<Rightarrow> MIME_T | DOMAIN \<Rightarrow> CHAR_T
     | WEB_ROOT \<Rightarrow> CHAR_T | WEB_LOG \<Rightarrow> CHAR_T | SSL_CERT \<Rightarrow> CHAR_T | SSL_KEY \<Rightarrow> CHAR_T
     | MIME_DEFAULT \<Rightarrow> CHAR_T | _ \<Rightarrow> U32_T)"
  "lk_type (lookup_of k) \<in> {CHAR_T, AP_T} \<Longrightarrow> lk_size (lookup_of k) = 128"
  "lk_type (lookup_of k) = MIME_T \<Longrightarrow> lk_size (lookup_of k) = 1024 \<and> k = MIME"
  by (cases k; simp add: lookup_of_def conf_lookup_arr_def conf_lookup_def)+

lemma conf_get_set: "mem_ok j m \<Longrightarrow> conf_get k (conf_set j m c) = (if k = j then m else conf_get k c)"
  by (cases j; cases k) (auto simp: mem_ok_def lookup_simps(1))

lemma conf_wf_set: "conf_wf c \<Longrightarrow> mem_ok j m \<Longrightarrow> conf_wf (conf_set j m c)"
  by (simp add: conf_wf_def conf_get_set)

lemma put_field:
  assumes "mem_ok k (conf_get k c)" "lk_type (lookup_of k) \<in> {CHAR_T, AP_T}"
    and "NUL \<notin> set s" "length s < 128"
  shows "\<exists>b. put_str (un_chars (conf_get k c)) s = Some b \<and> field_is b 128 s \<and> mem_ok k (Chars b)"
proof -
  obtain b0 where b0: "conf_get k c = Chars b0" "cap b0 = 128" "wf_buf b0"
    using assms(1,2) by (auto simp: mem_ok_def split: conf_type.splits)
  obtain b where b: "put_str b0 s = Some b" using put_str_defined [of b0 s] b0(2) assms(4) by auto
  have "field_is b 128 s" using put_str_wf [OF b] put_str_cstr [OF b] b0 assms(3) by (simp add: field_is_def)
  moreover from this have "mem_ok k (Chars b)" using assms(2) by (auto simp: mem_ok_def field_is_def)
  ultimately show ?thesis using b b0(1) by simp
qed

lemma num_parse_is:
  assumes "at b p (dec n @ LF # rest)" "lk = lookup_of k"
  shows "n < 2 ^ 32 \<Longrightarrow>
      type_u32_parse lk b p c = Some (Some (conf_set k (U32 (of_nat n)) c))"
    and "n < 2 ^ 16 \<Longrightarrow>
      type_u16_parse lk b p c = Some (Some (conf_set k (U16 (of_nat n)) c))"
proof -
  have "strtol b p = Some (int n, p + length (dec n))" if "int n < 2 ^ 63"
    using at_strtol [of b p "[]" n LF rest] assms(1) that not_digit by simp
  then show "n < 2 ^ 32 \<Longrightarrow> type_u32_parse lk b p c = Some (Some (conf_set k (U32 (of_nat n)) c))"
    and "n < 2 ^ 16 \<Longrightarrow> type_u16_parse lk b p c = Some (Some (conf_set k (U16 (of_nat n)) c))"
    by (simp_all add: type_u32_parse_def type_u16_parse_def assms(2) lookup_offset)
qed

lemma bool_parse_is:
  assumes "at b p (val_text (VBool t) @ LF # rest)" "rest \<noteq> []"
  shows "type_bool_parse lk b p c = Some (Some (conf_set (lk_offset lk) (Bool t) c))"
proof -
  have h: "holds b p (val_text (VBool t) @ LF # rest)" by (rule at_holds [OF assms(1)])
  note m = mem_eq_holds [OF h]
  obtain r rs where r: "rest = r # rs" using assms(2) by (cases rest) auto
  have t: "mem_eq b p true_str = Some t" using m [of true_str] by (cases t) (simp_all add: true_str_def r)
  have f: "mem_eq b p false_str = Some (\<not> t)" using m [of false_str] by (cases t) (simp_all add: false_str_def r)
  have "rd b (p + length (val_text (VBool t))) = Some LF" using h by (simp only: holds_append holds_Cons)
  then show ?thesis using t f by (cases t) (simp_all add: type_bool_parse_def true_str_def false_str_def)
qed

lemma char_parse_is:
  assumes "at b p (DQ # s @ DQ # rest)" "DQ \<notin> set s" "NUL \<notin> set s" "length s < 127"
    and "lk = lookup_of k" "lk_type lk = CHAR_T" "mem_ok k (conf_get k c)"
  shows "\<exists>x. type_char_parse lk b p c = Some (Some (conf_set k (Chars x) c)) \<and> field_is x 128 s \<and> mem_ok k (Chars x)"
proof -
  have h: "holds b (Suc p) (s @ DQ # rest)" "rd b p = Some DQ"
    using at_holds [OF assms(1)] by (simp_all add: holds_Cons)
  have m: "memchr b (Suc p) DQ 127 = Some (Some (Suc p + length s))"
    using memchr_holds [OF h(1)] assms(2,4) by simp
  have r: "rd_n b (Suc p) (length s) = Some s" using holds_rd_n [OF h(1), of "length s"] by simp
  have size: "lk_size lk = 128" using lookup_simps(2) [of k] assms(5,6) by simp
  obtain x where "put_str (un_chars (conf_get k c)) s = Some x" "field_is x 128 s" "mem_ok k (Chars x)"
    using put_field [OF assms(7) _ assms(3)] assms(4-6) by auto
  then show ?thesis
    by (intro exI [of _ x]) (simp add: type_char_parse_def h m r size [unfolded assms(5)] Let_def assms(5) lookup_offset)
qed

lemma NUL_ports: "NUL \<notin> set (ports_text ps)" and LF_ports: "LF \<notin> set (ports_text ps)"
proof -
  have d: "LF \<notin> set (dec n)" for n using dec_isdigit [of LF n] by (auto simp: isdigit_def)
  show "NUL \<notin> set (ports_text ps)" "LF \<notin> set (ports_text ps)"
    by (induction ps rule: ports_text.induct) (simp_all add: d)
qed

lemma ap_parse_is:
  assumes "at b p (ports_text ps @ LF # rest)" "val_ok AP_T (VPorts ps)"
    and "lk = lookup_of k" "lk_type lk = AP_T" "mem_ok k (conf_get k c)"
  shows "\<exists>x. type_ap_parse lk b p c = Some (Some (conf_set k (Chars x) c)) \<and>
    field_is x 128 ('', '' @ ports_text ps) \<and> mem_ok k (Chars x)"
proof -
  let ?s = "ports_text ps"
  have h: "holds b p (?s @ LF # rest)" by (rule at_holds [OF assms(1)])
  have m: "memchr b p LF 127 = Some (Some (p + length ?s))"
    using memchr_holds [OF h LF_ports] assms(2) by simp
  have r: "rd_n b p (length ?s) = Some ?s" using holds_rd_n [OF h, of "length ?s"] by simp
  have size: "lk_size lk = 128" using lookup_simps(2) [of k] assms(3,4) by simp
  have sc: "ap_scan b p = Some True" by (rule ap_scan_is [of ps "[]"]) (use assms in simp_all)
  obtain x where x: "put_str (un_chars (conf_get k c)) ('', '' @ ?s) = Some x" "field_is x 128 ('', '' @ ?s)"
      "mem_ok k (Chars x)"
    using put_field [OF assms(5), of "'', '' @ ?s"] assms(2-4) NUL_ports [of ps] by auto
  have "do { m \<leftarrow> wr (un_chars (conf_get k c)) 0 comma_str; m \<leftarrow> wr m (length comma_str) ?s;
      wr m (length ?s + length comma_str) [NUL] } = Some x"
    using x(1) unfolding put_str_eq
    using wr_append [of "un_chars (conf_get k c)" 0 "'', '' @ ?s" "[NUL]"] by (simp add: comma_str_def wr_bind_append)
  then obtain m1 m2 where "wr (un_chars (conf_get k c)) 0 comma_str = Some m1"
      "wr m1 (length comma_str) ?s = Some m2" "wr m2 (length ?s + length comma_str) [NUL] = Some x"
    by (auto simp: Option.bind_eq_Some_conv)
  with x(2,3) show ?thesis
    by (intro exI [of _ x]) (simp add: type_ap_parse_def m r size [unfolded assms(3)] sc Let_def assms(3) lookup_offset)
qed

lemma no_brace: "list_all mime_ok es \<Longrightarrow> CHR ''}'' \<notin> set (concat (map mime_line es))"
proof (induction es)
  case (Cons e es)
  obtain k ty xs where e: "e = (k, ty, xs)" by (cases e)
  have "\<forall>x \<in> set ys. CHR ''}'' \<notin> set x \<Longrightarrow> CHR ''}'' \<notin> set (ext_list ys)" for ys
    by (induction ys rule: ext_list.induct) auto
  then show ?case using Cons e by (auto simp: mime_ok_def)
qed simp

lemma length_mime_text: "length (mime_text (map snd es)) \<le> length (concat (map mime_line es))"
proof (induction es)
  case (Cons e es)
  then show ?case using length_mime_entry [of "fst (snd e)" "snd (snd e)" "fst e"]
    by (simp add: mime_text_def del: mime_line.simps)
qed (simp add: mime_text_def)

lemma mime_parse_gives:
  assumes "at b p (val_text (VMime es) @ tail)" "val_ok MIME_T (VMime es)"
    and "lk_size lk = 1024" "cap (conf_mime c) = 1024" "length es \<le> length tail"
    and "count_list (take (length es) (CHR ''}'' # tail)) DQ \<le> 1"
  shows "\<exists>r. type_mime_parse lk b p c = Some (map_option (\<lambda>x. c\<lparr>conf_mime := x\<rparr>) r) \<and>
    (case r of None \<Rightarrow> DQ \<in> set (take (length es) (CHR ''}'' # tail))
     | Some x \<Rightarrow> DQ \<notin> set (take (length es) (CHR ''}'' # tail)) \<and>
         holds x 0 (mime_text (map snd es) @ [NUL]) \<and> cap x = 1024)"
proof -
  let ?ls = "concat (map mime_line es)"
  have ok: "es \<noteq> []" "list_all mime_ok es" "length ?ls < 1022" using assms(2) by simp_all
  have h: "holds b p (CHR ''{'' # LF # ?ls @ CHR ''}'' # tail)" using at_holds [OF assms(1)] by simp
  have b1: "memchr b p (CHR ''{'') 1023 = Some (Some p)"
    using memchr_holds [of b p "[]" "CHR ''{''"] h by simp
  have h1: "holds b (p + 1) ([LF] @ ?ls @ CHR ''}'' # tail)" using h by (simp add: holds_Cons)
  have b2: "memchr b (p + 1) (CHR ''}'') 1023 = Some (Some (p + 1 + length (LF # ?ls)))"
    using memchr_holds [of b "p + 1" "LF # ?ls" "CHR ''}''" tail 1023] h1 no_brace [OF ok(2)] ok(3) by simp
  obtain r where r: "mime_loop b (p + 1) (length ([LF] @ ?ls) + 0) (length []) (conf_mime c) = Some r"
      "case r of None \<Rightarrow> DQ \<in> set (take (0 + length es) (CHR ''}'' # tail))
       | Some x \<Rightarrow> DQ \<notin> set (take (0 + length es) (CHR ''}'' # tail)) \<and>
           holds x 0 ([] @ mime_text (map snd es) @ [NUL]) \<and> cap x = cap (conf_mime c)"
    using mime_loop_is [OF ok(2) _ h1 refl refl, of 0 "conf_mime c" "[]"] ok assms(4-6)
      length_mime_text [of es] by auto
  then show ?thesis using b1 b2 assms(3,4) ok(3)
    by (intro exI [of _ r]) (cases r; simp add: type_mime_parse_def Let_def)
qed

lemma mime_parse_is:
  assumes "at b p (val_text (VMime es) @ tail)" "val_ok MIME_T (VMime es)" "lk = lookup_of k" "lk_type lk = MIME_T"
    and "DQ \<notin> set (take (length es) tail)" "length es \<le> length tail" "mem_ok k (conf_get k c)"
  shows "\<exists>x. type_mime_parse lk b p c = Some (Some (conf_set k (Chars x) c)) \<and>
    (\<exists>rest. holds x 0 (mime_text (map snd es) @ NUL # rest)) \<and> cap x = 1024"
proof -
  have k: "k = MIME" "lk_size lk = 1024" using lookup_simps(3) [of k] assms(3,4) by auto
  have cap: "cap (conf_mime c) = 1024" using assms(7) k(1) by (auto simp: mem_ok_def lookup_simps(1))
  have w: "DQ \<notin> set (take (length es) (CHR ''}'' # tail))"
    using assms(5) by (cases es) (auto dest: in_set_takeD simp: take_Cons' in_set_conv_nth)
  then have "count_list (take (length es) (CHR ''}'' # tail)) DQ \<le> 1" by (simp add: count_notin)
  from mime_parse_gives [OF assms(1,2) k(2) cap assms(6) this] w obtain x
    where "type_mime_parse lk b p c = Some (Some (c\<lparr>conf_mime := x\<rparr>))"
      "holds x 0 (mime_text (map snd es) @ [NUL])" "cap x = 1024"
    by (auto split: option.splits)
  then show ?thesis using k(1) by (intro exI [of _ x]) auto
qed

lemma parse_val_is:
  assumes "at b p (val_text v @ LF # rest)" "val_ok (lk_type (lookup_of k)) v" "conf_wf c" "rest \<noteq> []"
    and "\<forall>es. v = VMime es \<longrightarrow> DQ \<notin> set (take (length es) (LF # rest)) \<and> length es \<le> length (LF # rest)"
  shows "\<exists>m. conf_parse_val (lookup_of k) b p c = Some (Some (conf_set k m c)) \<and>
    val_is (lk_type (lookup_of k)) v m \<and> mem_ok k m"
proof -
  have wf: "mem_ok k (conf_get k c)" using assms(3) by (simp add: conf_wf_def)
  show ?thesis
  proof (cases "lk_type (lookup_of k)")
    case U32_T
    then obtain n where v: "v = VNum n" "n < 2 ^ 32" using assms(2) by (cases v) auto
    then show ?thesis using num_parse_is(1) [OF _ refl, of b p n rest k c] assms(1) U32_T
      by (intro exI [of _ "U32 (of_nat n)"]) (simp add: conf_parse_val_def mem_ok_def)
  next
    case U16_T
    then obtain n where v: "v = VNum n" "n < 2 ^ 16" using assms(2) by (cases v) auto
    then show ?thesis using num_parse_is(2) [OF _ refl, of b p n rest k c] assms(1) U16_T
      by (intro exI [of _ "U16 (of_nat n)"]) (simp add: conf_parse_val_def mem_ok_def)
  next
    case BOOL_T
    then obtain t where v: "v = VBool t" using assms(2) by (cases v) auto
    then show ?thesis using bool_parse_is [OF assms(1) [unfolded v] assms(4)] BOOL_T
      by (intro exI [of _ "Bool t"]) (simp add: conf_parse_val_def mem_ok_def lookup_offset)
  next
    case CHAR_T
    then obtain s where v: "v = VStr s" "set s \<inter> {DQ, LF, NUL} = {}" "length s < 127"
      using assms(2) by (cases v) auto
    then show ?thesis using char_parse_is [of b p s "LF # rest" "lookup_of k" k c] assms(1) CHAR_T wf
      by (auto simp: conf_parse_val_def)
  next
    case AP_T
    then obtain ps where v: "v = VPorts ps" using assms(2) by (cases v) auto
    then show ?thesis using ap_parse_is [of b p ps rest "lookup_of k" k c] assms(1,2) AP_T wf
      by (auto simp: conf_parse_val_def)
  next
    case MIME_T
    then obtain es where v: "v = VMime es" using assms(2) by (cases v) auto
    obtain x where "type_mime_parse (lookup_of k) b p c = Some (Some (conf_set k (Chars x) c))"
      "\<exists>rest. holds x 0 (mime_text (map snd es) @ NUL # rest)" "cap x = 1024"
      using mime_parse_is [of b p es "LF # rest" "lookup_of k" k c] assms(1,2,5) MIME_T wf v by auto
    then show ?thesis using MIME_T v by (intro exI [of _ "Chars x"]) (auto simp: conf_parse_val_def mem_ok_def)
  qed
qed

section \<open>Lines\<close>

definition key_initials :: string where "key_initials = ''HANLPBDWSKCM''"

lemma table_list:
  "list_all (\<lambda>lk. length (lk_key lk) < 16 \<and> lk_key lk \<noteq> [] \<and> CHR '' '' \<notin> set (lk_key lk) \<and>
     LF \<notin> set (lk_key lk) \<and> hd (lk_key lk) \<in> set key_initials) conf_lookup_arr"
  "distinct (map lk_key conf_lookup_arr)"
  by (simp_all add: conf_lookup_arr_def conf_lookup_def key_initials_def)

lemma table_facts:
  assumes "lk \<in> set conf_lookup_arr"
  shows "length (lk_key lk) < 16" "lk_key lk \<noteq> []" "CHR '' '' \<notin> set (lk_key lk)" "LF \<notin> set (lk_key lk)"
    "hd (lk_key lk) \<in> set key_initials"
    "lk' \<in> set conf_lookup_arr \<Longrightarrow> lk_key lk' = lk_key lk \<Longrightarrow> lk' = lk"
proof -
  note f = bspec [OF table_list(1) [unfolded list_all_iff] assms]
  from f show "length (lk_key lk) < 16" "lk_key lk \<noteq> []" "CHR '' '' \<notin> set (lk_key lk)"
    "LF \<notin> set (lk_key lk)" "hd (lk_key lk) \<in> set key_initials" by simp_all
  show "lk' \<in> set conf_lookup_arr \<Longrightarrow> lk_key lk' = lk_key lk \<Longrightarrow> lk' = lk"
    using table_list(2) assms unfolding distinct_map by (metis inj_on_def)
qed

lemma key_loop_match:
  assumes "at b p (lk_key lk @ CHR '' '' # val @ rest)" "val \<noteq> []" "hd val \<noteq> CHR '' ''"
    and "lk \<in> set conf_lookup_arr" "lk \<in> set lks" "set lks \<subseteq> set conf_lookup_arr"
  shows "key_loop lks b p c = map_option (map_option (\<lambda>c. (p + length (lk_key lk) + 1, c)))
     (conf_parse_val lk b (p + length (lk_key lk) + 1) c)"
  using assms(5,6)
proof (induction lks)
  case (Cons l lks)
  let ?k = "lk_key lk"
  have h: "holds b p (?k @ CHR '' '' # val @ rest)" by (rule at_holds [OF assms(1)])
  note f = table_facts [OF assms(4)]
  have m: "memchr b p (CHR '' '') 16 = Some (Some (p + length ?k))"
    using memchr_holds [OF h f(3,1)] .
  have l: "l \<in> set conf_lookup_arr" using Cons.prems(2) by simp
  show ?case
  proof (cases "lk_key l = ?k")
    case True
    then have l: "l = lk" using table_facts(6) [OF assms(4) l] by simp
    obtain v vs where v: "val = v # vs" using assms(2) by (cases val) auto
    have "holds b (p + length ?k) (CHR '' '' # val @ rest)" using h by (simp add: holds_append)
    then have r: "rd b (p + length ?k) = Some (CHR '' '')" "rd b (Suc (p + length ?k)) = Some v"
      by (simp_all add: holds_Cons v)
    have sp: "skip_spaces b (p + length ?k) = Some (p + length ?k + 1)"
      using assms(3) v by (subst skip_spaces.simps, simp add: r) (subst skip_spaces.simps, simp add: r)
    have e: "mem_eq b p ?k = Some True" using mem_eq_holds [OF h, of ?k] by simp
    show ?thesis using f(1) m sp e l
      by (cases "conf_parse_val lk b (p + length ?k + 1) c") (simp_all add: Let_def del: memchr.simps)
  next
    case False
    have "mem_eq b p (lk_key l) = Some False" if "length (lk_key l) = length ?k"
      using mem_eq_holds [OF h, of "lk_key l"] that False by (auto simp: prefix_def append_eq_append_conv)
    then show ?thesis using m False Cons l f(1) table_facts(1) [OF l]
      by (auto simp: Let_def simp del: memchr.simps)
  qed
qed simp

text \<open>A line without a key: the first character starts none.\<close>

lemma key_loop_none:
  assumes "holds b p (d # s)" "d \<notin> set key_initials" "CHR '' '' \<in> set (d # s) \<or> 16 \<le> length (d # s)"
    and "set lks \<subseteq> set conf_lookup_arr"
  shows "key_loop lks b p c = Some (Some (p, c))"
  using assms(4)
proof (induction lks)
  case (Cons l lks)
  have l: "l \<in> set conf_lookup_arr" using Cons.prems by simp
  note f = table_facts [OF l]
  obtain r where r: "memchr b p (CHR '' '') 16 = Some r"
    "r = None \<or> (\<exists>n. r = Some (p + n) \<and> n < length (d # s))"
  proof (cases "CHR '' '' \<in> set (take 16 (d # s))")
    case True
    then obtain x y where xy: "take 16 (d # s) = x @ CHR '' '' # y" "CHR '' '' \<notin> set x"
      by (meson split_list_first)
    have "length x < length (take 16 (d # s))" unfolding xy(1) by simp
    then have x: "length x < 16" "length x < length (d # s)" by simp_all
    have "holds b p ((x @ CHR '' '' # y) @ drop 16 (d # s))"
      using assms(1) append_take_drop_id [of 16 "d # s"] xy(1) by metis
    then have "memchr b p (CHR '' '') 16 = Some (Some (p + length x))"
      using memchr_holds [of b p x "CHR '' ''" "y @ drop 16 (d # s)" 16] xy(2) x by simp
    then show ?thesis using that [of "Some (p + length x)"] x(2) by blast
  next
    case False
    then have "16 \<le> length (d # s)" using assms(3) by (metis linear take_all)
    then show ?thesis using that [of None] memchr_window_None [OF assms(1) _ False] by blast
  qed
  have "mem_eq b p (lk_key l) = Some False" if "length (lk_key l) < length (d # s)"
    using mem_eq_holds [OF assms(1), of "lk_key l"] that f(2,5) assms(2)
    by (cases "lk_key l") (auto)
  then show ?case using r Cons f(1) by (auto simp: Let_def simp del: memchr.simps)
qed simp

definition lines_from :: "cbuf \<Rightarrow> nat \<Rightarrow> nat \<Rightarrow> fws_conf \<Rightarrow> fws_conf option option" where
  "lines_from b n p c = do { q \<leftarrow> skip_newlines b p; conf_loop b n q c }"

lemma lines_from_LF: "at b p (LF # s) \<Longrightarrow> lines_from b n p c = lines_from b n (Suc p) c"
  unfolding lines_from_def by (subst skip_newlines.simps) (use at_holds in \<open>fastforce simp: holds_Cons\<close>)

lemma lines_from_start: "at b p (d # s) \<Longrightarrow> d \<noteq> LF \<Longrightarrow> lines_from b n p c = conf_loop b n p c"
  unfolding lines_from_def by (subst skip_newlines.simps) (use at_holds in \<open>fastforce simp: holds_Cons\<close>)

lemma line_end:
  assumes "at b p (d # s)" "p < n"
    and "(if d = CHR ''#'' then Some (Some (p, c)) else key_loop conf_lookup_arr b p c) = Some (Some (p', c'))"
    and "at b p' (l @ LF # rest)" "LF \<notin> set l" "p' + length l < n"
  shows "conf_loop b n p c = lines_from b n (p' + length l + 1) c'"
proof -
  have r: "rd b p = Some d" using at_holds [OF assms(1)] by (simp add: holds_Cons)
  have m: "memchr b p' LF (n - p') = Some (Some (p' + length l))"
    using memchr_holds [OF at_holds [OF assms(4)] assms(5), of "n - p'"] assms(6) by simp
  show ?thesis
    by (subst conf_loop.simps) (simp add: assms(2) r assms(3) m lines_from_def del: memchr.simps)
qed

lemma LF_dec: "LF \<notin> set (dec n)"
  using dec_isdigit [of LF n] by (auto simp: isdigit_def)

lemma LF_exts: "\<forall>x \<in> set xs. LF \<notin> set x \<Longrightarrow> LF \<notin> set (ext_list xs)"
  by (induction xs rule: ext_list.induct) auto

lemma initials: "d \<in> set key_initials \<Longrightarrow> d \<noteq> LF \<and> d \<noteq> CHR ''#''"
  "CHR 0x09 \<notin> set key_initials" "CHR ''}'' \<notin> set key_initials"
  by (auto simp: key_initials_def)

lemma skip_blank: "at b p (replicate k LF @ s) \<Longrightarrow> lines_from b n p c = lines_from b n (p + k) c"
proof (induction k arbitrary: p)
  case (Suc k)
  then have a: "at b p (LF # replicate k LF @ s)" by simp
  with lines_from_LF [OF a] Suc.IH [OF at_Cons [OF a]] show ?case by simp
qed simp

lemma skip_mime:
  assumes "list_all mime_ok es" "cap b = n + 1"
    and "at b p (concat (map mime_line es) @ CHR ''}'' # LF # rest)" "15 \<le> length rest"
  shows "lines_from b n p c = lines_from b n (p + length (concat (map mime_line es)) + 2) c"
  using assms(1,3)
proof (induction es arbitrary: p)
  case Nil
  then have a: "at b p (CHR ''}'' # LF # rest)" by simp
  have "key_loop conf_lookup_arr b p c = Some (Some (p, c))"
    by (rule key_loop_none [OF at_holds [OF a]]) (use initials assms(4) in auto)
  then have "conf_loop b n p c = lines_from b n (p + 1 + 1) c"
    using line_end [OF a, of n c p c "''}''" rest] a at_length [OF a] assms(2,4) by simp
  then show ?case using lines_from_start [OF a] by simp
next
  case (Cons e es)
  obtain k ty xs where e: "e = (k, ty, xs)" by (cases e)
  let ?l = "CHR 0x09 # DQ # ty @ DQ # '': ['' @ ext_list xs @ ''],''"
  let ?rest = "concat (map mime_line es) @ CHR ''}'' # LF # rest"
  have ok: "LF \<notin> set ty" "\<forall>x \<in> set xs. LF \<notin> set x" using Cons.prems(1) e by (auto simp: mime_ok_def)
  have a: "at b p (replicate k LF @ ?l @ LF # ?rest)" using Cons.prems(2) e by simp
  have a2: "at b (p + k) (?l @ LF # ?rest)" using at_append [OF a] by simp
  have a2': "at b (p + k) (CHR 0x09 # tl ?l @ LF # ?rest)" using a2 by simp
  have kl: "key_loop conf_lookup_arr b (p + k) c = Some (Some (p + k, c))"
    by (rule key_loop_none [OF at_holds [OF a2']]) (use initials in auto)
  have "LF \<notin> set ?l" using ok LF_exts by simp
  then have "conf_loop b n (p + k) c = lines_from b n (p + k + length ?l + 1) c"
    using line_end [OF a2' _ _ a2, of n c c] kl at_length [OF a2] assms(2) by simp
  then have "lines_from b n p c = lines_from b n (p + k + length ?l + 1) c"
    using skip_blank [OF a] lines_from_start [OF a2'] by simp
  moreover have "at b (p + k + length ?l + 1) ?rest"
    using at_append [of b "p + k" "?l @ [LF]" ?rest] a2 by (simp add: add.assoc)
  from Cons.IH [OF _ this] Cons.prems(1)
  have "lines_from b n (p + k + length ?l + 1) c =
    lines_from b n (p + k + length ?l + 1 + length (concat (map mime_line es)) + 2) c" by simp
  ultimately show ?case using e by (simp add: add.assoc)
qed

lemma dec_start: "\<exists>d s. dec n @ t = d # s \<and> d \<noteq> CHR '' ''"
  using dec_isdigit [of "hd (dec n)" n] isdigit_not_space dec_not_Nil [of n]
  by (cases "dec n") (auto simp: isspace_def)

lemma ports_start: "ps \<noteq> [] \<Longrightarrow> \<exists>t. ports_text ps = dec (hd ps) @ t"
  by (cases ps rule: ports_text.cases) simp_all

lemma val_text_start:
  assumes "val_ok t v"
  shows "\<exists>d s. val_text v = d # s \<and> d \<noteq> CHR '' ''"
proof (cases v)
  case (VNum n)
  then show ?thesis using dec_start [of n "[]"] by simp
next
  case (VPorts ps)
  then have "ps \<noteq> []" using assms by (cases t) auto
  then show ?thesis using VPorts ports_start dec_start by (metis val_text.simps(4))
qed auto

lemma val_text_LF: "val_ok t v \<Longrightarrow> (\<forall>es. v \<noteq> VMime es) \<Longrightarrow> LF \<notin> set (val_text v)"
  by (cases v; cases t) (auto simp: LF_dec LF_ports)

lemma setting_is:
  assumes "at b p (item_text (Setting k v) @ conf_text is @ tail)" "cap b = n + 1"
    and "conf_ok tail (Setting k v # is)" "conf_wf c" "2 \<le> length tail"
  shows "\<exists>m. lines_from b n p c = lines_from b n (p + length (item_text (Setting k v))) (conf_set k m c) \<and>
    val_is (lk_type (lookup_of k)) v m \<and> mem_ok k m"
proof -
  let ?lk = "lookup_of k" and ?rest = "conf_text is @ tail"
  let ?k = "lk_key ?lk"
  let ?p1 = "p + length ?k + 1"
  have a: "at b p (?k @ CHR '' '' # val_text v @ LF # ?rest)" using assms(1) by simp
  have a1: "at b ?p1 (val_text v @ LF # ?rest)" using at_append [of b p "?k @ '' ''"] a by simp
  note f = table_facts [OF lookup_mem [of k]]
  obtain d ds where d: "?k = d # ds" "d \<noteq> LF" "d \<noteq> CHR ''#''"
    using f(2,5) initials(1) by (cases ?k) auto
  then have ad: "at b p (d # ds @ CHR '' '' # val_text v @ LF # ?rest)" using a by simp
  have ok: "val_ok (lk_type ?lk) v" using assms(3) by simp
  have rest: "?rest \<noteq> []" using assms(5) by (cases tail) auto
  obtain m where m: "conf_parse_val ?lk b ?p1 c = Some (Some (conf_set k m c))"
    "val_is (lk_type ?lk) v m" "mem_ok k m"
    using parse_val_is [OF a1 ok assms(4) rest] assms(3,5) by (cases v) (auto simp: Let_def)
  have "key_loop conf_lookup_arr b p c = Some (Some (?p1, conf_set k m c))"
    using key_loop_match [OF a _ _ lookup_mem lookup_mem, of c] val_text_start [OF ok] m(1) by auto
  then have kl: "(if d = CHR ''#'' then Some (Some (p, c)) else key_loop conf_lookup_arr b p c) =
      Some (Some (?p1, conf_set k m c))" using d(3) by simp
  have pn: "p < n" using at_length [OF a] assms(2,5) by simp
  have "lines_from b n p c = lines_from b n (p + length (item_text (Setting k v))) (conf_set k m c)"
  proof (cases "\<exists>es. v = VMime es")
    case True
    then obtain es where v: "v = VMime es" by blast
    let ?ls = "concat (map mime_line es)"
    have es: "list_all mime_ok es" using ok v by (cases "lk_type ?lk") auto
    have r: "15 \<le> length ?rest" using assms(3) v by (simp add: Let_def)
    have a2: "at b ?p1 (''{'' @ LF # ?ls @ CHR ''}'' # LF # ?rest)" using a1 v by simp
    have "lines_from b n p c = lines_from b n (?p1 + length ''{'' + 1) (conf_set k m c)"
      using line_end [OF ad pn kl a2] at_length [OF a2] lines_from_start [OF ad d(2)] assms(2,5) by simp
    moreover have a3: "at b (?p1 + length ''{'' + 1) (?ls @ CHR ''}'' # LF # ?rest)"
      using at_append [of b ?p1 "''{'' @ [LF]"] a2 by simp
    moreover have "lines_from b n (?p1 + length ''{'' + 1) (conf_set k m c) =
        lines_from b n (?p1 + length ''{'' + 1 + length ?ls + 2) (conf_set k m c)"
      by (rule skip_mime [OF es assms(2) a3]) (use r in simp)
    ultimately show ?thesis using v by (simp add: add.assoc)
  next
    case False
    then have "LF \<notin> set (val_text v)" using val_text_LF [OF ok] by blast
    then have "lines_from b n p c = lines_from b n (?p1 + length (val_text v) + 1) (conf_set k m c)"
      using line_end [OF ad pn kl a1] at_length [OF a1] lines_from_start [OF ad d(2)] assms(2,5) by simp
    then show ?thesis by (simp add: add.assoc)
  qed
  then show ?thesis using m(2,3) by blast
qed


end
