(* ===== verification/Conf_Read.thy ===== *)
theory Conf_Read
  imports Conf_Text
begin

text \<open>
  \<open>file_conf_read\<close> on whole files: the round trip from settings to text and back, the shipped
  \<open>etc/facows.conf\<close>, and files the parser refuses or writes out of bounds for.
\<close>

section \<open>Files\<close>

text \<open>Members of the structure before and after.\<close>

definition conf_after :: "conf_item list \<Rightarrow> fws_conf \<Rightarrow> fws_conf \<Rightarrow> bool" where
  "conf_after items c c' \<longleftrightarrow> conf_wf c' \<and> conf_test_mode c' = conf_test_mode c \<and> (\<forall>k. case last_val k items of
     None \<Rightarrow> conf_get k c' = conf_get k c
   | Some v \<Rightarrow> val_is (lk_type (lookup_of k)) v (conf_get k c'))"

lemma conf_text_Cons [simp]: "conf_text [] = []" "conf_text (i # is) = item_text i @ conf_text is"
  by (simp_all add: conf_text_def)

lemma test_mode_set [simp]: "conf_test_mode (conf_set k m c) = conf_test_mode c"
  by (cases k) simp_all

lemma lines_are:
  assumes "at b p (conf_text items @ tail)" "cap b = n + 1" "conf_ok tail items" "conf_wf c" "2 \<le> length tail"
  shows "\<exists>c'. lines_from b n p c = lines_from b n (p + length (conf_text items)) c' \<and> conf_after items c c'"
  using assms(1,3,4)
proof (induction items arbitrary: p c)
  case Nil
  then show ?case by (auto simp: conf_after_def)
next
  case (Cons i "is")
  have a: "at b p (item_text i @ conf_text is @ tail)" using Cons.prems(1) by simp
  have a2: "at b (p + length (item_text i)) (conf_text is @ tail)" by (rule at_append [OF a])
  have ok: "conf_ok tail is" using Cons.prems(2) by (cases i) simp_all
  have step: "\<exists>c1. lines_from b n p c = lines_from b n (p + length (item_text i)) c1 \<and> conf_after [i] c c1"
  proof (cases i)
    case Blank
    then show ?thesis using lines_from_LF [of b p "conf_text is @ tail" n c] a Cons.prems(3)
      by (auto simp: conf_after_def)
  next
    case (Comment s)
    have "conf_loop b n p c = lines_from b n (p + length (CHR ''#'' # s) + 1) c"
      by (rule line_end [of b p "CHR ''#''" "s @ LF # conf_text is @ tail"])
        (use a Comment Cons.prems(2) at_length [OF a] assms(2,5) in auto)
    moreover have "lines_from b n p c = conf_loop b n p c"
      by (rule lines_from_start [of b p "CHR ''#''" "s @ LF # conf_text is @ tail"]) (use a Comment in auto)
    ultimately show ?thesis using Comment Cons.prems(3) by (auto simp: conf_after_def)
  next
    case (Setting k v)
    obtain m where m: "lines_from b n p c = lines_from b n (p + length (item_text i)) (conf_set k m c)"
      "val_is (lk_type (lookup_of k)) v m" "mem_ok k m"
      using setting_is [of b p k v "is" tail n c] a Setting assms(2,5) Cons.prems(2,3) by auto
    have "conf_after [i] c (conf_set k m c)"
      using m(2) conf_get_set [OF m(3)] conf_wf_set [OF Cons.prems(3) m(3)] Setting
      by (simp add: conf_after_def)
    then show ?thesis using m(1) by blast
  qed
  then obtain c1 where c1: "lines_from b n p c = lines_from b n (p + length (item_text i)) c1" "conf_after [i] c c1"
    by blast
  obtain c' where c': "lines_from b n (p + length (item_text i)) c1 =
      lines_from b n (p + length (item_text i) + length (conf_text is)) c'" "conf_after is c1 c'"
    using Cons.IH [OF a2 ok, of c1] c1(2) unfolding conf_after_def by blast
  have "conf_after (i # is) c c'"
    unfolding conf_after_def
  proof (intro conjI allI)
    show "conf_wf c'" "conf_test_mode c' = conf_test_mode c" using c1(2) c'(2) by (simp_all add: conf_after_def)
    fix k
    have "case last_val k [i] of None \<Rightarrow> conf_get k c1 = conf_get k c
        | Some v \<Rightarrow> val_is (lk_type (lookup_of k)) v (conf_get k c1)"
      "case last_val k is of None \<Rightarrow> conf_get k c' = conf_get k c1
        | Some v \<Rightarrow> val_is (lk_type (lookup_of k)) v (conf_get k c')"
      using c1(2) c'(2) by (simp_all only: conf_after_def)
    then show "case last_val k (i # is) of None \<Rightarrow> conf_get k c' = conf_get k c
        | Some v \<Rightarrow> val_is (lk_type (lookup_of k)) v (conf_get k c')"
      by (cases i; cases "last_val k is") (auto split: if_splits)
  qed
  then show ?case using c1(1) c'(1) by (auto simp: add.assoc)
qed

lemma file_end:
  assumes "at b p [LF, NUL]" "cap b = n + 1"
  shows "lines_from b n p c = Some (Some c)"
proof -
  have "at b (Suc p) [NUL]" using at_Cons [OF assms(1)] by simp
  then have "lines_from b n (Suc p) c = conf_loop b n (Suc p) c" by (rule lines_from_start) simp
  moreover have "Suc p = n" using at_length [OF assms(1)] assms(2) by simp
  ultimately show ?thesis using lines_from_LF [OF assms(1)] by (simp add: conf_loop.simps)
qed

text \<open>The array \<open>file_conf_read\<close> fills.\<close>

lemma file_buffer:
  "open_stat path = Some (Some (length s)) \<Longrightarrow> content path = Some s \<Longrightarrow>
     file_conf_read open_stat content c path = do { (ret, c') \<leftarrow> conf_parse c \<lparr>bytes = s @ [LF, NUL], cap = length s + 2\<rparr> (length s + 1);
          Some (if ret < 0 then -1 else 0, c') }"
  by (simp add: file_conf_read_def Let_def wr_def zbuf_def)

lemma buffer_at: "at \<lparr>bytes = s @ [LF, NUL], cap = length s + 2\<rparr> 0 (s @ [LF, NUL])"
  by (simp add: at_def)

lemma conf_parse_from:
  assumes "at b 0 (d # s)" "d \<noteq> LF" "lines_from b n 0 c = Some r"
  shows "conf_parse c b n = Some (case r of None \<Rightarrow> (-1, c) | Some c' \<Rightarrow> (0, c'))"
  using assms(3) lines_from_start [OF assms(1,2)] by (simp add: conf_parse_def)

lemma item_start: "i \<noteq> Blank \<Longrightarrow> \<exists>d s. item_text i = d # s \<and> d \<noteq> LF"
proof (cases i)
  case (Setting k v)
  note f = table_facts [OF lookup_mem [of k]]
  show ?thesis using f(2,5) initials(1) Setting by (cases "lk_key (lookup_of k)") auto
qed auto

lemma read_conf_is:
  assumes "conf_ok [LF, NUL] items" "conf_wf c" "items \<noteq> []" "hd items \<noteq> Blank"
    and "open_stat path = Some (Some (length (conf_text items)))" "content path = Some (conf_text items)"
  shows "\<exists>c'. file_conf_read open_stat content c path = Some (0, c') \<and> conf_after items c c'"
proof -
  let ?s = "conf_text items"
  let ?b = "\<lparr>bytes = ?s @ [LF, NUL], cap = length ?s + 2\<rparr>"
  note a = buffer_at [of ?s]
  obtain i "is" where i: "items = i # is" using assms(3) by (cases items) auto
  obtain d ds where d: "?s = d # ds" "d \<noteq> LF" using item_start [of i] assms(4) i by auto
  obtain c' where c': "lines_from ?b (length ?s + 1) 0 c = lines_from ?b (length ?s + 1) (length ?s) c'"
      "conf_after items c c'"
    using lines_are [OF a _ assms(1,2), of "length ?s + 1"] by auto
  have "lines_from ?b (length ?s + 1) (length ?s) c' = Some (Some c')"
    by (rule file_end) (use at_append [OF a] in simp_all)
  then have "conf_parse c ?b (length ?s + 1) = Some (0, c')"
    using conf_parse_from [of ?b d "ds @ [LF, NUL]" "length ?s + 1" c "Some c'"] a d c'(1) by simp
  then show ?thesis using c'(2) by (simp add: file_buffer [where open_stat = open_stat and content = content, OF assms(5,6)])
qed


text \<open>A quote in the window behind a MIME block.\<close>

lemma setting_refused:
  assumes "at b p (item_text (Setting MIME (VMime es)) @ tail)" "cap b = n + 1"
    and "val_ok MIME_T (VMime es)" "conf_wf c" "1 \<le> length tail"
    and "DQ \<in> set (take (length es) (CHR ''}'' # LF # tail))" "length es \<le> Suc (length tail)"
    and "count_list (take (length es) (CHR ''}'' # LF # tail)) DQ \<le> 1"
  shows "lines_from b n p c = Some None"
proof -
  let ?lk = "lookup_of MIME"
  have lk: "lk_key ?lk = ''MIME''" "lk_size ?lk = 1024" "lk_type ?lk = MIME_T"
    by (simp_all add: lookup_of_def conf_lookup_arr_def conf_lookup_def)
  have a: "at b p (lk_key ?lk @ CHR '' '' # val_text (VMime es) @ LF # tail)" using assms(1) by simp
  have a1: "at b (p + length (lk_key ?lk) + 1) (val_text (VMime es) @ LF # tail)"
    using at_append [of b p "lk_key ?lk @ '' ''"] a by simp
  have "mem_ok MIME (conf_get MIME c)" using assms(4) unfolding conf_wf_def by blast
  then have cap: "cap (conf_mime c) = 1024" by (auto simp: mem_ok_def lookup_simps(1))
  have "type_mime_parse ?lk b (p + length (lk_key ?lk) + 1) c = Some None"
    using mime_parse_gives [OF a1 assms(3) lk(2) cap _ assms(8)] assms(6,7) by (auto split: option.splits)
  then have "key_loop conf_lookup_arr b p c = Some None"
    using key_loop_match [OF a _ _ lookup_mem lookup_mem, of c] by (simp add: conf_parse_val_def lk(3))
  moreover have "p < n" using at_length [OF a] assms(2,5) by simp
  moreover have a': "at b p (CHR ''M'' # ''IME'' @ CHR '' '' # val_text (VMime es) @ LF # tail)"
    using a lk(1) by simp
  then have "rd b p = Some (CHR ''M'')" using at_holds [OF a'] by (simp add: holds_Cons)
  ultimately have "conf_loop b n p c = Some None"
    by (subst conf_loop.simps) simp
  then show ?thesis using lines_from_start [OF a'] by simp
qed

lemma read_conf_refused:
  assumes "items = pre @ Setting MIME (VMime es) # post"
    and "conf_ok (item_text (Setting MIME (VMime es)) @ conf_text post @ [LF, NUL]) pre" "conf_wf c" "hd items \<noteq> Blank"
    and "val_ok MIME_T (VMime es)" "length es \<le> length (conf_text post) + 3"
    and "count_list (take (length es) (CHR ''}'' # LF # conf_text post @ [LF, NUL])) DQ = 1"
    and "open_stat path = Some (Some (length (conf_text items)))" "content path = Some (conf_text items)"
  shows "file_conf_read open_stat content c path = Some (-1, c)"
proof -
  let ?s = "conf_text items" and ?m = "Setting MIME (VMime es)"
  let ?b = "\<lparr>bytes = ?s @ [LF, NUL], cap = length ?s + 2\<rparr>" and ?n = "length (conf_text items) + 1"
  have s: "?s = conf_text pre @ item_text ?m @ conf_text post"
    using assms(1) by (simp add: conf_text_def)
  have a: "at ?b 0 (conf_text pre @ item_text ?m @ conf_text post @ [LF, NUL])"
    using buffer_at [of ?s] s by simp
  obtain i "is" where i: "items = i # is" using assms(1) by (cases pre) auto
  obtain d ds where d: "?s = d # ds" "d \<noteq> LF" using item_start [of i] assms(4) i by auto
  obtain c1 where c1: "lines_from ?b ?n 0 c = lines_from ?b ?n (length (conf_text pre)) c1" "conf_wf c1"
    using lines_are [OF a _ assms(2,3), of ?n] by (auto simp: conf_after_def)
  have a1: "at ?b (length (conf_text pre)) (item_text ?m @ conf_text post @ [LF, NUL])"
    using at_append [OF a] by simp
  have q: "DQ \<in> set (take (length es) (CHR ''}'' # LF # conf_text post @ [LF, NUL]))"
    using assms(7) count_list_0_iff by (metis zero_neq_one)
  have "lines_from ?b ?n (length (conf_text pre)) c1 = Some None"
    by (rule setting_refused [OF a1 _ assms(5) c1(2) _ q]) (use assms(6,7) in simp_all)
  then have "conf_parse c ?b ?n = Some (-1, c)"
    using conf_parse_from [of ?b d "ds @ [LF, NUL]" ?n c None] buffer_at [of ?s] d c1(1) by simp
  then show ?thesis by (simp add: file_buffer [where open_stat = open_stat and content = content, OF assms(8,9)])
qed

lemma ports_too_long:
  assumes "at b p (ports_text ps @ LF # rest)" "ps \<noteq> []" "list_all (\<lambda>n. n < 2 ^ 16) ps"
    and "length (ports_text ps) = 126" "cap (conf_allow_ports c) = 128"
  shows "conf_parse_val (lookup_of ALLOW_PORTS) b p c = None"
proof -
  have lk: "lookup_of ALLOW_PORTS = conf_lookup ALLOW_PORTS 128 AP_T ''ALLOW_PORTS''"
    by (simp add: lookup_of_def conf_lookup_arr_def conf_lookup_def)
  let ?s = "ports_text ps"
  have h: "holds b p (?s @ LF # rest)" by (rule at_holds [OF assms(1)])
  have m: "memchr b p LF 127 = Some (Some (p + length ?s))"
    using memchr_holds [OF h LF_ports] assms(4) by simp
  have r: "rd_n b p (length ?s) = Some ?s" using holds_rd_n [OF h, of "length ?s"] by simp
  have sc: "ap_scan b p = Some True" by (rule ap_scan_is [of ps "[]"]) (use assms in simp_all)
  have z: "Option.bind (wr (conf_allow_ports c) 0 comma_str) (\<lambda>m. Option.bind (wr m (length comma_str) ?s)
      (\<lambda>m. Option.bind (wr m (126 + length comma_str) [NUL]) f)) = None" for f :: "cbuf \<Rightarrow> fws_conf option option"
  proof -
    have "wr (conf_allow_ports c) 0 ((comma_str @ ?s) @ [NUL]) = None"
      using assms(4,5) by (simp add: wr_eq_None comma_str_def)
    moreover have "126 + length comma_str = 0 + length (comma_str @ ?s)" using assms(4) by simp
    ultimately show ?thesis
      using assms(4)
      by (simp add: add.commute wr_bind_append [of "length comma_str" 0 comma_str]
          wr_bind_append [of "length comma_str + 126" 0 "comma_str @ ?s"])
  qed
  show ?thesis
    by (simp add: lk conf_lookup_def conf_parse_val_def type_ap_parse_def Let_def m r [unfolded assms(4)] sc assms(4) z
        del: memchr.simps)
qed

lemma read_ports_too_long:
  assumes "s = item_text (Setting ALLOW_PORTS (VPorts ps)) @ rest" "ps \<noteq> []" "list_all (\<lambda>n. n < 2 ^ 16) ps"
    and "length (ports_text ps) = 126" "cap (conf_allow_ports c) = 128"
    and "open_stat path = Some (Some (length s))" "content path = Some s"
  shows "file_conf_read open_stat content c path = None"
proof -
  let ?lk = "lookup_of ALLOW_PORTS"
  let ?b = "\<lparr>bytes = s @ [LF, NUL], cap = length s + 2\<rparr>"
  have lk: "lk_key ?lk = ''ALLOW_PORTS''"
    by (simp add: lookup_of_def conf_lookup_arr_def conf_lookup_def)
  have a: "at ?b 0 (lk_key ?lk @ CHR '' '' # ports_text ps @ LF # rest @ [LF, NUL])"
    using buffer_at [of s] unfolding assms(1) by simp
  then have a1: "at ?b (0 + length (lk_key ?lk) + 1) (ports_text ps @ LF # rest @ [LF, NUL])"
    using at_append [of ?b 0 "lk_key ?lk @ '' ''"] by simp
  obtain d ds where d: "ports_text ps = d # ds" "d \<noteq> CHR '' ''"
    using ports_start [OF assms(2)] dec_start by metis
  then have "key_loop conf_lookup_arr ?b 0 c = None"
    using key_loop_match [OF a _ _ lookup_mem lookup_mem, of c] ports_too_long [OF a1 assms(2-5)] by simp
  moreover have "rd ?b 0 = Some (CHR ''A'')" using at_holds [OF a] lk by (simp add: holds_Cons)
  ultimately have "conf_loop ?b (length s + 1) 0 c = None" by (subst conf_loop.simps) simp
  then show ?thesis by (simp add: file_buffer [where open_stat = open_stat and content = content, OF assms(6,7)] conf_parse_def)
qed

lemma conf_wf_zero: "conf_wf zero_conf"
  unfolding conf_wf_def
proof
  show "mem_ok k (conf_get k zero_conf)" for k
    by (cases k) (auto simp: mem_ok_def lookup_simps(1) zero_conf_def)
qed

section \<open>The shipped configuration\<close>

definition shipped_conf :: "conf_item list" where
  "shipped_conf =
    [Comment ('' Default position \"/etc/facows/facows.conf\"''),
     Blank,
     Comment ('' Default web port.''),
     Comment ('' Require http port for redirect to https.''),
     Setting HTTP_PORT (VNum 80),
     Setting HTTPS_PORT (VNum 443),
     Blank,
     Comment ('' Must not using sub domain, like \"www.example.com\", only using main domain.''),
     Setting DOMAIN (VStr ''example.com''),
     Blank,
     Comment ('' Default web root path for \"example.com\".''),
     Setting WEB_ROOT (VStr ''/var/www/facows''),
     Blank,
     Comment ('' Must not comment or delete WEB_LOG. Not support yet but using web log path in Configure structure.''),
     Setting WEB_LOG (VStr ''/var/log/facows''),
     Blank,
     Comment ('' SSL certificate and private key path. Must need to Facows.''),
     Setting SSL_CERT (VStr ''/etc/ssl/certs/cert.pem''),
     Setting SSL_KEY (VStr ''/etc/ssl/private/key.pem''),
     Blank,
     Comment ('' 429: Request too many''),
     Comment ('' Limit count reset time.''),
     Comment ('' Use seconds.''),
     Setting LIM_SWAP_TIME (VNum 60),
     Blank,
     Comment ('' Page count for base html extension.''),
     Comment ('' If over the count at LIM_SWAP_TIME, show to 429.''),
     Comment ('' Use count.''),
     Setting LIM_PAGE (VNum 60),
     Blank,
     Comment ('' Resoruce limit non-html like '.css', '.js', '.png'.''),
     Comment ('' If over the count at LIM_SWAP_TIME, show to 429.''),
     Comment ('' Use count.''),
     Setting LIM_RES (VNum 1200),
     Blank,
     Comment ('' The kernel TLS, use 'true' or 'false'.''),
     Setting KERNEL_TLS (VBool False),
     Blank,
     Comment ('' How long to keep cache for all files, use seconds.''),
     Setting CACHE_MAX_AGE (VNum 3600),
     Blank,
     Comment ('' [HSTS]''),
     Comment ('' Strict https connection.''),
     Comment ('' Warnning, client only access https during seconds.''),
     Comment ('' If HSTS true, must remove comment to HSTS_MAX_AGE.''),
     Setting HSTS (VBool False),
     Blank,
     Comment ('' [HSTS.require]''),
     Comment ('' Strict https connection during seconds.''),
     Comment ('' Value 0 HSTS initialization but https connect your site once.''),
     Comment ('' init: 0, 1d: 86400, 1m: 2592000, 1y: 31536000''),
     Comment ('' HSTS_MAX_AGE 86400''),
     Blank,
     Comment ('' [NFT]''),
     Comment ('' Net filter table enable for dos and flood attack.''),
     Comment ('' If NFT true, must remove comment to PPS_LIMIT, PPS_BURST, BAN_TIME, BAN_LIM.''),
     Setting NFT (VBool False),
     Blank,
     Comment ('' [NFT.require]''),
     Comment ('' PPS: Packet per second''),
     Comment ('' Limit packet per second by one IP.''),
     Comment ('' PPS_LIMIT 1000''),
     Blank,
     Comment ('' [NFT.require]''),
     Comment ('' Burst packet for first page loading. Dynamic limit.''),
     Comment ('' PPS_BURST 2000''),
     Blank,
     Comment ('' [NFT.require]''),
     Comment ('' Default time format minute for ban.''),
     Comment ('' BAN_TIME 15''),
     Blank,
     Comment ('' [NFT.require]''),
     Comment ('' Already in 429 (request too many) page, continuously request page count limit before ban.''),
     Comment ('' Use page count.''),
     Comment ('' BAN_LIM 30''),
     Blank,
     Comment ('' [NFT.optional]''),
     Comment ('' More allow ports, optional if nft true. E.g., ALLOW_PORTS [PORT], [PORT], ...''),
     Comment ('' ALLOW_PORTS 80, 443''),
     Blank,
     Comment ('' MIME configuration. Define MIME type to connect file extension.''),
     Comment ('' E.g., MIME_TYPE: [EXTENSION, EXTENSION, ...], MIME_TYPE: [...] ...''),
     Setting MIME (VMime [(0, ''text/html'', [''html'']),
        (0, ''text/css'', [''css'']),
        (0, ''text/javascript'', [''js'']),
        (0, ''text/plain'', [''txt'']),
        (1, ''image/svg+xml'', [''svg'']),
        (0, ''image/x-icon'', [''ico'']),
        (0, ''image/png'', [''png'']),
        (1, ''video/mp4'', [''mp4'']),
        (1, ''application/xml'', [''xml''])]),
     Blank,
     Comment ('' Default for MIME type. Work condition, file extension not exist in MIME configuration.''),
     Setting MIME_DEFAULT (VStr ''application/octet-stream'')]"

lemma shipped_ok: "conf_ok [LF, NUL] shipped_conf"
  by (simp add: shipped_conf_def lookup_simps(1) conf_text_def Let_def mime_ok_def entry_ok_def ext_ok_def
      lookup_of_def conf_lookup_arr_def conf_lookup_def eval_simps)


lemma conf_afterD:
  assumes "conf_after items c c'"
  shows "last_val k items = Some v \<Longrightarrow> val_is (lk_type (lookup_of k)) v (conf_get k c')"
    and "last_val k items = None \<Longrightarrow> conf_get k c' = conf_get k c"
proof -
  have "case last_val k items of None \<Rightarrow> conf_get k c' = conf_get k c
      | Some v \<Rightarrow> val_is (lk_type (lookup_of k)) v (conf_get k c')"
    using assms unfolding conf_after_def by blast
  then show "last_val k items = Some v \<Longrightarrow> val_is (lk_type (lookup_of k)) v (conf_get k c')"
    "last_val k items = None \<Longrightarrow> conf_get k c' = conf_get k c" by simp_all
qed

lemma last_val_ok: "conf_ok tail items \<Longrightarrow> last_val k items = Some v \<Longrightarrow> val_ok (lk_type (lookup_of k)) v"
  by (induction tail items arbitrary: v rule: conf_ok.induct) (auto split: option.splits if_splits)

text \<open>The table and the default type a configuration leaves, in the form the response side reads.\<close>

lemma conf_mime_after:
  assumes "conf_ok [LF, NUL] items" "conf_after items c c'"
    and "last_val MIME items = Some (VMime es)" "last_val MIME_DEFAULT items = Some (VStr d)"
  shows "conf_mime_is c' (map snd es) d" "length d < 127"
proof -
  have m: "val_is MIME_T (VMime es) (Chars (conf_mime c'))" and d: "val_is CHAR_T (VStr d) (Chars (conf_mime_default c'))"
    using conf_afterD(1) [OF assms(2,3)] conf_afterD(1) [OF assms(2,4)] by (simp_all add: lookup_simps(1))
  have ok: "val_ok MIME_T (VMime es)" "val_ok CHAR_T (VStr d)"
    using last_val_ok [OF assms(1,3)] last_val_ok [OF assms(1,4)] by (simp_all add: lookup_simps(1))
  then have "list_all entry_ok (map snd es)" by (auto simp: list_all_iff mime_ok_def)
  with m d show "conf_mime_is c' (map snd es) d" by (auto simp: conf_mime_is_def field_is_def)
  show "length d < 127" using ok by simp
qed

section \<open>Properties\<close>

text \<open>
  C16. Reading a configuration: for a file of comments, blank lines and settings in the documented
  form, \<open>file_conf_read\<close> succeeds, every key that occurs has the value of its last line (numbers,
  ports, booleans, strings, the list of allowed ports, the MIME table in the form the response
  side reads), and every other member is unchanged.
\<close>

theorem configuration_read:
  assumes "conf_ok [LF, NUL] items" "conf_wf c" "items \<noteq> []" "hd items \<noteq> Blank"
    and "open_stat path = Some (Some (length (conf_text items)))" "content path = Some (conf_text items)"
  shows "\<exists>c'. file_conf_read open_stat content c path = Some (0, c') \<and> conf_wf c' \<and>
     conf_test_mode c' = conf_test_mode c \<and> (\<forall>k. case last_val k items of
        None \<Rightarrow> conf_get k c' = conf_get k c
      | Some v \<Rightarrow> val_is (lk_type (lookup_of k)) v (conf_get k c'))"
  using read_conf_is [where open_stat = open_stat and content = content, OF assms] unfolding conf_after_def .

theorem configuration_read_witness:
  "\<exists>c. file_conf_read (\<lambda>p. Some (Some (length (conf_text shipped_conf)))) (\<lambda>p. Some (conf_text shipped_conf))
     zero_conf ''/etc/facows/facows.conf'' = Some (0, c) \<and> conf_http_port c = 80 \<and> conf_https_port c = 443 \<and>
     conf_lim_res c = 1200 \<and> conf_use_nft c = False \<and> field_is (conf_domain c) 128 ''example.com'' \<and>
     field_is (conf_mime_default c) 128 ''application/octet-stream'' \<and> conf_ban_lim c = 0"
proof -
  have "shipped_conf \<noteq> []" "hd shipped_conf \<noteq> Blank" by (simp_all add: shipped_conf_def)
  from configuration_read [OF shipped_ok conf_wf_zero this,
      of "\<lambda>p. Some (Some (length (conf_text shipped_conf)))" "''/etc/facows/facows.conf''"
        "\<lambda>p. Some (conf_text shipped_conf)"]
  obtain c where c: "file_conf_read (\<lambda>p. Some (Some (length (conf_text shipped_conf))))
      (\<lambda>p. Some (conf_text shipped_conf)) zero_conf ''/etc/facows/facows.conf'' = Some (0, c)"
    and k: "\<forall>k. case last_val k shipped_conf of None \<Rightarrow> conf_get k c = conf_get k zero_conf
      | Some v \<Rightarrow> val_is (lk_type (lookup_of k)) v (conf_get k c)" by auto
  show ?thesis
    using c spec [OF k, of HTTP_PORT] spec [OF k, of HTTPS_PORT] spec [OF k, of LIM_RES] spec [OF k, of NFT]
      spec [OF k, of DOMAIN] spec [OF k, of MIME_DEFAULT] spec [OF k, of BAN_LIM]
    by (intro exI [of _ c]) (simp add: shipped_conf_def lookup_simps(1) zero_conf_def)
qed

text \<open>
  C38. The window of the MIME parser: it leaves the closing quote of every type out of the count of
  bytes, so with \<open>n\<close> types the search for the next one reaches \<open>n\<close> bytes from the closing brace on,
  and a quote there, of a comment or of the next setting, makes a well-formed file be refused.
\<close>

theorem mime_window_refused:
  assumes "items = pre @ Setting MIME (VMime es) # post"
    and "conf_ok (item_text (Setting MIME (VMime es)) @ conf_text post @ [LF, NUL]) pre" "conf_wf c" "hd items \<noteq> Blank"
    and "val_ok MIME_T (VMime es)" "length es \<le> length (conf_text post) + 3"
    and "count_list (take (length es) (CHR ''}'' # LF # conf_text post @ [LF, NUL])) DQ = 1"
    and "open_stat path = Some (Some (length (conf_text items)))" "content path = Some (conf_text items)"
  shows "file_conf_read open_stat content c path = Some (-1, c)"
  using assms by (rule read_conf_refused)

theorem mime_window_refused_witness:
  "file_conf_read (\<lambda>p. Some (Some (length (conf_text
       [Setting MIME (VMime (replicate 10 (0, ''a/b'', [''c'']))), Setting DOMAIN (VStr ''a.io'')]))))
     (\<lambda>p. Some (conf_text [Setting MIME (VMime (replicate 10 (0, ''a/b'', [''c'']))), Setting DOMAIN (VStr ''a.io'')]))
     zero_conf [] = Some (-1, zero_conf)"
proof -
  define es :: "(nat \<times> string \<times> string list) list" where "es = replicate 10 (0, ''a/b'', [''c''])"
  define post where "post = [Setting DOMAIN (VStr ''a.io'')]"
  have e: "es = [(0, ''a/b'', [''c'']), (0, ''a/b'', [''c'']), (0, ''a/b'', [''c'']), (0, ''a/b'', [''c'']),
      (0, ''a/b'', [''c'']), (0, ''a/b'', [''c'']), (0, ''a/b'', [''c'']), (0, ''a/b'', [''c'']),
      (0, ''a/b'', [''c'']), (0, ''a/b'', [''c''])]"
    by (simp add: es_def numeral_eq_Suc)
  have post: "conf_text post = ''DOMAIN'' @ CHR '' '' # DQ # ''a.io'' @ DQ # [LF]"
    by (simp add: post_def lookup_of_def conf_lookup_arr_def conf_lookup_def)
  have ok: "val_ok MIME_T (VMime es)" by (simp add: e mime_ok_def entry_ok_def ext_ok_def)
  have len: "length es = 10" by (simp add: es_def)
  have w: "length es \<le> length (conf_text post) + 3"
    "count_list (take (length es) (CHR ''}'' # LF # conf_text post @ [LF, NUL])) DQ = 1"
    unfolding len post by simp_all
  have "hd (Setting MIME (VMime es) # post) \<noteq> Blank" by simp
  from mime_window_refused [of "Setting MIME (VMime es) # post" "[]" es post zero_conf
      "\<lambda>p. Some (Some (length (conf_text (Setting MIME (VMime es) # post))))" "[]"
      "\<lambda>p. Some (conf_text (Setting MIME (VMime es) # post))", OF _ _ conf_wf_zero this ok w refl refl]
  show ?thesis unfolding es_def post_def by simp
qed

text \<open>
  C37. A list of allowed ports of 126 characters passes every check and is then written, with the
  two characters put before it and its terminator, one byte behind \<open>allow_ports\<close>.
\<close>

theorem allow_ports_overflow:
  assumes "s = item_text (Setting ALLOW_PORTS (VPorts ps)) @ rest" "ps \<noteq> []" "list_all (\<lambda>n. n < 2 ^ 16) ps"
    and "length (ports_text ps) = 126" "cap (conf_allow_ports c) = 128"
    and "open_stat path = Some (Some (length s))" "content path = Some s"
  shows "file_conf_read open_stat content c path = None"
  using assms by (rule read_ports_too_long)

theorem allow_ports_overflow_witness:
  "let s = item_text (Setting ALLOW_PORTS (VPorts (replicate 14 10000 @ replicate 5 1000))) @ item_text (Setting NFT (VBool True))
   in file_conf_read (\<lambda>p. Some (Some (length s))) (\<lambda>p. Some s) zero_conf [] = None"
proof -
  let ?ps = "replicate 14 10000 @ replicate 5 (1000 :: nat)"
  have d: "dec 10000 = ''10000''" "dec 1000 = ''1000''" by (simp_all add: eval_simps)
  have "ports_text (replicate (Suc n) m @ x # xs) = concat (replicate (Suc n) (dec m @ '', '')) @ ports_text (x # xs)"
    for n m x xs by (induction n) (simp_all)
  from this [of 13 10000 1000 "replicate 4 1000"]
  have "ports_text ?ps = concat (replicate 14 (dec 10000 @ '', '')) @ ports_text (replicate 5 1000)"
    by (simp add: numeral_eq_Suc)
  moreover have "replicate 5 1000 = [1000, 1000, 1000, 1000, 1000 :: nat]" by (simp add: numeral_eq_Suc)
  ultimately have l: "length (ports_text ?ps) = 126" by (simp add: d length_concat sum_list_replicate)
  show ?thesis
    unfolding Let_def
    by (rule allow_ports_overflow [OF refl, of ?ps])
      (simp_all only: l refl, simp_all add: list_all_iff zero_conf_def)
qed

end
