(* ===== verification/Child.thy ===== *)
theory Child
  imports Handler_Inv Net_80 Parent
begin

text \<open>
  \<open>fws_child_run\<close> of \<open>src/fws.c\<close>, the process that serves the clients, with \<open>net_server_init\<close> of
  \<open>src/net.c\<close> and \<open>net_443_init\<close> of \<open>src/net_443.c\<close> it starts with: the start, and the loop over the
  events of \<open>epoll\<close>.  A context of a client is known by its address; the contexts that are allocated are a map, those
  registered with \<open>epoll\<close> a set.  The calls whose order matters are recorded in the state.
\<close>

section \<open>The state\<close>

text \<open>A context whose \<open>ssl_ctx_opq_p\<close> is null belongs to the plain port.\<close>

datatype 'w conn = Plain | Tls fws_data_ctx 'w

text \<open>
  What the process does: it opens the listening socket of a port, takes a group and a user, sets the
  timer, waits for events, calls the handler of a client.
\<close>

datatype action = OpenPort u16 | SetGid nat | SetUid nat | SetTimer | Wait | Handle nat

text \<open>
  \<open>ch_conns\<close>: the contexts that are allocated; \<open>ch_epoll\<close>: those in the interest list of \<open>epoll\<close>, from \<open>EPOLL_CTL_ADD\<close> until
  \<open>EPOLL_CTL_DEL\<close> or until their descriptor is closed.
\<close>

record 'w child_state =
  ch_conns :: "nat \<rightharpoonup> 'w conn"
  ch_epoll :: "nat set"
  ch_nft_arr :: "fws_nft list"
  ch_pipe :: "string list"
  ch_actions :: "action list"

definition act :: "action \<Rightarrow> 'w child_state \<Rightarrow> 'w child_state" where
  "act a st = st\<lparr>ch_actions := ch_actions st @ [a]\<rparr>"

lemma act_simps [simp]: "ch_conns (act a st) = ch_conns st" "ch_epoll (act a st) = ch_epoll st"
    "ch_nft_arr (act a st) = ch_nft_arr st" "ch_pipe (act a st) = ch_pipe st" "ch_actions (act a st) = ch_actions st @ [a]"
  by (simp_all add: act_def)

section \<open>The start\<close>

text \<open>\<open>net_server_init\<close>: the results of \<open>socket\<close> and of \<open>bind\<close>.\<close>

definition net_server_init :: "s32 \<Rightarrow> s32 \<Rightarrow> s32" where
  "net_server_init server_fd bind_ret =
     (if server_fd < 0 then -1 else if bind_ret < 0 then -1 else server_fd)"

text \<open>\<open>net_443_init\<close>: what OpenSSL says of the two files.\<close>

definition net_443_init :: "(string \<Rightarrow> s32) \<Rightarrow> (string \<Rightarrow> s32) \<Rightarrow> fws_conf \<Rightarrow> s32 option" where
  "net_443_init use_cert use_key config = do {
     cert \<leftarrow> cstr (conf_ssl_cert config) 0;
     if use_cert cert \<le> 0 then Some (-1)
     else do {
       key \<leftarrow> cstr (conf_ssl_key config) 0;
       Some (if use_key key \<le> 0 then -1 else 0)
     }
   }"

definition uname_str_arr :: "string list" where
  "uname_str_arr = [''www-data'', ''apache'', ''http'', ''nobody'']"

text \<open>The loop over the user names: the group and the user of the first one that exists.\<close>

primrec user_find :: "(string \<Rightarrow> (nat \<times> nat) option) \<Rightarrow> string list \<Rightarrow> (nat \<times> nat) option" where
  "user_find getpwnam [] = None"
| "user_find getpwnam (u # us) =
     (case getpwnam u of Some p \<Rightarrow> Some p | None \<Rightarrow> user_find getpwnam us)"

record child_env =
  cenv_use_cert :: "string \<Rightarrow> s32"
  cenv_use_key :: "string \<Rightarrow> s32"
  cenv_socket :: "u16 \<Rightarrow> s32"
  cenv_bind :: "u16 \<Rightarrow> s32"
  cenv_getpwnam :: "string \<Rightarrow> (nat \<times> nat) option"
  cenv_setgid :: "nat \<Rightarrow> s32"
  cenv_setuid :: "nat \<Rightarrow> s32"
  cenv_timer_create :: s32
  cenv_timer_settime :: s32

text \<open>Everything before the loop: the exit code, or \<open>None\<close> to go on.\<close>

definition child_start :: "child_env \<Rightarrow> fws_conf \<Rightarrow> 'w child_state \<Rightarrow> (s32 option \<times> 'w child_state) option" where
  "child_start C conf st = do {
     ret \<leftarrow> net_443_init (cenv_use_cert C) (cenv_use_key C) conf;
     Some (if ret < 0 then (Some 1, st)
       else let st = act (OpenPort (conf_http_port conf)) st in
         if net_server_init (cenv_socket C (conf_http_port conf)) (cenv_bind C (conf_http_port conf)) < 0
         then (Some 1, st)
       else let st = act (OpenPort (conf_https_port conf)) st in
         if net_server_init (cenv_socket C (conf_https_port conf)) (cenv_bind C (conf_https_port conf)) < 0
         then (Some 1, st)
       else (case user_find (cenv_getpwnam C) uname_str_arr of
          None \<Rightarrow> (Some 1, st)
        | Some (pw_gid, pw_uid) \<Rightarrow>
            let st = act (SetGid pw_gid) st in
            if cenv_setgid C pw_gid \<noteq> 0 then (Some 1, st)
            else let st = act (SetUid pw_uid) st in
            if cenv_setuid C pw_uid \<noteq> 0 then (Some 1, st)
            else if cenv_timer_create C < 0 then (Some 1, st)
            else let st = act SetTimer st in
            if cenv_timer_settime C < 0 then (Some 1, st)
            else (None, st)))
   }"

section \<open>Events\<close>

text \<open>
  An event \<open>epoll_wait\<close> reports, with what the calls made for it return: of \<open>accept4\<close> the new
  connection (a fresh address for its context, the address of the client, the state of its TLS
  object) or \<open>None\<close>, of \<open>epoll_ctl\<close> or of \<open>read\<close> whether it succeeds, and for a client what its
  handler gets to see.
\<close>

record 'w client_input =
  in_env :: "'w env"
  in_sockopt :: bool
  in_recv :: "io_read list"
  in_send :: "string \<Rightarrow> bool"

datatype 'w event =
    HttpReady "nat option" bool
  | HttpsReady "(nat \<times> u8 list \<times> 'w) option" bool
  | TimerReady bool
  | ClientReady nat "'w client_input"

text \<open>The context of a new TLS connection: zeroed, with the address and the configuration.\<close>

definition new_ctx :: "fws_conf \<Rightarrow> u8 list \<Rightarrow> fws_data_ctx" where
  "new_ctx conf ip = \<lparr>ctx_file_len = 0, ctx_req_buf = zbuf 8192, ctx_acc_read_n = 0, ctx_want_write = 0,
     ctx_ssl_status = SSL_STATUS_NEW, ctx_events = EPOLLIN, ctx_file_path = zbuf 1024,
     ctx_client_ip_buf = ip, ctx_conf = conf\<rparr>"

text \<open>
  The body of the \<open>for\<close> loop: whether it goes on with the next event (\<open>False\<close> is \<open>break\<close>), and the
  state.  An event for an address without a context is a use of freed memory.  \<open>_fws_80_run\<close> closes
  the descriptor, which takes it off the interest list, and frees the context; \<open>_fws_443_run\<close>, when it returns 0 or
  less, deletes the descriptor from the interest list and frees the context.
  \<open>Some None\<close>: the handler is still running after \<open>n\<close> passes.
\<close>

definition client_event ::
  "nat \<Rightarrow> fws_conf \<Rightarrow> 'w child_state \<Rightarrow> nat \<Rightarrow> 'w client_input \<Rightarrow> 'w child_state option option" where
  "client_event n conf st p inp =
     (case ch_conns st p of
        None \<Rightarrow> None
      | Some Plain \<Rightarrow> do {
          _ \<leftarrow> fws_80_run (in_sockopt inp) (in_recv inp) (in_send inp) conf;
          Some (Some (act (Handle p) (st\<lparr>ch_epoll := ch_epoll st - {p}, ch_conns := (ch_conns st)(p := None)\<rparr>)))
        }
      | Some (Tls c w) \<Rightarrow> do {
          r \<leftarrow> fws_443_run (in_env inp) n \<lparr>st_ctx = c, st_nft_arr = ch_nft_arr st, st_pipe = ch_pipe st,
                 st_log_flag = 0, st_http_req = zero_http_req, st_tls = w\<rparr>;
          case r of None \<Rightarrow> Some None
          | Some (ret, s, closed) \<Rightarrow>
              Some (Some (act (Handle p) (st\<lparr>ch_epoll := (if closed then ch_epoll st - {p} else ch_epoll st),
                ch_conns := (ch_conns st)(p := if closed then None else Some (Tls (st_ctx s) (st_tls s))),
                ch_nft_arr := st_nft_arr s, ch_pipe := st_pipe s\<rparr>)))
        })"

fun child_event ::
  "nat \<Rightarrow> fws_conf \<Rightarrow> 'w child_state \<Rightarrow> 'w event \<Rightarrow> (bool \<times> 'w child_state) option option" where
  "child_event n conf st (HttpReady None ctl) = Some (Some (False, st))"
| "child_event n conf st (HttpReady (Some p) ctl) =
     Some (Some (if ctl then (True, st\<lparr>ch_epoll := insert p (ch_epoll st), ch_conns := (ch_conns st)(p \<mapsto> Plain)\<rparr>)
       else (False, st)))"
| "child_event n conf st (HttpsReady None ctl) = Some (Some (False, st))"
| "child_event n conf st (HttpsReady (Some (p, ip, w)) ctl) =
     Some (Some (if ctl then (True, st\<lparr>ch_epoll := insert p (ch_epoll st), ch_conns := (ch_conns st)(p \<mapsto> Tls (new_ctx conf ip) w)\<rparr>)
       else (False, st)))"
| "child_event n conf st (TimerReady ok) =
     Some (Some (if ok then (True, st\<lparr>ch_nft_arr := nft_clear\<rparr>) else (False, st)))"
| "child_event n conf st (ClientReady p inp) =
     map_option (map_option (\<lambda>st. (True, st))) (client_event n conf st p inp)"

text \<open>The events of one \<open>epoll_wait\<close>; what a \<open>break\<close> leaves is reported again by the next one.\<close>

primrec child_batch ::
  "nat \<Rightarrow> fws_conf \<Rightarrow> 'w child_state \<Rightarrow> 'w event list \<Rightarrow> 'w child_state option option" where
  "child_batch n conf st [] = Some (Some st)"
| "child_batch n conf st (e # es) = do {
     r \<leftarrow> child_event n conf st e;
     case r of None \<Rightarrow> Some None
     | Some (go, st) \<Rightarrow> if go then child_batch n conf st es else Some (Some st)
   }"

text \<open>
  The loop: \<open>WaitStop\<close> is an \<open>epoll_wait\<close> that fails or returns after a signal.  The exit code is
  \<open>None\<close> while it waits.
\<close>

datatype 'w wait = WaitStop | WaitEvents "'w event list"

primrec child_loop ::
  "nat \<Rightarrow> fws_conf \<Rightarrow> 'w child_state \<Rightarrow> 'w wait list \<Rightarrow> (s32 option \<times> 'w child_state) option option" where
  "child_loop n conf st [] = Some (Some (None, act Wait st))"
| "child_loop n conf st (w # ws) =
     (case w of
        WaitStop \<Rightarrow> Some (Some (Some 0, act Wait st))
      | WaitEvents es \<Rightarrow> do {
          r \<leftarrow> child_batch n conf (act Wait st) es;
          case r of None \<Rightarrow> Some None | Some st \<Rightarrow> child_loop n conf st ws
        })"

definition child_init :: "'w child_state" where
  "child_init = \<lparr>ch_conns = Map.empty, ch_epoll = {}, ch_nft_arr = nft_clear, ch_pipe = [], ch_actions = []\<rparr>"

text \<open>The whole process: the exit code, \<open>None\<close> while it serves, and the state.\<close>

definition fws_child_run ::
  "child_env \<Rightarrow> nat \<Rightarrow> fws_conf \<Rightarrow> 'w wait list \<Rightarrow> (s32 option \<times> 'w child_state) option option" where
  "fws_child_run C n conf ws = do {
     (code, st) \<leftarrow> child_start C conf child_init;
     if code \<noteq> None then Some (Some (code, st)) else child_loop n conf st ws
   }"

section \<open>What a handler sends and counts\<close>

text \<open>\<open>inet_ntop\<close> and \<open>strftime\<close> give C strings, an address at most 45 bytes.\<close>

definition texts_ok :: "'w env \<Rightarrow> bool" where
  "texts_ok E \<longleftrightarrow> (\<forall>ip. NUL \<notin> set (env_ip_text E ip) \<and> length (env_ip_text E ip) < 45) \<and>
     NUL \<notin> set (env_time_text E)"

text \<open>A message about the client: a ban of its own address, or a log line that starts with it.\<close>

definition own_msg :: "string \<Rightarrow> message \<Rightarrow> bool" where
  "own_msg a m \<longleftrightarrow> msg_ok m \<and> length (msg_text m) \<le> 1024 \<and> (case m of MBan b \<Rightarrow> b = a | MLog t \<Rightarrow> prefix (a @ '' '') t)"

text \<open>Between two states of a handler: messages about the client, requests counted for it.\<close>

definition did :: "'w env \<Rightarrow> 'w fws_state \<Rightarrow> 'w fws_state \<Rightarrow> bool" where
  "did E st st' \<longleftrightarrow>
     (\<exists>ms. st_pipe st' = st_pipe st @ map msg_text ms \<and>
        list_all (own_msg (env_ip_text E (ctx_client_ip_buf (st_ctx st)))) ms) \<and>
     (\<exists>ps. st_nft_arr st' = foldl (\<lambda>arr p. snd (nft_request (ctx_conf (st_ctx st)) (ctx_client_ip_buf (st_ctx st)) p arr))
        (st_nft_arr st) ps) \<and>
     ctx_client_ip_buf (st_ctx st') = ctx_client_ip_buf (st_ctx st) \<and> ctx_conf (st_ctx st') = ctx_conf (st_ctx st)"

lemma did_same:
  assumes "st_pipe st' = st_pipe st" "st_nft_arr st' = st_nft_arr st"
    and "ctx_client_ip_buf (st_ctx st') = ctx_client_ip_buf (st_ctx st)" "ctx_conf (st_ctx st') = ctx_conf (st_ctx st)"
  shows "did E st st'"
proof -
  have "st_nft_arr st' = foldl f (st_nft_arr st) []" for f :: "fws_nft list \<Rightarrow> bool \<Rightarrow> fws_nft list"
    using assms by simp
  moreover have "st_pipe st' = st_pipe st @ map msg_text []" using assms by simp
  ultimately show ?thesis unfolding did_def using assms(3,4) by (metis list.pred_inject(1))
qed

lemma did_trans:
  assumes "did E a b" "did E b c"
  shows "did E a c"
proof -
  let ?ip = "ctx_client_ip_buf (st_ctx a)"
  let ?own = "own_msg (env_ip_text E ?ip)"
  let ?f = "\<lambda>arr p. snd (nft_request (ctx_conf (st_ctx a)) ?ip p arr)"
  obtain ms ps where ab: "st_pipe b = st_pipe a @ map msg_text ms" "list_all ?own ms"
      "st_nft_arr b = foldl ?f (st_nft_arr a) ps" "ctx_client_ip_buf (st_ctx b) = ?ip" "ctx_conf (st_ctx b) = ctx_conf (st_ctx a)"
    using assms(1) unfolding did_def by blast
  obtain ms' ps' where bc: "st_pipe c = st_pipe b @ map msg_text ms'" "list_all ?own ms'"
      "st_nft_arr c = foldl ?f (st_nft_arr b) ps'" "ctx_client_ip_buf (st_ctx c) = ?ip" "ctx_conf (st_ctx c) = ctx_conf (st_ctx a)"
    using assms(2) unfolding did_def ab(4,5) by blast
  have "st_pipe c = st_pipe a @ map msg_text (ms @ ms')" "list_all ?own (ms @ ms')"
    "st_nft_arr c = foldl ?f (st_nft_arr a) (ps @ ps')"
    using ab bc by simp_all
  with bc(4,5) show ?thesis unfolding did_def by blast
qed

definition pass_did :: "'w env \<Rightarrow> 'w fws_state \<Rightarrow> 'w pass \<Rightarrow> bool" where
  "pass_did E st p \<longleftrightarrow> (case p of Out ret st' \<Rightarrow> did E st st' | Again st' \<Rightarrow> did E st st')"

lemma pass_did_simps [simp]: "pass_did E st (Out ret st') = did E st st'" "pass_did E st (Again st') = did E st st'"
  by (simp_all add: pass_did_def)

lemma pass_did_trans: "did E a b \<Longrightarrow> pass_did E b p \<Longrightarrow> pass_did E a p"
  by (cases p) (auto intro: did_trans)

lemma did_with [simp]:
  "did E st (with_ctx st (c\<lparr>ctx_events := e\<rparr>) w) = did E st (with_ctx st c w)"
  "did E st (with_ctx st (c\<lparr>ctx_file_len := k\<rparr>) w) = did E st (with_ctx st c w)"
  "did E st (with_ctx st (c\<lparr>ctx_want_write := k\<rparr>) w) = did E st (with_ctx st c w)"
  "did E st (with_ctx st (st_ctx st) w)"
  by (simp_all add: did_def) (rule exI [of _ "[]"], simp)

lemma write_file_did: "pred_option (pass_did E st) (write_file E st)"
  unfolding write_file_def Let_def
  by (intro pred_rules) (auto dest!: file_write_frame intro!: did_same)

lemma answer_error_did: "pred_option (\<lambda>(ret, st'). did E st st') (answer_error E st code)"
  unfolding answer_error_def
  by (rule pred_bindI [OF err_write_frame]) (auto intro!: did_same)

lemma answer_file_did: "pred_option (pass_did E st) (answer_file E st tm f)"
proof -
  have w: "pred_option (pass_did E st) (write_file E (with_ctx st c w))"
    if "\<exists>e. c = (st_ctx st)\<lparr>ctx_events := e\<rparr>" for c w
  proof -
    have "did E st (with_ctx st c w)" using that by (auto intro!: did_same)
    then show ?thesis using write_file_did [of E "with_ctx st c w"] pass_did_trans
      by (cases "write_file E (with_ctx st c w)") auto
  qed
  show ?thesis
    unfolding answer_file_def Let_def
    by (intro pred_rules w) (auto dest!: pred_SomeD [OF res_write_frame] intro!: did_same)
qed

lemma answer_limited_did:
  assumes "texts_ok E"
  shows "pred_option (pass_did E st) (answer_limited E st tm code is_html f)"
proof -
  let ?c = "st_ctx st"
  obtain v arr where n: "nft_request (ctx_conf ?c) (ctx_client_ip_buf ?c) (is_html \<or> code \<noteq> 0) (st_nft_arr st) = (v, arr)"
    by (cases "nft_request (ctx_conf ?c) (ctx_client_ip_buf ?c) (is_html \<or> code \<noteq> 0) (st_nft_arr st)")
  let ?s = "st\<lparr>st_nft_arr := arr\<rparr>" and ?ip = "env_ip_text E (ctx_client_ip_buf ?c)"
  let ?f = "\<lambda>arr p. snd (nft_request (ctx_conf ?c) (ctx_client_ip_buf ?c) p arr)"
  have arr: "arr = foldl ?f (st_nft_arr st) [is_html \<or> code \<noteq> 0]" using n by simp
  have counted: "did E st ?s"
    unfolding did_def by (intro conjI exI [of _ "[]"] exI [of _ "[is_html \<or> code \<noteq> 0]"]) (simp_all add: arr)
  have banned: "did E st (?s\<lparr>st_pipe := st_pipe st @ [m]\<rparr>)" if "ban_message ?ip = Some (Some m)" for m
  proof -
    have l: "NUL \<notin> set ?ip" "length ?ip < 45" using assms by (simp_all add: texts_ok_def)
    have "m = msg_text (MBan ?ip)" using that ban_message_is [OF l(2)] by simp
    moreover have "own_msg ?ip (MBan ?ip)" using l by (simp add: own_msg_def)
    ultimately have "m = msg_text (MBan ?ip)" "own_msg ?ip (MBan ?ip)" .
    then show ?thesis
      unfolding did_def by (intro conjI exI [of _ "[MBan ?ip]"] exI [of _ "[is_html \<or> code \<noteq> 0]"]) (simp_all add: arr)
  qed
  have err: "pred_option (\<lambda>(ret, st'). did E st st') (answer_error E s k)" if "did E st s" for s k
    using answer_error_did [of E s k] that did_trans by (cases "answer_error E s k") auto
  have err_out: "pred_option (pass_did E st) (Option.bind (answer_error E s k) (\<lambda>(ret, st'). Some (Out ret st')))"
      "pred_option (pass_did E st) (Option.bind (answer_error E s k)
         (\<lambda>(ret, st'). if ret < 0 then Some (Out (-1) st') else Some (Again st')))" if "did E st s" for s k
    using err [OF that, of k] by (cases "answer_error E s k"; auto)+
  have whole: "pred_option (pass_did E st) (answer_file E ?s tm f)"
    using answer_file_did [of E ?s tm f] pass_did_trans [OF counted] by (cases "answer_file E ?s tm f") auto
  show ?thesis
  proof (cases v)
    case (Refused ban)
    have c: "ctx_client_ip_buf (st_ctx ?s) = ctx_client_ip_buf ?c" "st_pipe ?s = st_pipe st" by simp_all
    show ?thesis
    proof (cases ban)
      case True
      have "ban_message ?ip = Some (Some (CHR ''1'' # ?ip @ [NUL]))"
        using ban_message_is [of ?ip] assms by (simp add: texts_ok_def)
      then show ?thesis
        unfolding answer_limited_def n prod.case Let_def Refused verdict.case c
        using err_out(1) [OF banned] True by simp
    qed (simp add: answer_limited_def n Refused err_out(1) [OF counted])
  qed (simp_all add: answer_limited_def n Let_def err_out counted whole)
qed

lemma answer_did:
  assumes "texts_ok E" shows "pred_option (pass_did E st) (answer E st tm)"
proof -
  have l: "pred_option (pass_did E st) (answer_limited E (st\<lparr>st_ctx := (st_ctx st)\<lparr>ctx_file_path := fp\<rparr>\<rparr>) tm k h f)" for fp k h f
  proof -
    let ?s = "st\<lparr>st_ctx := (st_ctx st)\<lparr>ctx_file_path := fp\<rparr>\<rparr>"
    have "did E st ?s" by (rule did_same) simp_all
    then show ?thesis using answer_limited_did [OF assms, of ?s tm k h f] pass_did_trans
      by (cases "answer_limited E ?s tm k h f") auto
  qed
  show ?thesis
    unfolding answer_def Let_def
    by (intro pred_rules l) (auto dest!: write_frame intro!: did_same)
qed

lemma serve_one_did:
  assumes "texts_ok E" shows "pred_option (pass_did E st) (serve_one E tm st)"
proof -
  have l: "pred_option (pass_did E st) (answer E s tm)" if "did E st s" for s
    using answer_did [OF assms, of s tm] pass_did_trans [OF that] by (cases "answer E s tm") auto
  show ?thesis
    unfolding serve_one_def Let_def
    by (intro pred_rules l write_file_did)
      (auto dest!: pred_SomeD [OF read_frame] simp: log_flag_set_def same_conn_def intro!: did_same)
qed

lemma serve_did:
  assumes "texts_ok E" shows "pred_option (pass_did E st) (serve E tm n st)"
proof (induction n arbitrary: st)
  case 0
  then show ?case by (simp add: did_same)
next
  case (Suc n)
  have "pred_option (pass_did E st) (serve E tm n s)" if "did E st s" for s
    using Suc.IH [of s] pass_did_trans [OF that] by (cases "serve E tm n s") auto
  then show ?case
    unfolding serve.simps
    by (rule_tac pred_bindI [OF serve_one_did [OF assms]]) (auto split: pass.split)
qed

lemma cstr_no_NUL: "cstr b p = Some s \<Longrightarrow> NUL \<notin> set s"
  by (auto simp: cstr_def Let_def split: if_splits dest: set_takeWhileD)


lemma log_line_msg:
  assumes "log_line ip time flag q = Some (Some m)" "NUL \<notin> set ip" "NUL \<notin> set time"
  shows "\<exists>t. m = msg_text (MLog t) \<and> own_msg ip (MLog t)"
proof -
  obtain v me sub u l os br where c: "cstr (req_version q) 0 = Some v" "cstr (req_method q) 0 = Some me"
      "cstr (req_subdomain q) 0 = Some sub" "cstr (req_uri q) 0 = Some u" "cstr (req_lang q) 0 = Some l"
      "cstr (req_os q) 0 = Some os" "cstr (req_browser q) 0 = Some br"
    using assms(1) unfolding log_line_def
    by (auto simp: Option.bind_eq_Some_conv Let_def split: if_splits)
  let ?s = "log_head ip time @ log_tail flag [v, me, sub, u, l, os, br]"
  have "m = ?s @ [NUL]" "length ?s \<le> 1023"
    using log_line_is [OF c, of ip time flag] assms(1) by (simp_all add: Let_def split: if_splits)
  moreover have "NUL \<notin> set (log_tail flag [v, me, sub, u, l, os, br])"
    using c cstr_no_NUL by (auto simp: log_tail_def pad2_def)
  ultimately show ?thesis
    using assms(2,3)
    by (intro exI [of _ "ip @ '' '' @ time @ log_tail flag [v, me, sub, u, l, os, br]"])
      (simp add: log_head_def own_msg_def)
qed

lemma finish_did:
  assumes "texts_ok E" "finish E ret st = Some (ret', st', closed)" shows "did E st st'"
proof -
  let ?ip = "env_ip_text E (ctx_client_ip_buf (st_ctx st))"
  have "did E st (st\<lparr>st_pipe := st_pipe st @ [m]\<rparr>)"
    if m: "log_line ?ip (env_time_text E) (st_log_flag st) (st_http_req st) = Some (Some m)" for m
  proof -
    obtain t where "m = msg_text (MLog t)" "own_msg ?ip (MLog t)"
      using log_line_msg [OF m] assms(1) by (auto simp: texts_ok_def)
    then show ?thesis
      unfolding did_def by (intro conjI exI [of _ "[MLog t]"] exI [of _ "[]"]) simp_all
  qed
  then show ?thesis
    using assms(2) did_same [of st st E]
    by (auto simp: finish_def Option.bind_eq_Some_conv split: if_splits option.splits)
qed

lemma accept_did: "accept_tls E st = (r, st') \<Longrightarrow> did E st st'"
  by (rule did_same)
    (auto simp: accept_tls_def Let_def log_flag_set_def split: if_splits prod.splits)

lemma handler_did:
  assumes "texts_ok E" "fws_443_run E n st = Some (Some (ret, st', closed))" shows "did E st st'"
proof -
  let ?st = "st\<lparr>st_log_flag := 0, st_http_req := zero_http_req\<rparr>"
  obtain r st1 where a: "accept_tls E ?st = (r, st1)" by (cases "accept_tls E ?st")
  have s: "did E st ?st" by (rule did_same) simp_all
  have s1: "did E st st1" by (rule did_trans [OF s accept_did [OF a]])
  have k: "did E st1 (ktls_flags E st1)"
    by (rule did_same) (simp_all add: ktls_flags_def Let_def log_flag_set_def)
  have sv: "did E st st2" if "serve E tm n (ktls_flags E st1) = Some (Out ret2 st2)" for tm ret2 st2
    using pred_SomeD [OF serve_did [OF assms(1)] that] did_trans [OF did_trans [OF s1 k]] by simp
  note fin = finish_did [OF assms(1)]
  show ?thesis
  proof (cases "env_time E")
    case None
    then have "finish E (-1) ?st = Some (ret, st', closed)"
      using assms(2) by (auto simp: fws_443_run_def Let_def split: if_splits)
    then show ?thesis using did_trans [OF s fin] by blast
  next
    case (Some tm)
    show ?thesis
    proof (cases r)
      case None
      then obtain p where p: "serve E tm n (ktls_flags E st1) = Some p"
          "(case p of Out ret2 st2 \<Rightarrow> map_option Some (finish E ret2 st2) | Again _ \<Rightarrow> Some None) =
             Some (Some (ret, st', closed))"
        using assms(2) a Some by (auto simp: fws_443_run_def Let_def Option.bind_eq_Some_conv)
      then obtain ret2 st2 where "serve E tm n (ktls_flags E st1) = Some (Out ret2 st2)"
          "finish E ret2 st2 = Some (ret, st', closed)" by (cases p) auto
      then show ?thesis using did_trans [OF sv fin] by blast
    next
      case (Some x)
      then show ?thesis
        using assms(2) a \<open>env_time E = Some tm\<close> s1 did_trans [OF s1 fin]
        by (cases x; cases "snd x") (auto simp: fws_443_run_def Let_def)
    qed
  qed
qed

section \<open>The invariant of the loop\<close>

text \<open>
  What an event brings is sound: \<open>calloc\<close> gives an address that is not in use, and the library, the
  file system and the texts of a client are what their documentation says.
\<close>

definition event_ok :: "'w child_state \<Rightarrow> 'w event \<Rightarrow> bool" where
  "event_ok st e \<longleftrightarrow> (case e of
     HttpReady (Some p) ctl \<Rightarrow> ch_conns st p = None
   | HttpsReady (Some (p, ip, w)) ctl \<Rightarrow> ch_conns st p = None
   | ClientReady p inp \<Rightarrow> texts_ok (in_env inp) \<and> realpath_ok (env_realpath (in_env inp)) \<and>
       (\<exists>got sent. tls_ok (env_tls (in_env inp)) got sent)
   | _ \<Rightarrow> True)"

text \<open>The states between two events; waiting, and the steps of the start, only add an action.\<close>

inductive child_reach :: "nat \<Rightarrow> fws_conf \<Rightarrow> 'w child_state \<Rightarrow> bool" for n conf where
  start: "child_reach n conf child_init"
| acts: "child_reach n conf st \<Longrightarrow> child_reach n conf (act a st)"
| event: "child_reach n conf st \<Longrightarrow> event_ok st e \<Longrightarrow> child_event n conf st e = Some (Some (go, st')) \<Longrightarrow>
     child_reach n conf st'"

definition tls_conn_ok :: "string \<Rightarrow> fws_conf \<Rightarrow> 'w conn option \<Rightarrow> bool" where
  "tls_conn_ok root conf x \<longleftrightarrow> (case x of
     Some (Tls c w) \<Rightarrow> ctx_conf c = conf \<and> (\<exists>s. conn_inv root s c) | _ \<Rightarrow> True)"

definition pipe_ok :: "string list \<Rightarrow> bool" where
  "pipe_ok xs \<longleftrightarrow> (\<exists>ms. xs = map msg_text ms \<and> list_all (\<lambda>m. msg_ok m \<and> length (msg_text m) \<le> 1024) ms)"

definition child_inv :: "string \<Rightarrow> fws_conf \<Rightarrow> 'w child_state \<Rightarrow> bool" where
  "child_inv root conf st \<longleftrightarrow> (\<forall>p. tls_conn_ok root conf (ch_conns st p)) \<and> pipe_ok (ch_pipe st) \<and>
     length (ch_nft_arr st) = nft_arr_cap"

lemma tls_conn_simps [simp]: "tls_conn_ok root conf None" "tls_conn_ok root conf (Some Plain)"
  "tls_conn_ok root conf (Some (Tls c w)) = (ctx_conf c = conf \<and> (\<exists>s. conn_inv root s c))"
  by (simp_all add: tls_conn_ok_def)

lemma pipe_ok_append:
  assumes "pipe_ok xs" "list_all (own_msg a) ms" shows "pipe_ok (xs @ map msg_text ms)"
proof -
  obtain ms0 where "xs = map msg_text ms0" "list_all (\<lambda>m. msg_ok m \<and> length (msg_text m) \<le> 1024) ms0"
    using assms(1) by (auto simp: pipe_ok_def)
  with assms(2) show ?thesis
    unfolding pipe_ok_def by (intro exI [of _ "ms0 @ ms"]) (auto simp: list_all_iff own_msg_def)
qed

lemma new_ctx_inv:
  assumes "field_is (conf_web_root conf) 128 root"
  shows "conn_inv root SSL_STATUS_NEW (new_ctx conf ip)"
proof -
  have "pending (new_ctx conf ip) []" by (simp add: pending_def buf_has_def new_ctx_def crlf2_def)
  with assms show ?thesis by (auto simp: conn_inv_def conn_ok_def new_ctx_def)
qed

lemma request_length: "length (snd (nft_request conf ip page arr)) = length arr"
proof -
  have "length (snd (nft_find arr ip d i k)) = length arr" for d i k
    by (induction k arbitrary: d i) auto
  then show ?thesis
    by (auto simp: nft_request_def nft_slot_def Let_def split: prod.splits) (metis snd_conv)
qed

lemma requests_length: "length (foldl (\<lambda>arr p. snd (nft_request conf ip p arr)) arr ps) = length arr"
  by (induction ps arbitrary: arr) (simp_all add: request_length)

text \<open>What an event of a client does to the process, by the kind of its connection.\<close>

lemma client_event_cases:
  assumes "client_event n conf st p inp = Some (Some st')"
  obtains (plain) "ch_conns st p = Some Plain"
      "st' = act (Handle p) (st\<lparr>ch_epoll := ch_epoll st - {p}, ch_conns := (ch_conns st)(p := None)\<rparr>)"
  | (tls) c w ret s closed where "ch_conns st p = Some (Tls c w)"
      "fws_443_run (in_env inp) n \<lparr>st_ctx = c, st_nft_arr = ch_nft_arr st, st_pipe = ch_pipe st, st_log_flag = 0,
         st_http_req = zero_http_req, st_tls = w\<rparr> = Some (Some (ret, s, closed))"
      "st' = act (Handle p) (st\<lparr>ch_epoll := (if closed then ch_epoll st - {p} else ch_epoll st),
         ch_conns := (ch_conns st)(p := if closed then None else Some (Tls (st_ctx s) (st_tls s))),
         ch_nft_arr := st_nft_arr s, ch_pipe := st_pipe s\<rparr>)"
proof (cases "ch_conns st p")
  case None
  then show ?thesis using assms by (simp add: client_event_def)
next
  case (Some cn)
  show ?thesis
  proof (cases cn)
    case Plain
    then show ?thesis using assms Some plain by (auto simp: client_event_def Option.bind_eq_Some_conv)
  next
    case (Tls c w)
    then obtain ret s closed where "fws_443_run (in_env inp) n \<lparr>st_ctx = c, st_nft_arr = ch_nft_arr st, st_pipe = ch_pipe st,
        st_log_flag = 0, st_http_req = zero_http_req, st_tls = w\<rparr> = Some (Some (ret, s, closed))"
      using assms Some by (auto simp: client_event_def Option.bind_eq_Some_conv split: option.splits)
    moreover from this have "st' = act (Handle p) (st\<lparr>ch_epoll := (if closed then ch_epoll st - {p} else ch_epoll st),
        ch_conns := (ch_conns st)(p := if closed then None else Some (Tls (st_ctx s) (st_tls s))),
        ch_nft_arr := st_nft_arr s, ch_pipe := st_pipe s\<rparr>)"
      using assms Some Tls by (simp add: client_event_def)
    ultimately show ?thesis using tls Some Tls by blast
  qed
qed

lemma client_event_inv:
  assumes i: "child_inv root conf st" and e: "event_ok st (ClientReady p inp)"
    and r: "client_event n conf st p inp = Some (Some st')"
  shows "child_inv root conf st' \<and> (\<forall>q. q \<noteq> p \<longrightarrow> ch_conns st' q = ch_conns st q)"
  using r
proof (cases rule: client_event_cases)
  case plain
  then show ?thesis using i by (auto simp: child_inv_def)
next
  case (tls c w ret s closed)
  note run = tls(2) and st' = tls(3)
  obtain got sent where T: "tls_ok (env_tls (in_env inp)) got sent" and E: "realpath_ok (env_realpath (in_env inp))"
      and X: "texts_ok (in_env inp)" using e by (auto simp: event_ok_def)
  have "tls_conn_ok root conf (ch_conns st p)" using i by (simp add: child_inv_def)
  then obtain s1 where c: "ctx_conf c = conf" "conn_inv root s1 c" using tls(1) by auto
  have keep: "\<not> closed \<longrightarrow> (\<exists>s2. conn_inv root s2 (st_ctx s))"
    using handler_inv [OF T E _ run, of root s1] c(2) by auto
  obtain ms ps where d: "st_pipe s = ch_pipe st @ map msg_text ms"
      "list_all (own_msg (env_ip_text (in_env inp) (ctx_client_ip_buf c))) ms"
      "st_nft_arr s = foldl (\<lambda>arr p. snd (nft_request conf (ctx_client_ip_buf c) p arr)) (ch_nft_arr st) ps"
      "ctx_conf (st_ctx s) = conf"
    using handler_did [OF X run] c(1) by (auto simp: did_def)
  have "pipe_ok (st_pipe s)" using pipe_ok_append [OF _ d(2)] i d(1) by (simp add: child_inv_def)
  moreover have "length (st_nft_arr s) = nft_arr_cap" using i d(3) requests_length by (simp add: child_inv_def)
  ultimately show ?thesis
    using i keep d(4) unfolding child_inv_def st' by simp
qed

lemma child_event_inv:
  assumes "child_inv root conf st" "event_ok st e" "child_event n conf st e = Some (Some (go, st'))"
    and root: "field_is (conf_web_root conf) 128 root"
  shows "child_inv root conf st'"
proof (cases e)
  case (ClientReady p inp)
  then obtain st1 where "client_event n conf st p inp = Some (Some st1)" "st' = st1"
    using assms(3) by (cases "client_event n conf st p inp") auto
  then show ?thesis using client_event_inv [OF assms(1), of p inp n st1] assms(2) ClientReady by simp
next
  case (HttpReady a ctl)
  then show ?thesis using assms(1,3) by (cases a) (auto simp: child_inv_def split: if_splits)
next
  case (HttpsReady a ctl)
  show ?thesis
  proof (cases a)
    case (Some x)
    obtain p ip w where "x = (p, ip, w)" by (cases x)
    then show ?thesis
      using assms(1,3) HttpsReady Some new_ctx_inv [OF root, of ip]
      by (auto simp: child_inv_def new_ctx_def split: if_splits)
  qed (use assms(1,3) HttpsReady in simp)
next
  case (TimerReady ok)
  then show ?thesis using assms(1,3) by (auto simp: child_inv_def nft_clear_def split: if_splits)
qed

lemma child_reach_inv:
  assumes "child_reach n conf st" "field_is (conf_web_root conf) 128 root"
  shows "child_inv root conf st"
  using assms(1)
proof (induction rule: child_reach.induct)
  case start
  have "pipe_ok []" unfolding pipe_ok_def by (rule exI [of _ "[]"]) simp
  then show ?case by (simp add: child_inv_def child_init_def nft_clear_def)
next
  case (acts st a)
  then show ?case by (simp add: child_inv_def)
next
  case (event st e go st')
  then show ?case using child_event_inv assms(2) by blast
qed

section \<open>Freed contexts\<close>

text \<open>The events of one \<open>epoll_wait\<close>, one after the other, without a \<open>break\<close>.\<close>

inductive child_events :: "nat \<Rightarrow> fws_conf \<Rightarrow> 'w child_state \<Rightarrow> 'w event list \<Rightarrow> 'w child_state \<Rightarrow> bool" for n conf where
  none: "child_events n conf st [] st"
| more: "event_ok st e \<Longrightarrow> child_event n conf st e = Some (Some (True, st1)) \<Longrightarrow> child_events n conf st1 es st' \<Longrightarrow>
     child_events n conf st (e # es) st'"

inductive_cases events_Cons: "child_events n conf st (e # es) st'"

lemma batch_events: "child_events n conf st es st' \<Longrightarrow> child_batch n conf st es = Some (Some st')"
  by (induction rule: child_events.induct) simp_all

fun client_of :: "'w event \<Rightarrow> nat option" where
  "client_of (ClientReady p inp) = Some p" | "client_of _ = None"

primrec clients_of :: "'w event list \<Rightarrow> nat list" where
  "clients_of [] = []"
| "clients_of (e # es) = (case client_of e of None \<Rightarrow> clients_of es | Some p \<Rightarrow> p # clients_of es)"

lemma clients_append: "clients_of (es @ fs) = clients_of es @ clients_of fs"
  by (induction es) (simp_all split: option.split)

lemma clients_set: "p \<in> set (clients_of es) \<longleftrightarrow> (\<exists>e \<in> set es. client_of e = Some p)"
  by (induction es) (auto split: option.split)

text \<open>What \<open>epoll_wait\<close> may report: clients in the interest list, each at most once.\<close>

definition reported :: "'w child_state \<Rightarrow> 'w event list \<Rightarrow> bool" where
  "reported st es \<longleftrightarrow> distinct (clients_of es) \<and> set (clients_of es) \<subseteq> ch_epoll st"

text \<open>A registered context is one that is allocated, and the other way round.\<close>

definition epoll_inv :: "'w child_state \<Rightarrow> bool" where
  "epoll_inv st \<longleftrightarrow> ch_epoll st = dom (ch_conns st)"

lemma client_event_epoll:
  assumes "client_event n conf st p inp = Some (Some st')" "epoll_inv st"
  shows "epoll_inv st'" "q \<noteq> p \<Longrightarrow> q \<in> ch_epoll st' \<longleftrightarrow> q \<in> ch_epoll st"
  using assms(1) by (cases rule: client_event_cases; use assms(2) in \<open>auto simp: epoll_inv_def\<close>)+

lemma event_epoll:
  assumes "child_event n conf st e = Some (Some (go, st'))" "epoll_inv st"
  shows "epoll_inv st' \<and> (client_of e \<noteq> Some q \<longrightarrow> q \<in> ch_epoll st \<longrightarrow> q \<in> ch_epoll st')"
proof (cases e)
  case (ClientReady p inp)
  then have "client_event n conf st p inp = Some (Some st')"
    using assms(1) by (auto simp: map_option_case split: option.splits)
  from client_event_epoll [OF this assms(2)] ClientReady show ?thesis by auto
next
  case (HttpReady a ctl)
  then show ?thesis using assms by (cases a) (auto simp: epoll_inv_def split: if_splits)
next
  case (HttpsReady a ctl)
  then show ?thesis using assms by (cases a) (auto simp: epoll_inv_def split: if_splits prod.splits)
next
  case (TimerReady ok)
  then show ?thesis using assms by (auto simp: epoll_inv_def split: if_splits)
qed

lemma reach_epoll: "child_reach n conf st \<Longrightarrow> epoll_inv st"
proof (induction rule: child_reach.induct)
  case (event st e go st')
  then show ?case using event_epoll by blast
qed (simp_all add: epoll_inv_def child_init_def)

lemma events_epoll:
  "child_events n conf st es st' \<Longrightarrow> epoll_inv st \<Longrightarrow> epoll_inv st' \<and>
     ((\<forall>e \<in> set es. client_of e \<noteq> Some q) \<longrightarrow> q \<in> ch_epoll st \<longrightarrow> q \<in> ch_epoll st')"
proof (induction rule: child_events.induct)
  case (more st e st1 es st')
  from event_epoll [OF more.hyps(2) more.prems, of q] more.IH show ?case by auto
qed simp

section \<open>The start and what follows it\<close>

lemma user_find_is:
  "user_find g us = Some u \<Longrightarrow> \<exists>pre v post. us = pre @ v # post \<and> g v = Some u \<and> (\<forall>w \<in> set pre. g w = None)"
proof (induction us)
  case (Cons v us)
  show ?case
  proof (cases "g v")
    case None
    then obtain pre v' post where "us = pre @ v' # post" "g v' = Some u" "\<forall>w \<in> set pre. g w = None"
      using Cons by auto
    then show ?thesis using None by (intro exI [of _ "v # pre"] exI [of _ v'] exI [of _ post]) simp
  next
    case (Some x)
    then show ?thesis using Cons.prems by (intro exI [of _ "[]"] exI [of _ v] exI [of _ us]) simp
  qed
qed simp

text \<open>The actions of the loop.\<close>

definition serving :: "action \<Rightarrow> bool" where
  "serving a \<longleftrightarrow> (case a of Wait \<Rightarrow> True | Handle p \<Rightarrow> True | _ \<Rightarrow> False)"

lemma event_actions:
  assumes "child_event n conf st e = Some (Some (go, st'))"
  shows "\<exists>as. ch_actions st' = ch_actions st @ as \<and> list_all serving as"
proof (cases e)
  case (ClientReady p inp)
  then have "client_event n conf st p inp = Some (Some st')" using assms by (auto simp: map_option_case split: option.splits)
  then have "ch_actions st' = ch_actions st @ [Handle p]" by (cases rule: client_event_cases) simp_all
  then show ?thesis by (auto simp: serving_def)
next
  case (HttpReady a ctl)
  then have "ch_actions st' = ch_actions st" using assms by (cases a) (auto split: if_splits)
  then show ?thesis by auto
next
  case (HttpsReady a ctl)
  then have "ch_actions st' = ch_actions st" using assms by (cases a) (auto split: if_splits prod.splits)
  then show ?thesis by auto
next
  case (TimerReady ok)
  then have "ch_actions st' = ch_actions st" using assms by (auto split: if_splits)
  then show ?thesis by auto
qed

lemma batch_actions:
  "child_batch n conf st es = Some (Some st') \<Longrightarrow> \<exists>as. ch_actions st' = ch_actions st @ as \<and> list_all serving as"
proof (induction es arbitrary: st)
  case (Cons e es)
  obtain r where r: "child_event n conf st e = Some r" using Cons.prems by (auto simp: Option.bind_eq_Some_conv)
  with Cons.prems obtain go st1 where e: "child_event n conf st e = Some (Some (go, st1))"
      "if go then child_batch n conf st1 es = Some (Some st') else st1 = st'"
    by (cases r) (auto split: if_splits)
  obtain as where "ch_actions st1 = ch_actions st @ as" "list_all serving as" using event_actions [OF e(1)] by blast
  moreover obtain bs where "ch_actions st' = ch_actions st1 @ bs" "list_all serving bs"
    using e(2) Cons.IH [of st1] by (cases go) force+
  ultimately show ?case by (intro exI [of _ "as @ bs"]) simp
qed simp

lemma loop_actions:
  "child_loop n conf st ws = Some (Some (code, st')) \<Longrightarrow>
     \<exists>as. ch_actions st' = ch_actions st @ Wait # as \<and> list_all serving as \<and> code \<in> {None, Some 0}"
proof (induction ws arbitrary: st)
  case (Cons w ws)
  show ?case
  proof (cases w)
    case (WaitEvents es)
    with Cons.prems obtain st1 where b: "child_batch n conf (act Wait st) es = Some (Some st1)"
        "child_loop n conf st1 ws = Some (Some (code, st'))"
      by (auto simp: Option.bind_eq_Some_conv split: option.splits)
    obtain as where "ch_actions st1 = ch_actions st @ Wait # as" "list_all serving as" using batch_actions [OF b(1)] by auto
    moreover obtain bs where "ch_actions st' = ch_actions st1 @ Wait # bs" "list_all serving bs" "code \<in> {None, Some 0}"
      using Cons.IH [OF b(2)] by blast
    moreover have "serving Wait" by (simp add: serving_def)
    ultimately show ?thesis by (intro exI [of _ "as @ Wait # bs"]) simp
  qed (use Cons.prems in auto)
qed auto

text \<open>
  Every run ends in a state of \<open>child_reach\<close>, if each of its events is sound when it happens.
\<close>

primrec batch_ok :: "nat \<Rightarrow> fws_conf \<Rightarrow> 'w child_state \<Rightarrow> 'w event list \<Rightarrow> bool" where
  "batch_ok n conf st [] \<longleftrightarrow> True"
| "batch_ok n conf st (e # es) \<longleftrightarrow> event_ok st e \<and>
     (case child_event n conf st e of Some (Some (True, st')) \<Rightarrow> batch_ok n conf st' es | _ \<Rightarrow> True)"

primrec loop_ok :: "nat \<Rightarrow> fws_conf \<Rightarrow> 'w child_state \<Rightarrow> 'w wait list \<Rightarrow> bool" where
  "loop_ok n conf st [] \<longleftrightarrow> True"
| "loop_ok n conf st (w # ws) \<longleftrightarrow> (case w of WaitStop \<Rightarrow> True | WaitEvents es \<Rightarrow> batch_ok n conf (act Wait st) es \<and>
     (case child_batch n conf (act Wait st) es of Some (Some st') \<Rightarrow> loop_ok n conf st' ws | _ \<Rightarrow> True))"

lemma batch_reach:
  "child_batch n conf st es = Some (Some st') \<Longrightarrow> child_reach n conf st \<Longrightarrow> batch_ok n conf st es \<Longrightarrow> child_reach n conf st'"
proof (induction es arbitrary: st)
  case (Cons e es)
  obtain r where r: "child_event n conf st e = Some r" using Cons.prems(1) by (auto simp: Option.bind_eq_Some_conv)
  with Cons.prems(1) obtain go st1 where e: "child_event n conf st e = Some (Some (go, st1))"
      "if go then child_batch n conf st1 es = Some (Some st') else st1 = st'"
    by (cases r) (auto split: if_splits)
  have "child_reach n conf st1" by (rule child_reach.event [OF Cons.prems(2) _ e(1)]) (use Cons.prems(3) in simp)
  with e Cons.IH [of st1] Cons.prems(3) show ?case by (cases go) auto
qed simp

lemma loop_reach:
  "child_loop n conf st ws = Some (Some (code, st')) \<Longrightarrow> child_reach n conf st \<Longrightarrow> loop_ok n conf st ws \<Longrightarrow> child_reach n conf st'"
proof (induction ws arbitrary: st)
  case (Cons w ws)
  show ?case
  proof (cases w)
    case (WaitEvents es)
    with Cons.prems obtain st1 where b: "child_batch n conf (act Wait st) es = Some (Some st1)"
        "child_loop n conf st1 ws = Some (Some (code, st'))"
      by (auto simp: Option.bind_eq_Some_conv split: option.splits)
    have "child_reach n conf st1"
      by (rule batch_reach [OF b(1) child_reach.acts]) (use Cons.prems WaitEvents in simp_all)
    with b Cons WaitEvents show ?thesis by simp
  qed (use Cons.prems child_reach.acts in auto)
qed (auto intro: child_reach.acts)

lemma start_reach:
  "child_start C conf st = Some (code, st') \<Longrightarrow> child_reach n conf st \<Longrightarrow> child_reach n conf st'"
  by (auto simp: child_start_def Option.bind_eq_Some_conv Let_def child_reach.acts split: if_splits option.splits)

lemma run_reach:
  assumes "fws_child_run C n conf ws = Some (Some (code, st))"
    and "\<And>st0. child_start C conf child_init = Some (None, st0) \<Longrightarrow> loop_ok n conf st0 ws"
  shows "child_reach n conf st"
proof -
  obtain k st0 where s: "child_start C conf child_init = Some (k, st0)"
      "if k \<noteq> None then st = st0 else child_loop n conf st0 ws = Some (Some (code, st))"
    using assms(1) by (auto simp: fws_child_run_def Option.bind_eq_Some_conv split: if_splits)
  have r: "child_reach n conf st0" by (rule start_reach [OF s(1) child_reach.start])
  show ?thesis
  proof (cases k)
    case None
    with s have "child_loop n conf st0 ws = Some (Some (code, st))" "loop_ok n conf st0 ws" using assms(2) by simp_all
    with loop_reach r show ?thesis by blast
  qed (use s(2) r in simp)
qed

lemma child_started:
  assumes "child_start C conf st = Some (code, st')"
  shows "case code of
    Some k \<Rightarrow> k = 1 \<and> (\<exists>as. ch_actions st' = ch_actions st @ as \<and> list_all (\<lambda>a. \<not> serving a) as)
  | None \<Rightarrow> (\<exists>u. user_find (cenv_getpwnam C) uname_str_arr = Some u \<and> cenv_setgid C (fst u) = 0 \<and> cenv_setuid C (snd u) = 0 \<and>
      ch_actions st' = ch_actions st @
        [OpenPort (conf_http_port conf), OpenPort (conf_https_port conf), SetGid (fst u), SetUid (snd u), SetTimer])"
  using assms by (auto simp: child_start_def Option.bind_eq_Some_conv Let_def serving_def split: if_splits option.splits)

lemma banned_is:
  assumes "nft_request (ctx_conf (st_ctx st)) (ctx_client_ip_buf (st_ctx st)) (is_html \<or> code \<noteq> 0) (st_nft_arr st) = (Refused True, arr)"
    and "texts_ok E" "ip = env_ip_text E (ctx_client_ip_buf (st_ctx st))"
    and "answer_limited E st tm code is_html f = Some p"
  shows "\<exists>ret st'. p = Out ret st' \<and> ret \<le> 0 \<and> st_pipe st' = st_pipe st @ [msg_text (MBan ip)] \<and> st_nft_arr st' = arr"
proof -
  have l: "NUL \<notin> set ip" "length ip < 45" using assms(2,3) by (simp_all add: texts_ok_def)
  let ?s = "st\<lparr>st_nft_arr := arr, st_pipe := st_pipe st @ [msg_text (MBan ip)]\<rparr>"
  obtain ret st' where e: "answer_error E ?s 429 = Some (ret, st')" "p = Out ret st'"
    using assms(1,4) ban_message_is [OF l(2)]
    unfolding answer_limited_def by (auto simp: assms(3) Option.bind_eq_Some_conv)
  then show ?thesis using pred_SomeD [OF answer_error_inv e(1)] by (auto simp: with_ctx_def)
qed

section \<open>Properties\<close>

text \<open>
  C9. The event loop: after any sequence of events, of any clients in any order, every TLS
  connection is one its handler can be called for, what stands in the pipe to the parent are whole
  messages of at most 1024 bytes, and the table of the limiter has its 1024 entries.
\<close>

theorem event_loop_invariant:
  assumes "child_reach n conf st" "field_is (conf_web_root conf) 128 root"
  shows "(\<forall>p c w. ch_conns st p = Some (Tls c w) \<longrightarrow> ctx_conf c = conf \<and> (\<exists>s. conn_inv root s c)) \<and>
    (\<exists>ms. ch_pipe st = map msg_text ms \<and> list_all (\<lambda>m. msg_ok m \<and> length (msg_text m) \<le> 1024) ms) \<and>
    length (ch_nft_arr st) = nft_arr_cap"
proof -
  have i: "child_inv root conf st" by (rule child_reach_inv [OF assms])
  have "tls_conn_ok root conf (ch_conns st p)" for p using i by (simp add: child_inv_def)
  moreover have "pipe_ok (ch_pipe st)" "length (ch_nft_arr st) = nft_arr_cap" using i by (simp_all add: child_inv_def)
  ultimately show ?thesis unfolding pipe_ok_def by (metis tls_conn_simps(3))
qed

theorem event_loop_invariant_witness:
  "\<exists>s. conn_inv ''/srv'' s (new_ctx (zero_conf\<lparr>conf_web_root := \<lparr>bytes = ''/srv'', cap = 128\<rparr>\<rparr>) (replicate 16 1))"
proof -
  let ?c = "zero_conf\<lparr>conf_web_root := \<lparr>bytes = ''/srv'', cap = 128\<rparr>\<rparr>"
  let ?e = "HttpsReady (Some (7, replicate 16 1, ())) True"
  let ?st = "child_init\<lparr>ch_epoll := {7}, ch_conns := [7 \<mapsto> Tls (new_ctx ?c (replicate 16 1)) ()]\<rparr>"
  have "child_reach 9 ?c ?st"
    by (rule child_reach.event [OF child_reach.start, of ?e _ _ True]) (simp_all add: event_ok_def child_init_def)
  moreover have "field_is (conf_web_root ?c) 128 ''/srv''" by (simp add: field_is_def wf_buf_def cstr_bytes)
  ultimately show ?thesis using event_loop_invariant [of 9 ?c ?st "''/srv''"] by simp
qed

text \<open>
  C22. A client is only reported for itself: in an event of a TLS connection, the handler sends no
  ban but that of the client's own address, log lines that start with it, and counts requests for
  it alone; other connections keep their state.
\<close>

theorem handler_reports_own_client:
  assumes "texts_ok (in_env inp)" "ch_conns st p = Some (Tls c w)" "client_event n conf st p inp = Some (Some st')"
  shows "(\<exists>ms. ch_pipe st' = ch_pipe st @ map msg_text ms \<and>
      list_all (own_msg (env_ip_text (in_env inp) (ctx_client_ip_buf c))) ms) \<and>
    (\<exists>ps. ch_nft_arr st' = foldl (\<lambda>arr page. snd (nft_request (ctx_conf c) (ctx_client_ip_buf c) page arr)) (ch_nft_arr st) ps) \<and>
    (\<forall>q. q \<noteq> p \<longrightarrow> ch_conns st' q = ch_conns st q)"
proof -
  obtain ret s closed where run: "fws_443_run (in_env inp) n \<lparr>st_ctx = c, st_nft_arr = ch_nft_arr st,
      st_pipe = ch_pipe st, st_log_flag = 0, st_http_req = zero_http_req, st_tls = w\<rparr> = Some (Some (ret, s, closed))"
    and st': "ch_nft_arr st' = st_nft_arr s" "ch_pipe st' = st_pipe s" "\<forall>q. q \<noteq> p \<longrightarrow> ch_conns st' q = ch_conns st q"
    using assms(2,3) by (auto simp: client_event_def Option.bind_eq_Some_conv split: option.splits)
  from handler_did [OF assms(1) run] st' show ?thesis by (simp add: did_def)
qed

theorem handler_reports_own_client_witness:
  "\<exists>st'. client_event 1 zero_conf (child_init\<lparr>ch_conns := [7 \<mapsto> Tls (st_ctx (example_st [])) (0, [], [], [])]\<rparr>) 7
      \<lparr>in_env = example_env, in_sockopt = True, in_recv = [], in_send = (\<lambda>s. True)\<rparr> = Some (Some st') \<and>
    (\<exists>ms. ch_pipe st' = map msg_text ms \<and> list_all (own_msg ''::1'') ms)"
proof -
  let ?st = "child_init\<lparr>ch_conns := [7 \<mapsto> Tls (st_ctx (example_st [])) (0, [], [], [] :: string list)]\<rparr>"
  let ?inp = "\<lparr>in_env = example_env, in_sockopt = True, in_recv = [], in_send = (\<lambda>s :: string. True)\<rparr>"
  have e: "example_st [] = \<lparr>st_ctx = st_ctx (example_st []), st_nft_arr = nft_clear, st_pipe = [], st_log_flag = 0,
      st_http_req = zero_http_req, st_tls = (0, [], [], [])\<rparr>" by (simp add: example_st_def)
  obtain s where "fws_443_run example_env 1 (example_st []) = Some (Some (1, s, False))" using example_idle by blast
  then have "\<exists>st'. client_event 1 zero_conf ?st 7 ?inp = Some (Some st')"
    using e by (simp add: client_event_def child_init_def)
  then obtain st' where r: "client_event 1 zero_conf ?st 7 ?inp = Some (Some st')" by blast
  have "texts_ok (in_env ?inp)" by (simp add: texts_ok_def example_env_def)
  from handler_reports_own_client [OF this _ r] r show ?thesis by (auto simp: example_env_def child_init_def)
qed

text \<open>
  C23. No context is used after it was freed, and none is leaked: in every state the event loop can reach (\<open>run_reach\<close>), the contexts registered with
  \<open>epoll\<close> are exactly those that are allocated.  So when \<open>epoll_wait\<close> reports clients in
  its interest list, each at most once, the context of each of them is still allocated when its turn comes, whatever the
  handlers before it have closed and whatever addresses were given to new connections.
\<close>

theorem no_use_after_free:
  assumes "child_reach n conf st"
  shows "ch_epoll st = dom (ch_conns st) \<and>
    (\<forall>es pre p inp post st1. reported st es \<and> es = pre @ ClientReady p inp # post \<and> child_events n conf st pre st1 \<longrightarrow>
       ch_conns st1 p \<noteq> None)"
proof (intro conjI allI impI, goal_cases)
  case 1
  show ?case using reach_epoll [OF assms] by (simp add: epoll_inv_def)
next
  case (2 es pre p inp post st1)
  then have p: "p \<in> ch_epoll st" "p \<notin> set (clients_of pre)"
    by (auto simp: reported_def clients_append)
  then have "\<forall>e \<in> set pre. client_of e \<noteq> Some p" by (auto simp: clients_set)
  with events_epoll [of n conf st pre st1 p] reach_epoll [OF assms] 2 p(1) have "p \<in> ch_epoll st1" "epoll_inv st1" by auto
  then show ?case by (auto simp: epoll_inv_def)
qed

theorem no_use_after_free_witness:
  "\<exists>st (i :: unit client_input) st1. child_reach 1 zero_conf st \<and> reported st [ClientReady 3 i, ClientReady 7 i] \<and>
     child_events 1 zero_conf st [ClientReady 3 i] st1 \<and> ch_conns st1 3 = None \<and> ch_conns st1 7 \<noteq> None"
proof -
  let ?c = "zero_conf" and ?inp = "\<lparr>in_env = undefined, in_sockopt = False, in_recv = [], in_send = (\<lambda>_. True)\<rparr> :: unit client_input"
  have e: "\<exists>E :: unit env. texts_ok E \<and> realpath_ok (env_realpath E) \<and> (\<exists>got sent. tls_ok (env_tls E) got sent)"
    by (rule exI [of _ "\<lparr>env_tls = \<lparr>ssl_read = (\<lambda>w n. (0, [], w)), ssl_write = (\<lambda>w s. (0, w)), ssl_get_error = (\<lambda>w r. SSL_ERROR_SSL)\<rparr>,
      env_ssl_new = True, env_ssl_accept = (\<lambda>w. (1, w)), env_ktls = (True, True), env_time = None, env_time_text = [],
      env_ip_text = (\<lambda>ip. []), env_stat = (\<lambda>p. None), env_realpath = (\<lambda>p. None), env_open_stat = (\<lambda>p. None), env_open_read = (\<lambda>p. None)\<rparr>"])
      (auto simp: texts_ok_def realpath_ok_def tls_ok_def intro!: exI [of _ "\<lambda>w. []"])
  then obtain E :: "unit env" where E: "texts_ok E" "realpath_ok (env_realpath E)" "\<exists>got sent. tls_ok (env_tls E) got sent" by blast
  let ?i = "?inp\<lparr>in_env := E\<rparr>"
  let ?st = "child_init\<lparr>ch_epoll := {7, 3}, ch_conns := [3 \<mapsto> Plain, 7 \<mapsto> (Plain :: unit conn)]\<rparr>"
  let ?st1 = "act (Handle 3) (?st\<lparr>ch_epoll := {7}, ch_conns := [7 \<mapsto> Plain]\<rparr>)"
  have "child_reach 1 ?c (child_init\<lparr>ch_epoll := {3}, ch_conns := [3 \<mapsto> (Plain :: unit conn)]\<rparr>)"
    by (rule child_reach.event [OF child_reach.start, of "HttpReady (Some 3) True" _ _ True]) (simp_all add: event_ok_def child_init_def)
  then have r: "child_reach 1 ?c ?st"
    by (rule child_reach.event [where e = "HttpReady (Some 7) True" and go = True]) (simp_all add: event_ok_def child_init_def)
  have d: "{7, 3} - {3} = {7 :: nat}" by auto
  have c: "child_event 1 ?c ?st (ClientReady 3 ?i) = Some (Some (True, ?st1))"
    using d by (simp add: client_event_def fws_80_run_def)
  have ok: "event_ok ?st (ClientReady 3 ?i)" using E by (simp add: event_ok_def)
  have es: "child_events 1 ?c ?st [ClientReady 3 ?i] ?st1" by (rule child_events.more [OF ok c child_events.none])
  moreover have rep: "reported ?st [ClientReady 3 ?i, ClientReady 7 ?i]" by (simp add: reported_def)
  ultimately have "ch_conns ?st1 7 \<noteq> None" using no_use_after_free [OF r] by (metis append_Cons append_Nil)
  moreover have "ch_conns ?st1 3 = None" by simp
  ultimately show ?thesis using r es rep by blast
qed

text \<open>
  C24. Clients are served without privileges, by the order of what the process does: a run that exits before its loop
  exits with 1 and has neither waited for an event nor called a handler.  Every other run opened the
  two ports first, then took the group and after it the user of the first of the four names that exists, both with
  success, then set the timer, and only after that waited for events and called handlers; it takes no other group or user.
\<close>

theorem served_unprivileged:
  assumes "fws_child_run C n conf ws = Some (Some (code, st))"
  shows "(code = Some 1 \<and> list_all (\<lambda>a. \<not> serving a) (ch_actions st)) \<or>
    (code \<noteq> Some 1 \<and> (\<exists>u as pre v post.
       ch_actions st = [OpenPort (conf_http_port conf), OpenPort (conf_https_port conf), SetGid (fst u), SetUid (snd u), SetTimer] @ Wait # as \<and>
       list_all serving as \<and> uname_str_arr = pre @ v # post \<and> cenv_getpwnam C v = Some u \<and>
       (\<forall>w \<in> set pre. cenv_getpwnam C w = None) \<and> cenv_setgid C (fst u) = 0 \<and> cenv_setuid C (snd u) = 0))"
proof -
  obtain k st0 where s: "child_start C conf child_init = Some (k, st0 :: 'a child_state)"
    using assms by (auto simp: fws_child_run_def Option.bind_eq_Some_conv)
  have init: "ch_actions (child_init :: 'a child_state) = []" by (simp add: child_init_def)
  note start = child_started [OF s, unfolded init]
  show ?thesis
  proof (cases k)
    case (Some c)
    with assms s start show ?thesis by (auto simp: fws_child_run_def)
  next
    case None
    then have "child_loop n conf st0 ws = Some (Some (code, st))" using assms s by (simp add: fws_child_run_def)
    from loop_actions [OF this] obtain as where as: "ch_actions st = ch_actions st0 @ Wait # as" "list_all serving as" "code \<noteq> Some 1"
      by auto
    from None start obtain u where u: "user_find (cenv_getpwnam C) uname_str_arr = Some u" "cenv_setgid C (fst u) = 0"
        "cenv_setuid C (snd u) = 0" "ch_actions st0 = [OpenPort (conf_http_port conf), OpenPort (conf_https_port conf),
          SetGid (fst u), SetUid (snd u), SetTimer]" by auto
    from user_find_is [OF u(1)] as u(2-4) show ?thesis by auto
  qed
qed

theorem served_unprivileged_witness:
  "\<exists>as. ch_actions (snd (the (the (fws_child_run \<lparr>cenv_use_cert = (\<lambda>_. 1), cenv_use_key = (\<lambda>_. 1), cenv_socket = (\<lambda>_. 3), cenv_bind = (\<lambda>_. 0),
      cenv_getpwnam = [''apache'' \<mapsto> (48, 47)], cenv_setgid = (\<lambda>_. 0), cenv_setuid = (\<lambda>_. 0),
      cenv_timer_create = 5, cenv_timer_settime = 0\<rparr> 9 zero_conf [WaitEvents [TimerReady True :: unit event], WaitStop])))) =
    [OpenPort 0, OpenPort 0, SetGid 48, SetUid 47, SetTimer] @ Wait # as \<and> as = [Wait]"
proof -
  let ?C = "\<lparr>cenv_use_cert = (\<lambda>_. 1), cenv_use_key = (\<lambda>_. 1), cenv_socket = (\<lambda>_. 3), cenv_bind = (\<lambda>_. 0),
      cenv_getpwnam = [''apache'' \<mapsto> (48, 47)], cenv_setgid = (\<lambda>_. 0), cenv_setuid = (\<lambda>_. 0),
      cenv_timer_create = 5, cenv_timer_settime = 0\<rparr>"
  let ?r = "fws_child_run ?C 9 zero_conf [WaitEvents [TimerReady True :: unit event], WaitStop]"
  have r: "\<exists>st. ?r = Some (Some (Some 0, st)) \<and> ch_actions st = [OpenPort 0, OpenPort 0, SetGid 48, SetUid 47, SetTimer, Wait, Wait]"
    by (simp add: fws_child_run_def child_start_def net_443_init_def net_server_init_def uname_str_arr_def zero_conf_def child_init_def Let_def)
  then obtain st where st: "?r = Some (Some (Some 0, st))" "ch_actions st = [OpenPort 0, OpenPort 0, SetGid 48, SetUid 47, SetTimer, Wait, Wait]"
    by blast
  with served_unprivileged [OF st(1)] show ?thesis by auto
qed

end
