(* ===== verification/Facows.thy ===== *)
theory Facows
  imports Conf_Read Nft Child
begin

text \<open>
  \<open>src/facows.c\<close>: \<open>main\<close>, from the command line to the two processes.  \<open>printf\<close> and \<open>fprintf\<close>
  have no part in it.
\<close>

section \<open>The start of the program\<close>

definition test_str :: string where "test_str = ''test''"
definition conf_path_str :: string where "conf_path_str = ''/etc/facows/facows.conf''"
definition conf_test_path_str :: string where "conf_test_path_str = ''/etc/facows/facows_test.conf''"

datatype signal = SIGINT | SIGTERM | SIGPIPE

text \<open>
  What \<open>main\<close> asks of the system: \<open>sigaction\<close> for each signal, the configuration file, the route
  table and the context of the firewall library, \<open>pipe2\<close> and \<open>fork\<close>.
\<close>

record main_env =
  menv_sigaction :: "signal \<Rightarrow> s32"
  menv_open_stat :: "string \<Rightarrow> nat option option"
  menv_content :: "string \<Rightarrow> string option"
  menv_route :: "nat \<Rightarrow> string list option \<times> bool"
  menv_nft :: bool
  menv_pipe :: s32
  menv_fork :: s32

text \<open>
  The path of the configuration and the mode, or the exit code.  \<open>memcmp\<close> compares five bytes of
  \<open>argv[1]\<close>: for a shorter argument it reads behind it, which is undefined.
\<close>

definition main_args :: "string list \<Rightarrow> (s32 + string \<times> bool) option" where
  "main_args argv =
     (if length argv = 2 then do {
        let arg = argv ! 1;
        r \<leftarrow> mem_eq \<lparr>bytes = arg @ [NUL], cap = length arg + 1\<rparr> 0 (test_str @ [NUL]);
        Some (Inr (if r then (conf_test_path_str, True) else (conf_path_str, False)))
      } else if 2 < length argv then Some (Inl 1)
      else Some (Inr (conf_path_str, False)))"

text \<open>Up to the \<open>fork\<close>: the exit code, or the configuration; and the commands the firewall got.\<close>

definition main_start :: "main_env \<Rightarrow> string list \<Rightarrow> ((s32 + fws_conf) \<times> string list) option" where
  "main_start M argv = do {
     a \<leftarrow> main_args argv;
     case a of Inl code \<Rightarrow> Some (Inl code, [])
     | Inr (conf_path_p, test_mode) \<Rightarrow>
         if menv_sigaction M SIGINT < 0 then Some (Inl 1, [])
         else if menv_sigaction M SIGTERM < 0 then Some (Inl 1, [])
         else if menv_sigaction M SIGPIPE < 0 then Some (Inl 1, [])
         else do {
           let conf = (if test_mode then zero_conf\<lparr>conf_test_mode := True\<rparr> else zero_conf);
           (ret, conf) \<leftarrow> file_conf_read (menv_open_stat M) (menv_content M) conf conf_path_p;
           if ret < 0 then Some (Inl 1, [])
           else do {
             (ret, cmds) \<leftarrow> (if conf_use_nft conf then net_nft_init (menv_route M) (menv_nft M) conf
                            else Some (0, []));
             if ret < 0 then Some (Inl 1, cmds)
             else if menv_pipe M < 0 then Some (Inl 1, cmds)
             else if menv_fork M < 0 then Some (Inl 1, cmds)
             else Some (Inr conf, cmds)
           }
         }
   }"

text \<open>
  The two processes after the \<open>fork\<close>: the child never returns (its exit code is that of
  \<open>fws_child_run\<close>), the parent's exit code is 1 when \<open>fws_parent_run\<close> fails.
\<close>

definition main_parent ::
  "fws_conf \<Rightarrow> parent_env \<Rightarrow> ep_result list \<Rightarrow> (s32 \<times> parent_effect list \<times> string list) option option" where
  "main_parent conf env eps = do {
     r \<leftarrow> fws_parent_run conf env eps;
     Some (map_option (\<lambda>(ret, es, cmds). (if ret < 0 then 1 else 0, es, cmds)) r)
   }"

datatype 'w main_end =
    Exited s32 "string list"
  | AsChild "string list" "(s32 option \<times> 'w child_state) option"
  | AsParent "string list" "(s32 \<times> parent_effect list \<times> string list) option"

definition main ::
  "main_env \<Rightarrow> child_env \<Rightarrow> parent_env \<Rightarrow> nat \<Rightarrow> string list \<Rightarrow> 'w wait list \<Rightarrow> ep_result list \<Rightarrow>
     'w main_end option" where
  "main M C P n argv ws eps = do {
     (r, cmds) \<leftarrow> main_start M argv;
     case r of Inl code \<Rightarrow> Some (Exited code cmds)
     | Inr conf \<Rightarrow>
         if menv_fork M = 0 then do {
           r \<leftarrow> fws_child_run C n conf ws;
           Some (AsChild cmds r)
         } else do {
           r \<leftarrow> main_parent conf P eps;
           Some (AsParent cmds r)
         }
   }"

section \<open>From the file to the firewall\<close>

definition allow_text :: "conf_item list \<Rightarrow> string" where
  "allow_text items = (case last_val ALLOW_PORTS items of Some (VPorts ps) \<Rightarrow> '', '' @ ports_text ps | _ \<Rightarrow> [])"

lemma conf_wf_test: "conf_wf (zero_conf\<lparr>conf_test_mode := t\<rparr>)"
proof -
  have "conf_get k (zero_conf\<lparr>conf_test_mode := t\<rparr>) = conf_get k zero_conf" for k by (cases k) simp_all
  then show ?thesis using conf_wf_zero by (simp add: conf_wf_def)
qed

lemma allow_ports_are:
  assumes "conf_after items (zero_conf\<lparr>conf_test_mode := t\<rparr>) c"
  shows "cstr (conf_allow_ports c) 0 = Some (allow_text items) \<and> NUL \<notin> set (allow_text items)"
proof (cases "last_val ALLOW_PORTS items")
  case None
  then have "conf_allow_ports c = zbuf 128" using conf_afterD(2) [OF assms None] by (simp add: zero_conf_def)
  then show ?thesis using None by (simp add: allow_text_def)
next
  case (Some v)
  from conf_afterD(1) [OF assms Some] have v: "val_is AP_T v (Chars (conf_allow_ports c))" by (simp add: lookup_simps(1))
  then obtain ps where ps: "v = VPorts ps" by (cases v) auto
  then show ?thesis using v Some NUL_ports [of ps] by (simp add: allow_text_def field_is_def)
qed

lemma use_nft_is:
  assumes "conf_after items (zero_conf\<lparr>conf_test_mode := t\<rparr>) c"
  shows "conf_use_nft c \<longleftrightarrow> last_val NFT items = Some (VBool True)"
proof (cases "last_val NFT items")
  case None
  then show ?thesis using conf_afterD(2) [OF assms None] by (simp add: zero_conf_def)
next
  case (Some v)
  from conf_afterD(1) [OF assms Some] have "val_is BOOL_T v (Bool (conf_use_nft c))" by (simp add: lookup_simps(1))
  then show ?thesis using Some by (cases v) auto
qed

lemma main_args_is:
  "main_args (if test then [prog, ''test''] else [prog]) =
     Some (Inr (if test then conf_test_path_str else conf_path_str, test))"
  by (simp add: main_args_def test_str_def mem_eq_def rd_n_def eval_simps)

text \<open>The firewall commands of a start.\<close>

definition start_cmds :: "bool \<Rightarrow> string \<Rightarrow> conf_item list \<Rightarrow> fws_conf \<Rightarrow> string list" where
  "start_cmds test dev items c =
     (if last_val NFT items \<noteq> Some (VBool True) then []
      else if test then [port_elements ''add'' c '' '', ruleset ''facows_test'' ''-301'' dev (allow_text items) c]
      else [ruleset ''facows'' ''-300'' dev (allow_text items) c])"

lemma main_start_is:
  assumes "conf_ok [LF, NUL] items" "items \<noteq> []" "hd items \<noteq> Blank"
    and "path = (if test then conf_test_path_str else conf_path_str)"
    and "menv_open_stat M path = Some (Some (length (conf_text items)))" "menv_content M path = Some (conf_text items)"
    and "\<forall>s. 0 \<le> menv_sigaction M s" "0 \<le> menv_pipe M" "0 \<le> menv_fork M" "menv_nft M"
    and "first_found (map (found \<circ> menv_route M) [0..<5]) = Some dev"
  shows "\<exists>c. main_start M (if test then [prog, ''test''] else [prog]) = Some (Inr c, start_cmds test dev items c) \<and>
    conf_after items (zero_conf\<lparr>conf_test_mode := test\<rparr>) c \<and> conf_test_mode c = test"
proof -
  let ?z = "zero_conf\<lparr>conf_test_mode := test\<rparr>"
  have z: "(if test then zero_conf\<lparr>conf_test_mode := True\<rparr> else zero_conf) = ?z" by (simp add: zero_conf_def)
  obtain c where c: "file_conf_read (menv_open_stat M) (menv_content M) ?z path = Some (0, c)" "conf_after items ?z c"
    using read_conf_is [where open_stat = "menv_open_stat M" and content = "menv_content M",
        OF assms(1) conf_wf_test assms(2,3,5,6)] by blast
  have t: "conf_test_mode c = test" using c(2) by (simp add: conf_after_def)
  note a = allow_ports_are [OF c(2)]
  have n: "net_nft_init (menv_route M) (menv_nft M) c = Some (0, start_cmds test dev items c)" if "conf_use_nft c"
    using nft_init_is [OF conjunct1 [OF a] conjunct2 [OF a], of "menv_route M" True] assms(10,11) that t use_nft_is [OF c(2)]
    by (simp add: start_cmds_def)
  have s: "\<not> menv_sigaction M k < 0" for k using assms(7) by (simp add: not_less)
  have "main_start M (if test then [prog, ''test''] else [prog]) = Some (Inr c, start_cmds test dev items c)"
    using c(1) n assms(8,9) use_nft_is [OF c(2)] unfolding main_start_def main_args_is assms(4)
    by (auto simp: s z start_cmds_def)
  then show ?thesis using c(2) t by blast
qed

section \<open>Properties\<close>

text \<open>
  C25. The start of the program: with a well-formed configuration at the path of the mode and a
  system that answers every call, \<open>main\<close> reaches the \<open>fork\<close> with the configuration of the file, in
  the right mode, and the firewall has got the rules of the mode for the device of the default
  route and the allowed ports, or nothing when the configuration does not ask for it.
\<close>

theorem program_start:
  assumes "conf_ok [LF, NUL] items" "items \<noteq> []" "hd items \<noteq> Blank"
    and "path = (if test then conf_test_path_str else conf_path_str)"
    and "menv_open_stat M path = Some (Some (length (conf_text items)))" "menv_content M path = Some (conf_text items)"
    and "\<forall>s. 0 \<le> menv_sigaction M s" "0 \<le> menv_pipe M" "0 \<le> menv_fork M" "menv_nft M"
    and "first_found (map (found \<circ> menv_route M) [0..<5]) = Some dev"
  shows "\<exists>c. main_start M (if test then [prog, ''test''] else [prog]) = Some (Inr c,
      if last_val NFT items \<noteq> Some (VBool True) then []
      else if test then [port_elements ''add'' c '' '', ruleset ''facows_test'' ''-301'' dev (allow_text items) c]
      else [ruleset ''facows'' ''-300'' dev (allow_text items) c]) \<and>
    conf_after items (zero_conf\<lparr>conf_test_mode := test\<rparr>) c \<and> conf_test_mode c = test"
  using main_start_is [OF assms] unfolding start_cmds_def .

theorem program_start_witness:
  "\<exists>c. main_start \<lparr>menv_sigaction = \<lambda>s. 0, menv_open_stat = \<lambda>p. Some (Some 24),
      menv_content = \<lambda>p. Some (conf_text [Setting NFT (VBool True), Setting ALLOW_PORTS (VPorts [22])]),
      menv_route = \<lambda>k. (Some [''Iface Destination'', ''eth0 00000000 0102A8C0''], False), menv_nft = True,
      menv_pipe = 0, menv_fork = 7\<rparr> [''facows'', ''test''] =
    Some (Inr c, [port_elements ''add'' c '' '', ruleset ''facows_test'' ''-301'' ''eth0'' '', 22'' c]) \<and>
    conf_test_mode c"
proof -
  let ?i = "[Setting NFT (VBool True), Setting ALLOW_PORTS (VPorts [22])]"
  let ?r = "\<lambda>k :: nat. (Some [''Iface Destination'', ''eth0 00000000 0102A8C0''], False)"
  let ?M = "\<lparr>menv_sigaction = \<lambda>s. 0, menv_open_stat = \<lambda>p. Some (Some 24), menv_content = \<lambda>p. Some (conf_text ?i),
      menv_route = ?r, menv_nft = True, menv_pipe = 0, menv_fork = 7\<rparr>"
  have d: "dec 22 = ''22''" by (simp add: eval_simps)
  have ok: "conf_ok [LF, NUL] ?i" by (simp add: lookup_simps(1) d)
  have len: "length (conf_text ?i) = 24"
    by (simp add: lookup_of_def conf_lookup_arr_def conf_lookup_def d)
  have s: "route_scan [''Iface Destination'', ''eth0 00000000 0102A8C0''] = ''eth0''"
    by (simp add: route_line_def scan_word_def isspace_def route_dst_def)
  have f: "first_found (map (found \<circ> menv_route ?M) [0..<5]) = Some ''eth0''"
    using s by (simp add: found_def numeral_eq_Suc upt_conv_Cons del: upt_Suc route_scan.simps)
  have "\<exists>c. main_start ?M (if True then [''facows'', ''test''] else [''facows'']) = Some (Inr c,
      if last_val NFT ?i \<noteq> Some (VBool True) then []
      else if True then [port_elements ''add'' c '' '', ruleset ''facows_test'' ''-301'' ''eth0'' (allow_text ?i) c]
      else [ruleset ''facows'' ''-300'' ''eth0'' (allow_text ?i) c]) \<and>
    conf_after ?i (zero_conf\<lparr>conf_test_mode := True\<rparr>) c \<and> conf_test_mode c = True"
    by (rule program_start [OF ok _ _ refl _ _ _ _ _ _ f])
      (simp_all add: lookup_of_def conf_lookup_arr_def conf_lookup_def d)
  then obtain c where c: "main_start ?M [''facows'', ''test''] = Some (Inr c,
      [port_elements ''add'' c '' '', ruleset ''facows_test'' ''-301'' ''eth0'' (allow_text ?i) c])" "conf_test_mode c"
    by (auto simp del: conf_text_Cons)
  show ?thesis using c by (intro exI [of _ c]) (simp add: allow_text_def d)
qed

end
