(* ===== verification/Spec2Isabelle.thy ===== *)
theory Spec2Isabelle
  imports Answer Resume Parent Net_80 Facows
begin

text \<open>
  A verification library for \<open>facows\<close>, a static web server for TLS.

  \<^bold>\<open>The program.\<close>  \<open>main\<close> (\<open>src/facows.c\<close>) reads the configuration (\<open>src/file_conf.c\<close>), hands the
  rules to the packet filter (\<open>src/net_nft.c\<close>), opens a pipe and forks.  The child
  (\<open>fws_child_run\<close> of \<open>src/fws.c\<close>) drops its privileges and serves events of \<open>epoll\<close>: a client of
  the plain port is redirected (\<open>src/net_80.c\<close>), a client of the TLS port is served by
  \<open>_fws_443_run\<close>, which reads a request and writes the answer (\<open>src/net_443.c\<close>), parses it and
  builds the fields of the response (\<open>src/net_http.c\<close>, \<open>src/net.c\<close>), finds the file
  (\<open>src/file.c\<close>) and counts the request in a table that a timer clears.  Bans and log lines
  go through the pipe to the parent (\<open>fws_parent_run\<close>), which bans addresses and writes the log.

  \<^bold>\<open>The theories.\<close>
  \<^item> \<open>Prelude\<close>: arrays with a capacity (\<open>cbuf\<close>), reads and writes that fail out of bounds,
    predicates for their contents, rules for results that are undefined or satisfy a predicate.
    \<open>CLib\<close>: \<open>memchr\<close>, \<open>memmem\<close>, \<open>strnlen\<close>, \<open>strtol\<close> and their like.  \<open>Types\<close>: the structures of
    \<open>src/include/types.h\<close>.  \<open>Printf\<close>: \<open>snprintf\<close>.
  \<^item> \<open>File_Path\<close>: \<open>src/file.c\<close> without the configuration; from the path of a request to a file.
  \<^item> \<open>Http_Request\<close>: the request side of \<open>src/net_http.c\<close>.
  \<^item> \<open>Http_Response\<close>: its response side and \<open>net_host_build\<close> of \<open>src/net.c\<close>.
  \<^item> \<open>Net_443\<close>: \<open>src/net_443.c\<close> over a record of the functions of the TLS library.
  \<^item> \<open>Rate_Limit\<close>: the table of counters of \<open>_fws_443_run\<close>; the locale \<open>counter_table\<close> states what
    a table promises to its clients, the table of the program is an interpretation.
  \<^item> \<open>Https_Handler\<close>: \<open>_fws_443_run\<close>; \<open>Handler_Inv\<close>: the invariant of a connection, the end of its
    loop, and which files it opens; \<open>Answer\<close>: the whole answer to a request, a file or not;
    \<open>Resume\<close>: a file that goes out over several calls of the handler, and several requests in one call.
  \<^item> \<open>Net_80\<close>: \<open>src/net_80.c\<close> and \<open>_fws_80_run\<close>.
  \<^item> \<open>Conf_Parse\<close>: \<open>src/file_conf.c\<close>; \<open>Conf_Text\<close>: configurations as data and as text; \<open>Conf_Read\<close>:
    that reading the text gives the data back.
  \<^item> \<open>Nft\<close>: \<open>src/net_nft.c\<close>; \<open>Parent\<close>: \<open>fws_parent_run\<close>, with the locale \<open>message_pipe\<close> for the
    protocol of the pipe; \<open>Child\<close>: \<open>fws_child_run\<close>, \<open>net_server_init\<close>, \<open>net_443_init\<close>, and the event
    loop as a step relation; \<open>Facows\<close>: \<open>main\<close>.
  \<^item> this theory: what holds across them.

  \<^bold>\<open>Conventions.\<close>  A definition has the name of its function without the leading underscore, a
  loop its own definition.  The outer \<open>option\<close> is definedness: \<open>None\<close> is a read or write out of
  the bounds of an array, or another undefined behaviour of C.  An inner \<open>None\<close>, where there is one, is
  said at the definition: \<open>return -1\<close>, or a loop that is still running.  Unsigned integers of
  8, 16 and 32 bits are words; a signed one, and an unsigned 64-bit length or
  index, is an \<open>int\<close> or a \<open>nat\<close>, with the conversion written out where it can wrap
  (\<open>to_s32\<close>, \<open>u64_of\<close>).  Pointers into an array are indices, and what a call to
  the system or to a library returns is an argument: \<open>stat\<close>, \<open>realpath\<close>, \<open>open\<close> and \<open>fstat\<close> are
  functions of the name, \<open>recv\<close>, \<open>read\<close> and \<open>epoll_wait\<close> lists of results, the TLS library and
  a connection's surroundings the records \<open>tls\<close> and \<open>env\<close>.  What is relied on is a
  hypothesis: \<open>tls_ok\<close> (\<open>SSL_read\<close> returns what it stored, \<open>SSL_write\<close> takes all or
  nothing), \<open>patient\<close> (finitely many refusals), \<open>realpath_ok\<close> (names without \<open>..\<close>), \<open>texts_ok\<close>
  (the texts of \<open>inet_ntop\<close> and \<open>strftime\<close> are C strings that fit).

  \<^bold>\<open>What the lemmas show.\<close>  Requests: \<open>request_parse_refines\<close> (the pointer code computes one abstract step
  per header), \<open>request_line_fields\<close>, and a type invariant for every request that is parsed, with what is enough to be parsed; the
  headers that leave an array.  Files: \<open>file_parse_correct\<close> against a reference answer, the comparison with
  the web root, which is one of bytes, and what it is worth (\<open>root_compared_bytewise\<close>, \<open>files_outside_root_unread\<close>), the decoding of paths with its round trip and its overflow, and that
  redirects end.  Connections: requests are assembled however their bytes arrive, a file is sent once over all
  interruptions and completely to a patient client, headers and error pages
  byte for byte; the invariant, the end of the loop; \<open>request_answered\<close> and \<open>request_refused\<close>, which compose them, and
  \<open>transfer_resumed\<close> for an answer that is interrupted, \<open>requests_of_a_call\<close> for several.  Limiter: exact verdicts in any
  interleaving and isolation of clients.  Processes: the event loop keeps its invariant, sends no
  message but whole ones about the client of the event, keeps the contexts that are allocated and those registered with
  \<open>epoll\<close> the same, so uses none after it was freed, and comes after the privileges are dropped (\<open>ch_actions\<close> records
  the order);
  the parent acts on every message that arrives whole, in one read of an event; an offender is banned; the configuration is
  what the file says, and the rules are those of the mode.  The remaining properties state where
  the code goes wrong, exactly: the overflows, the lost messages, the refused
  configurations, the request in two pieces that is not answered.

  \<^bold>\<open>Bounds.\<close>  Loops are functions with a measure, in most cases the bytes left of an array, so they
  return.  The request loop of a connection has no bound of its own and takes fuel (\<open>serve\<close>); \<open>handler_terminates\<close>
  gives a number of passes that is enough, from what the peer still sends.  \<open>file_loop\<close> ends with
  the file.  The loops of the two processes run over the given list of events.

  \<^bold>\<open>Not modelled.\<close>  Diagnostics on \<open>stdout\<close> and \<open>stderr\<close>; descriptors, and what closing them does, but for the interest list of \<open>epoll\<close>; failures of
  \<open>calloc\<close>, \<open>epoll_create1\<close> and of the first \<open>epoll_ctl\<close>; the results of \<open>write\<close> to the pipe
  and to the log, so a full pipe; the contents of memory an undefined access would hit; the
  structures \<open>fws_thrd_ctx\<close>, \<open>fws_thrd_80_ctx\<close> and \<open>fws_swap_ctx\<close>, which no code uses.  OpenSSL and
  \<open>libnftables\<close> are not part of the program.
\<close>

section \<open>Properties across components\<close>

text \<open>
  C1. From the bytes of a request to the bytes of its answer.  When the bytes a call of the handler reads complete
  a well-formed request, of at most 8063 bytes, to a client that takes every byte and is not limited, and
  \<open>file_parse\<close> finds a file for its path and the subdomain of its \<open>Host\<close>, the connection gets exactly
  the header (date, age, tag, type of the extension, length) and the content of that file; a client
  whose \<open>If-None-Match\<close> is the tag of the file gets the header of a 304 and nothing else.
\<close>

theorem request_answered:
  assumes T: "tls_ok (env_tls E) got sent" "patient (env_tls E) (\<lambda>w. 0)" "realpath_ok (env_realpath E)"
    and conf: "conf = ctx_conf c" "conf_mime_is conf t d" "field_is (conf_web_root conf) 128 root"
      "field_is (conf_domain conf) 128 domain" "CR \<notin> set domain"
    and c: "c = st_ctx st" "conn_inv root SSL_STATUS_ACCEPT c" "pending c rcv" "ctx_want_write c \<noteq> 1" "ctx_file_len c = 0"
    and read: "net_443_read (env_tls E) (st_tls st) c = Some (1, c1, w1)" "got w1 = got (st_tls st) @ rest"
    and req: "rcv @ rest = req_text m u v hs" "req_ok domain m u v hs" "length (req_text m u v hs) \<le> 8063"
      "hdr_fold domain (map lower_hdr hs) (req_line m u v) = Some (k, q)"
      "field_is (req_subdomain q) 64 sub" "tag_is (req_etag q) tag" "cstr (req_origin q) 0 = Some []"
    and url: "NUL \<notin> set (url_decode (path_of u))"
      "length (sub_root root sub) + length (url_decode (path_of u)) \<le> 4084"
      "file_answer (env_stat E) (env_realpath E) (sub_root root sub) (path_of u) = 0"
      "candidate (env_stat E) (uri_code (path_of u) = 1) (sub_root root sub @ CHR ''/'' # url_decode (path_of u)) =
         Some (fname, int (length content))"
      "env_realpath E fname = Some name" "length name < 1024"
    and lim: "fst (nft_request conf (ctx_client_ip_buf c) (suffix ''.html'' name) (st_nft_arr st)) = Serve"
    and disk: "env_open_stat E name = Some (Some (mt, sz))" "env_open_read E name = Some content"
      "length content < 2 ^ 31"
    and date: "length (date_text tm) < 32" and ty: "lookup (ext_of name) t \<noteq> MimeErr" "length d < 64"
  shows "\<exists>st'. serve_one E tm st = Some (if tag = tag_of mt sz then Out 0 st' else Again st') \<and>
     sent (st_tls st') = sent (st_tls st) @ header_text (tag = tag_of mt sz) (date_text tm) (conf_cache_max_age conf)
        (tag_of mt sz) (if tag = tag_of mt sz then [] else type_of t d name) (int (length content))
        (hsts_age conf) False [] @
       (if tag = tag_of mt sz then [] else content)"
proof -
  obtain st1 where s: "serve_one E tm st = answer E st1 tm" "sent (st_tls st1) = sent (st_tls st)"
      "ctx_conf (st_ctx st1) = conf" and a: "st_http_req st1 = q"
      "st_nft_arr st1 = st_nft_arr st" "ctx_client_ip_buf (st_ctx st1) = ctx_client_ip_buf c"
      "wf_buf (ctx_file_path (st_ctx st1))" "cap (ctx_file_path (st_ctx st1)) = 1024" "ctx_file_len (st_ctx st1) = 0"
    and p: "req_path q = Some 0" "req_path_n q = length (path_of u)" "rd_n (req_uri q) 0 (length (path_of u)) = Some (path_of u)"
      "NUL \<notin> set (path_of u)" "length (path_of u) \<le> 4085"
    using serve_request [OF T(1) conf(1,4,5) c read req(1-4), where tm = tm] by metis
  show ?thesis
    unfolding s(1) s(2) [symmetric] s(3) [symmetric]
    by (rule answer_sends [OF T _ refl _ a(4-6) a(1) [symmetric] p req(5-7) url _ disk date ty])
      (use conf(2,3) lim a(2,3) s(3) in simp_all)
qed

theorem request_answered_witness:
  "\<exists>st'. serve_one sink_env example_tm (sink_st (sink_req ''/a.css?v=2'')) = Some (Again st') \<and>
     snd (snd (st_tls st')) = header_text False (date_text example_tm) 0 (tag_of 7 4) ''text/css'' 4 0 False [] @ ''body''"
proof -
  let ?u = "''/a.css?v=2''" and ?E = sink_env
  let ?st = "sink_st (sink_req ?u)"
  let ?c = "st_ctx ?st"
  have "set ?u \<inter> {CHR '' '', CR, NUL} = {}" "length ?u \<le> 100" by simp_all
  note r = sink_request [OF this]
  obtain c1 where read: "net_443_read (env_tls ?E) (st_tls ?st) ?c = Some (1, c1, ([], sink_req ?u, []))"
    using r(3) by (elim exE) (rule that)
  have mime: "conf_mime_is (ctx_conf ?c) example_table ''text/plain''"
    using example_conf_mime [of "''text/plain''"] by (simp add: conf_mime_is_def sink_st_def)
  have p: "path_of ?u = ''/a.css''" by (simp add: path_of_def)
  have d: "url_decode ''/a.css'' = ''/a.css''" by (simp add: url_decode_plain url_decode_short)
  have l: "lookup (ext_of ''/srv/www/a.css'') example_table = MimeFound ''text/css''"
    by (simp add: lookup_def ext_of_def example_table_def)
  have sr: "length (sub_root ''/srv'' ''www'') \<le> 4078" by (simp add: sub_root_def)
  have t: "[] \<noteq> tag_of 7 4" by (simp add: tag_of_def etag_of_def)
  have "\<exists>st'. serve_one ?E example_tm ?st = Some (if [] = tag_of 7 4 then Out 0 st' else Again st') \<and>
     snd (snd (st_tls st')) = snd (snd (st_tls ?st)) @ header_text ([] = tag_of 7 4) (date_text example_tm) (conf_cache_max_age (ctx_conf ?c))
        (tag_of 7 4) (if [] = tag_of 7 4 then [] else type_of example_table ''text/plain'' ''/srv/www/a.css'')
        (int (length ''body'')) (hsts_age (ctx_conf ?c)) False [] @ (if [] = tag_of 7 4 then [] else ''body'')"
    by (rule request_answered [where c = ?c and conf = "ctx_conf ?c" and rest = "sink_req ?u" and rcv = "[]" and k = 0
          and u = ?u and fname = "''/srv/www//a.css''" and sub = "''www''" and root = "''/srv''" and domain = "''a.io''"
          and t = example_table and d = "''text/plain''" and content = "''body''", unfolded p,
          OF sink_ok refl mime sink_conn(3,4) _ refl sink_conn(2,1) _ _ read _ _ r(1) _ sink_fold sink_fields])
      (use example_date l r(2) sr sink_file(1) [unfolded d] in
         \<open>simp_all add: sink_limit sink_file d sink_req_def [symmetric]\<close>,
       simp_all add: sink_st_def sink_env_def idle_ctx_def)
  with t l show ?thesis
    by (simp add: type_of_def hsts_age_def sink_st_def idle_ctx_def example_conf_def zero_conf_def)
qed

text \<open>
  C2. The answers that are no file, from the bytes of the request: a path that has another spelling is answered
  with the redirect to it and the connection ends; one without a name ends the connection; one
  that \<open>file_parse\<close> does not find gets the 404 page, and a client beyond its limit the 429 page,
  whatever it asked for.  After these pages the connection goes on, unless the client had been
  over its limit before.
\<close>

theorem request_refused:
  assumes T: "tls_ok (env_tls E) got sent" "patient (env_tls E) (\<lambda>w. 0)" "realpath_ok (env_realpath E)"
    and conf: "conf = ctx_conf c" "field_is (conf_web_root conf) 128 root" "field_is (conf_domain conf) 128 domain"
      "CR \<notin> set domain"
    and c: "c = st_ctx st" "conn_inv root SSL_STATUS_ACCEPT c" "pending c rcv" "ctx_want_write c \<noteq> 1" "ctx_file_len c = 0"
    and read: "net_443_read (env_tls E) (st_tls st) c = Some (1, c1, w1)" "got w1 = got (st_tls st) @ rest"
    and req: "rcv @ rest = req_text m u v hs" "req_ok domain m u v hs" "length (req_text m u v hs) \<le> 8063"
      "hdr_fold domain (map lower_hdr hs) (req_line m u v) = Some (k, q)" "field_is (req_subdomain q) 64 sub"
    and url: "NUL \<notin> set (url_decode (path_of u))" "length (sub_root root sub) + length (url_decode (path_of u)) \<le> 4084"
      "\<forall>name r. env_realpath E name = Some r \<longrightarrow> length r < 1024"
    and a: "a = file_answer (env_stat E) (env_realpath E) (sub_root root sub) (path_of u)"
      "a = 0 \<longrightarrow> names_file E (sub_root root sub) (path_of u) name"
    and vd: "vd = fst (nft_request conf (ctx_client_ip_buf c) (a \<noteq> 0 \<or> suffix ''.html'' name) (st_nft_arr st))"
      "a = 0 \<longrightarrow> vd \<noteq> Serve"
    and page: "page_is E body" "length (env_ip_text E (ctx_client_ip_buf c)) < 45"
  shows "\<exists>st'. serve_one E tm st =
      Some (if a = 301 \<or> a < 0 then Out (-1) st' else case vd of Refused _ \<Rightarrow> Out 0 st' | _ \<Rightarrow> Again st') \<and>
    sent (st_tls st') = sent (st_tls st) @
      (if a = 301 then moved_text (host_text_of sub domain (conf_https_port conf))
         (take (length (path_of u) - uri_cut (path_of u)) (path_of u))
       else if a < 0 then [] else err_page body (if vd = Serve then a else 429))"
proof -
  obtain st1 where s: "serve_one E tm st = answer E st1 tm" "sent (st_tls st1) = sent (st_tls st)"
      "ctx_conf (st_ctx st1) = conf" and st1: "st_http_req st1 = q"
      "st_nft_arr st1 = st_nft_arr st" "ctx_client_ip_buf (st_ctx st1) = ctx_client_ip_buf c"
      "wf_buf (ctx_file_path (st_ctx st1))" "cap (ctx_file_path (st_ctx st1)) = 1024"
    and p: "req_path q = Some 0" "req_path_n q = length (path_of u)" "rd_n (req_uri q) 0 (length (path_of u)) = Some (path_of u)"
      "NUL \<notin> set (path_of u)" "length (path_of u) \<le> 4085"
    using serve_request [OF T(1) conf(1,3,4) c read req(1-4), where tm = tm] by metis
  show ?thesis
    unfolding s(1) s(2) [symmetric]
    by (rule answer_refuses [OF T refl st1(4,5) s(3) [symmetric] conf(2,3) st1(1) [symmetric] p req(5) url a _ vd(2) page(1)])
      (use vd(1) st1(2,3) page(2) in simp_all)
qed

theorem request_refused_witness:
  "\<exists>st'. serve_one sink_env example_tm (sink_st (sink_req ''/b.css'')) = Some (Again st') \<and>
     snd (snd (st_tls st')) = err_page sink_page 404"
proof -
  let ?u = "''/b.css''" and ?E = sink_env
  let ?st = "sink_st (sink_req ?u)"
  let ?c = "st_ctx ?st"
  have "set ?u \<inter> {CHR '' '', CR, NUL} = {}" "length ?u \<le> 100" by simp_all
  note r = sink_request [OF this]
  obtain c1 where read: "net_443_read (env_tls ?E) (st_tls ?st) ?c = Some (1, c1, ([], sink_req ?u, []))"
    using r(3) by (elim exE) (rule that)
  have p: "path_of ?u = ?u" by (simp add: path_of_def)
  have d: "url_decode ?u = ?u" by (simp add: url_decode_plain url_decode_short)
  have a: "file_answer (env_stat ?E) (env_realpath ?E) (sub_root ''/srv'' ''www'') ?u = 404"
    by (simp add: file_answer_def candidate_def d uri_code_def uri_cut_def suffix_def sub_root_def sink_env_def)
  have "\<exists>st'. serve_one ?E example_tm ?st = Some (if 404 = (301 :: s32) \<or> 404 < (0 :: s32) then Out (-1) st'
        else case Serve of Refused _ \<Rightarrow> Out 0 st' | _ \<Rightarrow> Again st') \<and>
      snd (snd (st_tls st')) = snd (snd (st_tls ?st)) @
        (if 404 = (301 :: s32) then moved_text (host_text_of ''www'' ''a.io'' (conf_https_port (ctx_conf ?c))) (take (length ?u - uri_cut ?u) ?u)
         else if 404 < (0 :: s32) then [] else err_page sink_page (if Serve = Serve then 404 else 429))"
    by (rule request_refused [where c = ?c and conf = "ctx_conf ?c" and rest = "sink_req ?u" and rcv = "[]" and k = 0
          and u = ?u and sub = "''www''" and root = "''/srv''" and domain = "''a.io''" and a = 404 and vd = Serve and name = "[]", unfolded p,
          OF sink_ok refl sink_conn(3,4) _ refl sink_conn(2,1) _ _ read _ _ r(1) _ sink_fold sink_fields(1) _ _ _ a [symmetric] _ _ _ sink_page])
      (use r(2) in \<open>simp_all add: sink_limit sub_root_def d sink_req_def [symmetric]\<close>,
       simp_all add: sink_st_def sink_env_def idle_ctx_def)
  then show ?thesis by (simp add: sink_st_def)
qed

text \<open>
  C14. An offender is banned: a client beyond its limit whose offences, this request included, exceed
  \<open>ban_lim\<close> is refused, however its requests were interleaved with those of other clients
  since the table was cleared, and the message this leaves in the pipe makes the parent give
  the firewall the command that bans its address.
\<close>

theorem offender_banned:
  assumes "narrow conf" "\<forall>kr \<in> set krs. valid_ip (fst kr)" "valid_ip ip" "card (insert ip (fst ` set krs)) \<le> nft_arr_cap"
    and "conf = ctx_conf (st_ctx st)" "ip = ctx_client_ip_buf (st_ctx st)"
    and "st_nft_arr st = snd (run_table (\<lambda>arr ip page. nft_request conf ip page arr) nft_clear krs)"
    and "page \<longleftrightarrow> is_html \<or> code \<noteq> 0" "\<not> within conf (own ip krs)" "conf_use_nft conf"
    and "conf_ban_lim conf < ucast (of_nat (offence_count conf (own ip krs @ [page])) :: u16)"
    and "texts_ok E" "answer_limited E st tm code is_html f = Some p"
  shows "\<exists>ret st' m. p = Out ret st' \<and> ret \<le> 0 \<and> st_pipe st' = st_pipe st @ [m] \<and>
     parent_loop conf [EpReady True False [RData m]] = Some (Waiting, [Ban (ban_text conf (env_ip_text E ip))])"
proof -
  have "\<not> within conf (own ip krs @ [page])" using assms(9) within_snoc by blast
  then have v: "fst (nft_request conf ip page (st_nft_arr st)) = Refused True"
    using next_verdict [OF assms(1-4), of page] assms(7,9-11) by simp
  then obtain arr where "nft_request (ctx_conf (st_ctx st)) (ctx_client_ip_buf (st_ctx st)) (is_html \<or> code \<noteq> 0)
      (st_nft_arr st) = (Refused True, arr)"
    unfolding assms(5,6,8) by (metis prod.collapse)
  from banned_is [OF this assms(12) refl assms(13)] obtain ret st' where
    "p = Out ret st'" "ret \<le> 0" "st_pipe st' = st_pipe st @ [msg_text (MBan (env_ip_text E ip))]"
    using assms(6) by auto
  moreover have "NUL \<notin> set (env_ip_text E ip)" "length (env_ip_text E ip) < 45"
    using assms(12) by (simp_all add: texts_ok_def)
  ultimately show ?thesis using one_message [of "MBan (env_ip_text E ip)" conf] by auto
qed

theorem offender_banned_witness:
  "\<exists>m. parent_loop (zero_conf\<lparr>conf_use_nft := True, conf_ban_time := 15\<rparr>) [EpReady True False [RData m]] =
     Some (Waiting, [Ban ''add element netdev facows facows_ban6 {::1 timeout 15m}''])"
proof -
  let ?c = "zero_conf\<lparr>conf_use_nft := True, conf_ban_time := 15\<rparr>" and ?ip = "replicate 16 1 :: u8 list"
  let ?krs = "[(?ip, True), (replicate 16 2, True)]"
  let ?st = "(example_st [])\<lparr>st_ctx := (st_ctx (example_st []))\<lparr>ctx_conf := ?c, ctx_client_ip_buf := ?ip\<rparr>,
    st_nft_arr := snd (run_table (\<lambda>arr ip page. nft_request ?c ip page arr) nft_clear ?krs)\<rparr>"
  have n: "narrow ?c" "\<not> within ?c [True]" "\<not> within ?c [True, True]" by (simp_all add: narrow_def within_def zero_conf_def)
  have v: "valid_ip ?ip" "valid_ip (replicate 16 2)" by (simp_all add: valid_ip_def empty_ip_buf_def)
  have o: "offence_count ?c [True, True] = 2" using n by (simp add: offence_count_def)
  have ks: "\<forall>kr \<in> set ?krs. valid_ip (fst kr)" "card (insert ?ip (fst ` set ?krs)) \<le> nft_arr_cap" "own ?ip ?krs = [True]"
    using v by (simp_all add: nft_arr_cap_def card_insert_if)
  have b: "conf_ban_lim ?c < ucast (of_nat (offence_count ?c (own ?ip ?krs @ [True])) :: u16)"
    using ks(3) o by (simp add: zero_conf_def)
  have "fst (nft_request ?c ?ip True (st_nft_arr ?st)) = Refused True"
    using next_verdict [OF n(1) ks(1) v(1) ks(2), of True] n b ks(3) by (simp del: run_table.simps)
  then obtain arr where r: "nft_request ?c ?ip True (st_nft_arr ?st) = (Refused True, arr)" by (metis prod.collapse)
  have t: "texts_ok example_env" by (simp add: texts_ok_def example_env_def)
  have "\<exists>p. answer_limited example_env ?st example_tm 0 True zero_file = Some p"
    using r ban_message_is [of "''::1''"]
    by (simp add: answer_limited_def answer_error_def net_443_err_write_def example_env_def err_page_path_def del: run_table.simps)
  then obtain p where p: "answer_limited example_env ?st example_tm 0 True zero_file = Some p" by blast
  from offender_banned [OF n(1) ks(1) v(1) ks(2) _ _ _ _ _ _ b t p] ks(3) n(2)
  obtain m where "parent_loop ?c [EpReady True False [RData m]] = Some (Waiting, [Ban (ban_text ?c (env_ip_text example_env ?ip))])"
    by (auto simp del: parent_loop.simps run_table.simps)
  moreover have "ban_text ?c (env_ip_text example_env ?ip) = ''add element netdev facows facows_ban6 {::1 timeout 15m}''"
    by (simp add: example_env_def ban_text_def ipv4_map_str_def zero_conf_def dec_int_def eval_simps)
  ultimately show ?thesis by (auto simp del: parent_loop.simps)
qed

text \<open>
  C15. From the clients to the parent: what the child has put into the pipe, by any events of any
  clients in any order, is a list of messages.  The parent acts on every one of them, once and in order, and goes on waiting, if each of
  its events finds one or more whole messages, of at most 8185 bytes together, in one read; however the messages are
  grouped so.  (With two reads in an event it loses some, see \<open>parent_loses_messages\<close>.)
\<close>

theorem clients_to_parent:
  assumes "child_reach n conf st" "field_is (conf_web_root conf) 128 root"
    and "concat xss = ch_pipe st" "\<forall>xs \<in> set xss. xs \<noteq> [] \<and> length (concat xs) \<le> 8185"
  shows "\<exists>ms. ch_pipe st = map msg_text ms \<and> list_all (\<lambda>m. msg_ok m \<and> length (msg_text m) \<le> 1024) ms \<and>
     parent_loop conf (map (\<lambda>xs. EpReady True False [RData (concat xs)]) xss) = Some (Waiting, map (msg_effect conf) ms)"
proof -
  obtain ms where ms: "ch_pipe st = map msg_text ms" "list_all (\<lambda>m. msg_ok m \<and> length (msg_text m) \<le> 1024) ms"
    using child_reach_inv [OF assms(1,2)] by (auto simp: child_inv_def pipe_ok_def)
  then have "list_all msg_ok ms" by (auto simp: list_all_iff)
  from pipe_groups [OF _ this assms(4)] ms assms(3) show ?thesis by auto
qed

theorem clients_to_parent_witness:
  "parent_loop (zero_conf\<lparr>conf_web_root := \<lparr>bytes = ''/srv'', cap = 128\<rparr>\<rparr>)
     [EpReady True False [RData (msg_text (MLog (''::1 2026010203040500       '' @ [LF])))]] =
   Some (Waiting, [Log (''::1 2026010203040500       '' @ [LF])])"
proof -
  let ?c = "zero_conf\<lparr>conf_web_root := \<lparr>bytes = ''/srv'', cap = 128\<rparr>\<rparr>" and ?ip = "replicate 16 1 :: u8 list"
  let ?m = "MLog (''::1 2026010203040500       '' @ [LF])"
  let ?inp = "\<lparr>in_env = example_env, in_sockopt = True, in_recv = [], in_send = (\<lambda>s :: string. True)\<rparr>"
  let ?st = "child_init\<lparr>ch_epoll := {7}, ch_conns := [7 \<mapsto> Tls (new_ctx ?c ?ip) (0, [], [], [])]\<rparr>"
  have z: "cstr (zbuf n) 0 = Some []" if "0 < n" for n using that by simp
  have ll: "log_line ''::1'' ''20260102030405'' 0 zero_http_req = Some (Some (msg_text ?m))"
    using log_line_is [of zero_http_req "[]" "[]" "[]" "[]" "[]" "[]" "[]" "''::1''" "''20260102030405''" 0]
    by (simp add: z log_head_def log_tail_def pad2_def dec_int_def eval_simps)
  have "\<exists>s. fws_443_run example_env 1 \<lparr>st_ctx = new_ctx ?c ?ip, st_nft_arr = nft_clear, st_pipe = [], st_log_flag = 0,
      st_http_req = zero_http_req, st_tls = (0, [], [], [])\<rparr> = Some (Some (1, s, False)) \<and> st_pipe s = [msg_text ?m]"
    using ll by (simp add: fws_443_run_def accept_tls_def new_ctx_def example_env_def ktls_flags_def zero_conf_def
      serve_one_def net_443_read_def read_loop.simps script_tls_def with_ctx_def finish_def del: msg_text.simps)
  then have "\<exists>st'. child_event 1 ?c ?st (ClientReady 7 ?inp) = Some (Some (True, st')) \<and> ch_pipe st' = [msg_text ?m]"
    by (auto simp: client_event_def child_init_def)
  then obtain st' where e: "child_event 1 ?c ?st (ClientReady 7 ?inp) = Some (Some (True, st'))" "ch_pipe st' = [msg_text ?m]" by blast
  have "child_reach 1 ?c ?st"
    by (rule child_reach.event [OF child_reach.start, of "HttpsReady (Some (7, ?ip, (0, [], [], []))) True" _ _ True])
      (simp_all add: event_ok_def child_init_def)
  moreover have "event_ok ?st (ClientReady 7 ?inp)"
    using example_realpath example_tls by (auto simp: event_ok_def texts_ok_def example_env_def)
  ultimately have reach: "child_reach 1 ?c st'" using e(1) by (rule child_reach.event)
  have root: "field_is (conf_web_root ?c) 128 ''/srv''" by (simp add: field_is_def wf_buf_def cstr_bytes)
  have g: "concat [[msg_text ?m]] = ch_pipe st'" "\<forall>xs \<in> set [[msg_text ?m]]. xs \<noteq> [] \<and> length (concat xs) \<le> 8185"
    unfolding e(2) by simp_all
  from clients_to_parent [OF reach root g] obtain ms where ms: "[msg_text ?m] = map msg_text ms"
      "parent_loop ?c (map (\<lambda>xs. EpReady True False [RData (concat xs)]) [[msg_text ?m]]) = Some (Waiting, map (msg_effect ?c) ms)"
    unfolding e(2) by (elim exE conjE) (rule that)
  from ms(1) obtain x where x: "ms = [x]" "msg_text x = msg_text ?m" by (auto simp del: msg_text.simps)
  have "x = ?m" using x(2) by (cases x) simp_all
  with ms(2) x(1) show ?thesis by (simp del: msg_text.simps parent_loop.simps)
qed

text \<open>
  C17. Configured types are served: after a configuration with a MIME table and a default type is
  read, a file is answered with the type of the first entry of that table that lists its
  extension, and with the default type when no entry does.
\<close>

theorem configured_types_served:
  assumes "conf_ok [LF, NUL] items" "conf_wf c" "items \<noteq> []" "hd items \<noteq> Blank"
    and "open_stat cpath = Some (Some (length (conf_text items)))" "content cpath = Some (conf_text items)"
    and "last_val MIME items = Some (VMime es)" "last_val MIME_DEFAULT items = Some (VStr d)" "length d < 64"
    and "path_is path name" "length name < n" "field_is (req_etag q) 32 tag" "tag \<noteq> tag_of m s"
    and "stat_of name = Some (Some (m, s))" "length (date_text tm) < 32" "lookup (ext_of name) (map snd es) \<noteq> MimeErr"
  shows "\<exists>c' r. file_conf_read open_stat content c cpath = Some (0, c') \<and>
     net_http_res_build stat_of c' tm q path n = Some (0, r) \<and>
     cstr (res_content r) 0 = Some (case find (\<lambda>e. ext_of name \<in> set (snd (snd e))) es of
       Some e \<Rightarrow> fst (snd e) | None \<Rightarrow> d)"
proof -
  obtain c' where c': "file_conf_read open_stat content c cpath = Some (0, c')" "conf_after items c c'"
    using read_conf_is [where open_stat = open_stat and content = content, OF assms(1-6)] by blast
  note m = conf_mime_after [OF assms(1) c'(2) assms(7,8)]
  have "find (\<lambda>e. ext_of name \<in> set (snd e)) (map snd es) = map_option snd (find (\<lambda>e. ext_of name \<in> set (snd (snd e))) es)"
    by (induction es) auto
  then have ty: "type_of (map snd es) d name = (case find (\<lambda>e. ext_of name \<in> set (snd (snd e))) es of
      Some e \<Rightarrow> fst (snd e) | None \<Rightarrow> d)"
    using assms(16) by (auto simp: type_of_def lookup_def split: option.splits if_splits)
  from res_build_type(1) [where open_stat = stat_of, OF assms(10,11) m(1) assms(12,14,15,16,9)] assms(13) c'(1)
  show ?thesis unfolding ty by auto
qed

theorem configured_types_served_witness:
  "\<exists>c' r. file_conf_read (\<lambda>p. Some (Some (length (conf_text shipped_conf)))) (\<lambda>p. Some (conf_text shipped_conf))
     zero_conf conf_path_str = Some (0, c') \<and>
     net_http_res_build (\<lambda>n. Some (Some (7, 9))) c' example_tm zero_http_req
       \<lparr>bytes = ''/srv/x.min.js'', cap = 4096\<rparr> 4096 = Some (0, r) \<and>
     cstr (res_content r) 0 = Some ''text/javascript''"
proof -
  have s: "shipped_conf \<noteq> []" "hd shipped_conf \<noteq> Blank" by (simp_all add: shipped_conf_def)
  obtain es where es: "last_val MIME shipped_conf = Some (VMime es)"
      "find (\<lambda>e. ''js'' \<in> set (snd (snd e))) es = Some (0, ''text/javascript'', [''js''])"
    by (simp add: shipped_conf_def)
  have d: "last_val MIME_DEFAULT shipped_conf = Some (VStr ''application/octet-stream'')" by (simp add: shipped_conf_def)
  have x: "ext_of ''/srv/x.min.js'' = ''js''" by (simp add: ext_of_def)
  have "find (\<lambda>e. ''js'' \<in> set (snd e)) (map snd es) = Some (''text/javascript'', [''js''])"
    using es(2) by (induction es) (auto split: if_splits)
  then have l: "lookup ''js'' (map snd es) \<noteq> MimeErr" by (simp add: lookup_def)
  have t: "[] \<noteq> tag_of 7 9" by (simp add: tag_of_def etag_of_def)
  have p: "path_is \<lparr>bytes = ''/srv/x.min.js'', cap = 4096\<rparr> ''/srv/x.min.js''" by (rule path_is_lit) simp_all
  have e: "field_is (req_etag zero_http_req) 32 []" by (simp add: field_is_def)
  from configured_types_served [where open_stat = "\<lambda>p. Some (Some (length (conf_text shipped_conf)))"
      and content = "\<lambda>p. Some (conf_text shipped_conf)" and stat_of = "\<lambda>n. Some (Some (7, 9))" and cpath = conf_path_str
      and n = 4096 and tm = example_tm, OF shipped_ok conf_wf_zero s refl refl es(1) d _ p _ e t refl example_date] x l es(2)
  show ?thesis by simp
qed

end
